(* ===== verification/Prelude.thy ===== *)
theory Prelude
  imports Main "HOL-Library.Word"
begin

text \<open>
  Shared vocabulary of the development: Go's 64-bit integers, the outcome of a Go
  function that may return an error or panic, the error values the program builds and
  inspects, and the two library locales (an invariant of a step relation, and a
  simulation between two step relations) that the concurrent components instantiate.
\<close>

section \<open>Fact collections\<close>

named_theorems go_str \<open>facts about the model of package strings\<close>
named_theorems go_path \<open>facts about the model of packages path and filepath\<close>
named_theorems go_net \<open>facts about the model of package net\<close>
named_theorems frame \<open>what an operation leaves unchanged\<close>

section \<open>Machine integers\<close>

type_synonym uint64 = "64 word"

text \<open>
  Go's \<open>int\<close> has 64 bits on the supported platforms. Values are mathematical integers
  and \<open>int64\<close> is the reduction a Go addition performs.
\<close>

definition int64 :: "int \<Rightarrow> int" where
  "int64 n = (n + 2 ^ 63) mod 2 ^ 64 - 2 ^ 63"

definition in_int64 :: "int \<Rightarrow> bool" where
  "in_int64 n \<longleftrightarrow> - (2 ^ 63) \<le> n \<and> n < 2 ^ 63"

lemma int64_id [simp]: "in_int64 n \<Longrightarrow> int64 n = n"
  by (simp add: int64_def in_int64_def)

lemma in_int64_int64 [simp]: "in_int64 (int64 n)"
proof -
  have "0 \<le> (n + 2 ^ 63) mod 2 ^ 64" and "(n + 2 ^ 63) mod 2 ^ 64 < (2 ^ 64 :: int)"
    by simp_all
  then show ?thesis
    by (simp add: int64_def in_int64_def)
qed

lemma int64_add_int64: "int64 (int64 n + k) = int64 (n + k)"
proof -
  have "((n + 2 ^ 63) mod 2 ^ 64 - 2 ^ 63 + k + 2 ^ 63) mod 2 ^ 64
      = ((n + 2 ^ 63) mod 2 ^ 64 + k) mod (2 ^ 64 :: int)"
    by (simp add: algebra_simps)
  also have "\<dots> = (n + 2 ^ 63 + k) mod 2 ^ 64"
    by (rule mod_add_left_eq)
  also have "\<dots> = (n + k + 2 ^ 63) mod 2 ^ 64"
    by (simp add: algebra_simps)
  finally show ?thesis
    by (simp add: int64_def)
qed

section \<open>Errors and outcomes\<close>

text \<open>
  The error values the program tells apart: \<open>io.EOF\<close>, \<open>context.Canceled\<close>, a
  \<open>net.Error\<close> with its \<open>Timeout()\<close>, the group \<open>proxy.MultiErr\<close>, \<open>cmd.exitError\<close>
  (its \<open>Err\<close> may be nil) and any other error, which only its message identifies.
\<close>

datatype go_error =
    EOF
  | Canceled
  | NetError bool string
  | MultiErr "go_error list"
  | ExitError int "go_error option"
  | ErrorString string

text \<open>A Go function returns a value, returns an error, or panics.\<close>

datatype 'a outcome = Ok 'a | Err go_error | Panic

fun is_Ok :: "'a outcome \<Rightarrow> bool" where
  "is_Ok (Ok _) = True"
| "is_Ok _ = False"

lemma is_Ok_iff: "is_Ok r \<longleftrightarrow> (\<exists>x. r = Ok x)"
  by (cases r) auto

fun bind_outcome :: "'a outcome \<Rightarrow> ('a \<Rightarrow> 'b outcome) \<Rightarrow> 'b outcome" where
  "bind_outcome (Ok x) f = f x"
| "bind_outcome (Err e) f = Err e"
| "bind_outcome Panic f = Panic"

lemma bind_outcome_Ok_iff:
  "bind_outcome r f = Ok y \<longleftrightarrow> (\<exists>x. r = Ok x \<and> f x = Ok y)"
  by (cases r) auto

section \<open>Invariants of a step relation\<close>

text \<open>
  A concurrent component is a step relation over its state. A predicate that every step
  keeps holds in every state a run reaches.
\<close>

locale step_invariant =
  fixes step :: "'s \<Rightarrow> 's \<Rightarrow> bool"
    and inv :: "'s \<Rightarrow> bool"
  assumes inv_step: "inv s \<Longrightarrow> step s t \<Longrightarrow> inv t"
begin

lemma inv_steps:
  assumes "step\<^sup>*\<^sup>* s t" and "inv s"
  shows "inv t"
  using assms by (induction rule: rtranclp_induct) (auto intro: inv_step)

end

text \<open>
  A simulation: every concrete step from a state that satisfies the invariant is a run
  of the abstract relation between the abstractions of the two states.
\<close>

locale simulation = step_invariant cstep cinv
  for cstep :: "'c \<Rightarrow> 'c \<Rightarrow> bool" and cinv :: "'c \<Rightarrow> bool" +
  fixes astep :: "'a \<Rightarrow> 'a \<Rightarrow> bool"
    and abs :: "'c \<Rightarrow> 'a"
  assumes abs_step: "cinv s \<Longrightarrow> cstep s t \<Longrightarrow> astep\<^sup>*\<^sup>* (abs s) (abs t)"
begin

lemma abs_steps:
  assumes "cstep\<^sup>*\<^sup>* s t" and "cinv s"
  shows "astep\<^sup>*\<^sup>* (abs s) (abs t)"
  using assms
proof (induction rule: rtranclp_induct)
  case base
  then show ?case by simp
next
  case (step t u)
  have "cinv t" using step.hyps(1) step.prems by (rule inv_steps)
  then have "astep\<^sup>*\<^sup>* (abs t) (abs u)" using step.hyps(2) by (rule abs_step)
  with step.IH [OF step.prems] show ?case by simp
qed

end

section \<open>Lists and options\<close>

lemma takeWhile_not_hd [simp]: "takeWhile (\<lambda>x. x \<noteq> c) (c # xs) = []"
  by simp

lemma distinct_map_upt_int:
  "distinct (map (\<lambda>i. b + int i) [0..<n])"
  by (simp add: distinct_map inj_on_def)

end
