(* ===== verification/Go_Strings.thy ===== *)
theory Go_Strings
  imports Prelude
begin

text \<open>
  The parts of Go's packages \<open>strings\<close> and \<open>strconv\<close> and of \<open>fmt\<close>'s \<open>%d\<close> the
  program calls. A Go string is a sequence of bytes, here a list of characters.
\<close>

section \<open>Package strings\<close>

definition hasPrefix :: "string \<Rightarrow> string \<Rightarrow> bool" where
  "hasPrefix s p \<longleftrightarrow> take (length p) s = p"

definition hasSuffix :: "string \<Rightarrow> string \<Rightarrow> bool" where
  "hasSuffix s p \<longleftrightarrow> length p \<le> length s \<and> drop (length s - length p) s = p"

fun containsStr :: "string \<Rightarrow> string \<Rightarrow> bool" where
  "containsStr [] p \<longleftrightarrow> p = []"
| "containsStr (x # xs) p \<longleftrightarrow> hasPrefix (x # xs) p \<or> containsStr xs p"

text \<open>\<open>strings.Split(s, sep)\<close> for a separator of one byte: always at least one part.\<close>

fun splitc :: "char \<Rightarrow> string \<Rightarrow> string list" where
  "splitc c [] = [[]]"
| "splitc c (x # xs) =
     (if x = c then [] # splitc c xs
      else case splitc c xs of [] \<Rightarrow> [[x]] | p # ps \<Rightarrow> (x # p) # ps)"

text \<open>\<open>strings.Join(parts, sep)\<close>.\<close>

fun joins :: "string \<Rightarrow> string list \<Rightarrow> string" where
  "joins sep [] = []"
| "joins sep [x] = x"
| "joins sep (x # xs) = x @ sep @ joins sep xs"

text \<open>
  \<open>strings.Cut(s, c)\<close>: what stands before the first \<open>c\<close>, and what stands after it if
  there is one. \<open>strings.SplitN(s, c, 2)\<close> has a second part exactly when there is.
\<close>

fun cutc :: "char \<Rightarrow> string \<Rightarrow> string \<times> string option" where
  "cutc c [] = ([], None)"
| "cutc c (x # xs) =
     (if x = c then ([], Some xs) else case cutc c xs of (p, r) \<Rightarrow> (x # p, r))"

text \<open>\<open>strings.ReplaceAll\<close> for one byte by one byte.\<close>

definition replacec :: "char \<Rightarrow> char \<Rightarrow> string \<Rightarrow> string" where
  "replacec a b s = map (\<lambda>x. if x = a then b else x) s"

text \<open>
  \<open>fmt\<close>'s \<open>%q\<close>: the text in double quotes, with escapes for quotes, backslashes and control
  characters. Bytes beyond ASCII are copied, which is right for printable UTF-8 text.
\<close>

definition quote_char :: "char \<Rightarrow> string" where
  "quote_char c =
     (let n = of_char c :: nat; bs = CHR 0x5C; hex = ''0123456789abcdef'' in
      if n = 34 \<or> n = 92 then [bs, c]
      else if 7 \<le> n \<and> n \<le> 13 then [bs, ''abtnvfr'' ! (n - 7)]
      else if n < 32 \<or> n = 127 then [bs, CHR ''x'', hex ! (n div 16), hex ! (n mod 16)]
      else [c])"

definition quote :: "string \<Rightarrow> string" where
  "quote s = CHR 0x22 # concat (map quote_char s) @ [CHR 0x22]"

text \<open>
  \<open>strings.ToLower\<close>, as far as the ASCII letters of the result go: the callers compare
  the result with ASCII literals only. Two characters outside ASCII have an ASCII lower
  case, U+0130 (bytes C4 B0) and the Kelvin sign U+212A (bytes E2 84 AA).
\<close>

definition lower_char :: "char \<Rightarrow> char" where
  "lower_char c =
     (let n = of_char c :: nat in if 65 \<le> n \<and> n \<le> 90 then char_of (n + 32) else c)"

fun toLower :: "string \<Rightarrow> string" where
  "toLower [] = []"
| "toLower (x # xs) =
     (if x = CHR 0xC4 \<and> take 1 xs = [CHR 0xB0] then CHR ''i'' # toLower (drop 1 xs)
      else if x = CHR 0xE2 \<and> take 2 xs = [CHR 0x84, CHR 0xAA] then CHR ''k'' # toLower (drop 2 xs)
      else lower_char x # toLower xs)"

section \<open>Facts about prefixes, splitting and joining\<close>

lemma hasPrefix_iff [go_str]: "hasPrefix s p \<longleftrightarrow> (\<exists>r. s = p @ r)"
  by (metis append_take_drop_id append_eq_conv_conj hasPrefix_def)

lemma hasSuffix_iff [go_str]: "hasSuffix s p \<longleftrightarrow> (\<exists>r. s = r @ p)"
proof
  assume "hasSuffix s p"
  then show "\<exists>r. s = r @ p"
    unfolding hasSuffix_def by (metis append_take_drop_id)
next
  assume "\<exists>r. s = r @ p"
  then show "hasSuffix s p" by (auto simp: hasSuffix_def)
qed

lemma splitc_nonempty [simp]: "splitc c s \<noteq> []"
  by (cases s) (auto split: list.split)

text \<open>The second equation with selectors, for proofs.\<close>

lemma splitc_Cons:
  "splitc c (x # xs) =
     (if x = c then [] # splitc c xs else (x # hd (splitc c xs)) # tl (splitc c xs))"
  by (cases "splitc c xs") auto

lemma splitc_no_sep: "p \<in> set (splitc c s) \<Longrightarrow> c \<notin> set p"
proof (induction s arbitrary: p)
  case Nil
  then show ?case by simp
next
  case (Cons x xs)
  show ?case
  proof (cases "x = c")
    case True
    with Cons show ?thesis by auto
  next
    case False
    from Cons.prems False consider "p = x # hd (splitc c xs)" | "p \<in> set (tl (splitc c xs))"
      by (auto simp: splitc_Cons simp del: splitc.simps)
    then show ?thesis
    proof cases
      case 1
      with Cons.IH [of "hd (splitc c xs)"] False show ?thesis by simp
    next
      case 2
      then have "p \<in> set (splitc c xs)" by (simp add: list.set_sel)
      then show ?thesis by (rule Cons.IH)
    qed
  qed
qed

lemma splitc_append [simp]:
  "c \<notin> set p \<Longrightarrow> splitc c (p @ s) = (p @ hd (splitc c s)) # tl (splitc c s)"
  by (induction p) (auto simp: splitc_Cons simp del: splitc.simps)

lemma splitc_free [simp]: "c \<notin> set p \<Longrightarrow> splitc c p = [p]"
  using splitc_append [of c p "[]"] by simp

lemma joins_Cons: "xs \<noteq> [] \<Longrightarrow> joins sep (x # xs) = x @ sep @ joins sep xs"
  by (cases xs) auto

lemma joins_head [simp]: "joins sep ((x # y) # ys) = x # joins sep (y # ys)"
  by (cases ys) auto

lemma joins_splitc [simp]: "joins [c] (splitc c s) = s"
proof (induction s)
  case Nil
  then show ?case by simp
next
  case (Cons x xs)
  have "joins [c] (hd (splitc c xs) # tl (splitc c xs)) = xs"
    using Cons.IH by simp
  with Cons show ?case by (auto simp: joins_Cons splitc_Cons simp del: splitc.simps)
qed

lemma splitc_joins:
  "ps \<noteq> [] \<Longrightarrow> \<forall>p\<in>set ps. c \<notin> set p \<Longrightarrow> splitc c (joins [c] ps) = ps"
proof (induction ps)
  case Nil
  then show ?case by simp
next
  case (Cons p ps)
  show ?case
  proof (cases "ps = []")
    case True
    with Cons.prems show ?thesis by simp
  next
    case False
    with Cons have "splitc c (joins [c] ps) = ps" by simp
    with Cons.prems False show ?thesis by (simp add: joins_Cons)
  qed
qed

lemma cutc_fst: "fst (cutc c s) = takeWhile (\<lambda>x. x \<noteq> c) s"
  by (induction s) (auto split: prod.split)

lemma cutc_None_iff: "snd (cutc c s) = None \<longleftrightarrow> c \<notin> set s"
  by (induction s) (auto split: prod.split)

lemma cutc_append: "c \<notin> set p \<Longrightarrow> cutc c (p @ c # s) = (p, Some s)"
  by (induction p) auto

lemma cutc_free: "c \<notin> set s \<Longrightarrow> cutc c s = (s, None)"
  by (induction s) auto

section \<open>Decimal numbers\<close>

text \<open>\<open>fmt.Sprint\<close> and \<open>%d\<close> of an integer.\<close>

definition digit_char :: "nat \<Rightarrow> char" where
  "digit_char d = char_of (48 + d)"

fun show_nat :: "nat \<Rightarrow> string" where
  "show_nat n = (if n < 10 then [digit_char n] else show_nat (n div 10) @ [digit_char (n mod 10)])"

declare show_nat.simps [simp del]

definition show_int :: "int \<Rightarrow> string" where
  "show_int n = (if n < 0 then CHR ''-'' # show_nat (nat (- n)) else show_nat (nat n))"

text \<open>
  \<open>strconv.Atoi\<close>: an optional sign and at least one decimal digit, and the value fits
  64 bits. Both kinds of error (syntax, range) are the same to the callers.
\<close>

definition is_digit :: "char \<Rightarrow> bool" where
  "is_digit c \<longleftrightarrow> 48 \<le> (of_char c :: nat) \<and> (of_char c :: nat) \<le> 57"

definition digit_val :: "char \<Rightarrow> nat" where
  "digit_val c = of_char c - 48"

definition read_digits :: "string \<Rightarrow> int option" where
  "read_digits s =
     (if s \<noteq> [] \<and> list_all is_digit s then Some (foldl (\<lambda>n c. n * 10 + int (digit_val c)) 0 s)
      else None)"

definition atoi :: "string \<Rightarrow> int option" where
  "atoi s =
     (case s of [] \<Rightarrow> None
      | x # xs \<Rightarrow>
         (let ds = (if x = CHR ''-'' \<or> x = CHR ''+'' then xs else s) in
          case read_digits ds of None \<Rightarrow> None
          | Some n \<Rightarrow>
             (let v = (if x = CHR ''-'' then - n else n) in
              if in_int64 v then Some v else None)))"

lemma of_char_digit_char: "d < 10 \<Longrightarrow> (of_char (digit_char d) :: nat) = 48 + d"
  by (simp add: digit_char_def)

lemma digit_char_eval:
  "digit_char 0 = CHR ''0''" "digit_char (Suc 0) = CHR ''1''" "digit_char 2 = CHR ''2''"
  "digit_char 3 = CHR ''3''" "digit_char 4 = CHR ''4''" "digit_char 5 = CHR ''5''"
  "digit_char 6 = CHR ''6''" "digit_char 7 = CHR ''7''" "digit_char 8 = CHR ''8''"
  "digit_char 9 = CHR ''9''"
  by code_simp+

lemmas show_eval = show_int_def show_nat.simps digit_char_eval

lemma is_digit_digit_char [simp]: "d < 10 \<Longrightarrow> is_digit (digit_char d)"
  by (simp add: is_digit_def of_char_digit_char)

lemma digit_val_digit_char [simp]: "d < 10 \<Longrightarrow> digit_val (digit_char d) = d"
  by (simp add: digit_val_def of_char_digit_char)

lemma show_nat_digits: "list_all is_digit (show_nat n)"
  by (induction n rule: show_nat.induct) (subst show_nat.simps, auto)

lemma show_nat_nonempty [simp]: "show_nat n \<noteq> []"
  by (subst show_nat.simps) simp

lemma show_nat_val: "foldl (\<lambda>n c. n * 10 + int (digit_val c)) 0 (show_nat n) = int n"
proof (induction n rule: show_nat.induct)
  case (1 n)
  show ?case
  proof (cases "n < 10")
    case True
    then show ?thesis by (subst show_nat.simps) simp
  next
    case False
    have "int (n div 10) * 10 + int (n mod 10) = int n" by presburger
    with False 1 show ?thesis by (subst show_nat.simps) simp
  qed
qed

lemma read_digits_show_nat [simp]: "read_digits (show_nat n) = Some (int n)"
  by (simp add: read_digits_def show_nat_digits show_nat_val)

lemma show_nat_hd: "is_digit (hd (show_nat n))"
  using show_nat_digits [of n] by (cases "show_nat n") auto

lemma atoi_show_int: "in_int64 n \<Longrightarrow> atoi (show_int n) = Some n"
proof (cases "n < 0")
  case True
  assume "in_int64 n"
  with True show ?thesis by (simp add: atoi_def show_int_def)
next
  case False
  assume n: "in_int64 n"
  obtain x xs where s: "show_nat (nat n) = x # xs"
    by (cases "show_nat (nat n)") auto
  then have x: "is_digit x" using show_nat_hd [of "nat n"] by simp
  then have "x \<noteq> CHR ''-'' \<and> x \<noteq> CHR ''+''" by (auto simp: is_digit_def)
  moreover have "read_digits (x # xs) = Some (int (nat n))" using s by (metis read_digits_show_nat)
  ultimately show ?thesis using n False s by (simp add: atoi_def show_int_def)
qed

lemma show_int_inj: "in_int64 m \<Longrightarrow> in_int64 n \<Longrightarrow> show_int m = show_int n \<Longrightarrow> m = n"
  by (metis atoi_show_int option.inject)

end
