(* ===== verification/Conn_Name.thy ===== *)
theory Conn_Name
  imports Go_Strings
begin

text \<open>
  Instance connection names (internal/proxy/proxy.go, lines 39-75): the regular expression
  \<^verbatim>\<open>([^:]+(:[^:]+)?):([^:]+):([^:]+)\<close> as a backtracking matcher with Go's leftmost-first,
  greedy semantics, \<open>parseConnName\<close> and \<open>connName.String\<close>; and the reference reading of the
  same function over the list of colon-separated parts.
\<close>

abbreviation colon :: char where
  "colon \<equiv> CHR '':''"

record connName =
  cn_project :: string
  cn_region :: string
  cn_name :: string

definition connName_String :: "connName \<Rightarrow> string" where
  "connName_String c = cn_project c @ '':'' @ cn_region c @ '':'' @ cn_name c"

section \<open>The regular expression\<close>

text \<open>
  A matcher returns the ways to match a prefix of the text, the preferred one first, each
  with what is left: \<^verbatim>\<open>[^:]+\<close> prefers the longest run (\<open>seg\<close>), \<^verbatim>\<open>(:[^:]+)?\<close> prefers to match.
\<close>

definition seg :: "string \<Rightarrow> (string \<times> string) list" where
  "seg s =
     (let n = length (takeWhile (\<lambda>c. c \<noteq> colon) s)
      in map (\<lambda>k. (take (n - k) s, drop (n - k) s)) [0..<n])"

fun colon_seg :: "string \<Rightarrow> (string \<times> string) list" where
  "colon_seg (c # s) = (if c = colon then seg s else [])"
| "colon_seg [] = []"

definition group1 :: "string \<Rightarrow> (string \<times> string) list" where
  "group1 s =
     concat (map (\<lambda>(a, r). map (\<lambda>(b, r'). (a @ colon # b, r')) (colon_seg r) @ [(a, r)]) (seg s))"

definition match_at :: "string \<Rightarrow> connName list" where
  "match_at s =
     concat (map (\<lambda>(p, r1).
       concat (map (\<lambda>(g, r2).
         map (\<lambda>(n, _). \<lparr>cn_project = p, cn_region = g, cn_name = n\<rparr>) (colon_seg r2)) (colon_seg r1)))
       (group1 s))"

text \<open>\<open>FindSubmatch\<close>: the first match at the leftmost position that has one.\<close>

fun findSubmatch :: "string \<Rightarrow> connName option" where
  "findSubmatch [] = None"
| "findSubmatch (c # s) =
     (case match_at (c # s) of m # _ \<Rightarrow> Some m | [] \<Rightarrow> findSubmatch s)"

definition parseConnName :: "string \<Rightarrow> connName outcome" where
  "parseConnName cn =
     (case findSubmatch cn of
        None \<Rightarrow> Err (ErrorString
          (''invalid instance connection name, want = PROJECT:REGION:INSTANCE, got = '' @ cn))
      | Some c \<Rightarrow> Ok c)"

section \<open>The matcher over colon-separated parts\<close>

text \<open>
  The reference reading: the first three consecutive non-empty parts, and where a
  fourth non-empty part follows, the first two together are the project.
\<close>

fun parts_conn :: "string list \<Rightarrow> connName option" where
  "parts_conn (a # b # c # d # ps) =
     (if a \<noteq> [] \<and> b \<noteq> [] \<and> c \<noteq> [] then
        (if d \<noteq> [] then Some \<lparr>cn_project = a @ colon # b, cn_region = c, cn_name = d\<rparr>
         else Some \<lparr>cn_project = a, cn_region = b, cn_name = c\<rparr>)
      else parts_conn (b # c # d # ps))"
| "parts_conn [a, b, c] =
     (if a \<noteq> [] \<and> b \<noteq> [] \<and> c \<noteq> [] then Some \<lparr>cn_project = a, cn_region = b, cn_name = c\<rparr> else None)"
| "parts_conn _ = None"

text \<open>The text that continues a part: each further part after its colon.\<close>

definition tstr :: "string list \<Rightarrow> string" where
  "tstr ps = concat (map ((#) colon) ps)"

lemma tstr_simps [simp]: "tstr [] = []" "tstr (p # ps) = colon # p @ tstr ps"
  by (simp_all add: tstr_def)

lemma tstr_start: "tstr ps = [] \<or> hd (tstr ps) = colon"
  by (cases ps) auto

lemma joins_tstr: "joins [colon] (p # ps) = p @ tstr ps"
  by (induction ps arbitrary: p) auto

lemma seg_append:
  assumes "colon \<notin> set a" and "r = [] \<or> hd r = colon"
  shows "seg (a @ r) = map (\<lambda>k. (take (length a - k) a, drop (length a - k) a @ r)) [0..<length a]"
proof -
  have "takeWhile (\<lambda>c. c \<noteq> colon) (a @ r) = a"
    using assms by (induction a) (cases r; auto)+
  then show ?thesis by (simp add: seg_def Let_def)
qed

lemma seg_tstr [simp]: "seg (tstr ps) = []"
  by (cases ps) (simp_all add: seg_def)

text \<open>
  A run that stops short of its colon contributes nothing to a matcher that expects the
  colon next: only the full run matters.
\<close>

lemma concat_seg:
  assumes "colon \<notin> set a" and "\<And>y x r. x \<noteq> colon \<Longrightarrow> f (y, x # r) = []"
  shows "concat (map f (seg (a @ tstr ps))) = (if a = [] then [] else f (a, tstr ps))"
proof (cases "a = []")
  case True
  then show ?thesis by simp
next
  case False
  let ?g = "\<lambda>k. (take (length a - k) a, drop (length a - k) a @ tstr ps)"
  have short: "f (?g k) = []" if "0 < k" "k < length a" for k
  proof -
    from that have "drop (length a - k) a \<noteq> []" by simp
    then obtain x xs where d: "drop (length a - k) a = x # xs"
      by (cases "drop (length a - k) a") auto
    then have "x \<in> set a" by (metis in_set_dropD list.set_intros(1))
    with assms(1) have "x \<noteq> colon" by auto
    with assms(2) d show ?thesis by simp
  qed
  have "[0..<length a] = 0 # [1..<length a]" using False by (simp add: upt_rec)
  then have "concat (map f (seg (a @ tstr ps))) = f (a, tstr ps) @ concat (map (\<lambda>k. f (?g k)) [1..<length a])"
    by (simp add: seg_append [OF assms(1) tstr_start] comp_def)
  also have "concat (map (\<lambda>k. f (?g k)) [1..<length a]) = []"
    using short by (auto simp: concat_eq_Nil_conv)
  finally show ?thesis using False by simp
qed

lemma concat_colon_seg:
  assumes "\<forall>p\<in>set ps. colon \<notin> set p" and "\<And>y x r. x \<noteq> colon \<Longrightarrow> f (y, x # r) = []"
  shows "concat (map f (colon_seg (tstr ps))) =
    (case ps of [] \<Rightarrow> [] | b # qs \<Rightarrow> if b = [] then [] else f (b, tstr qs))"
  using assms concat_seg [where f = f] by (cases ps) auto

text \<open>The first result of a matcher.\<close>

fun hd_opt :: "'a list \<Rightarrow> 'a option" where
  "hd_opt [] = None"
| "hd_opt (x # _) = Some x"

lemma hd_opt_append: "hd_opt (xs @ ys) = (case hd_opt xs of None \<Rightarrow> hd_opt ys | Some x \<Rightarrow> Some x)"
  by (cases xs) auto

lemma hd_opt_seg:
  assumes "colon \<notin> set a"
  shows "hd_opt (map f (seg (a @ tstr ps))) = (if a = [] then None else Some (f (a, tstr ps)))"
proof (cases "a = []")
  case True
  then show ?thesis by simp
next
  case False
  then have "[0..<length a] = 0 # [1..<length a]" by (simp add: upt_rec)
  with False show ?thesis by (simp add: seg_append [OF assms tstr_start])
qed

text \<open>What follows a candidate for the first group: \<open>:region:name\<close>.\<close>

definition after_project :: "string \<times> string \<Rightarrow> connName list" where
  "after_project pr =
     concat (map (\<lambda>(g, r2).
       map (\<lambda>(n, _). \<lparr>cn_project = fst pr, cn_region = g, cn_name = n\<rparr>) (colon_seg r2))
       (colon_seg (snd pr)))"

lemma after_project_short [simp]: "x \<noteq> colon \<Longrightarrow> after_project (p, x # r) = []"
  by (simp add: after_project_def)

lemma hd_opt_after_project:
  assumes "\<forall>p\<in>set ps. colon \<notin> set p"
  shows "hd_opt (after_project (p, tstr ps)) =
    (case ps of g # n # _ \<Rightarrow>
       if g \<noteq> [] \<and> n \<noteq> [] then Some \<lparr>cn_project = p, cn_region = g, cn_name = n\<rparr> else None
     | _ \<Rightarrow> None)"
proof -
  have "after_project (p, tstr ps) =
    (case ps of [] \<Rightarrow> [] | g # qs \<Rightarrow> if g = [] then []
      else map (\<lambda>(n, _). \<lparr>cn_project = p, cn_region = g, cn_name = n\<rparr>) (colon_seg (tstr qs)))"
    unfolding after_project_def fst_conv snd_conv
    by (subst concat_colon_seg [OF assms]) (auto split: list.split)
  moreover have "hd_opt (map f (colon_seg (tstr qs))) =
      (case qs of [] \<Rightarrow> None | n # ms \<Rightarrow> if n = [] then None else Some (f (n, tstr ms)))"
    if "\<forall>p\<in>set qs. colon \<notin> set p" for f :: "string \<times> string \<Rightarrow> connName" and qs
    using that by (cases qs) (auto simp: hd_opt_seg)
  ultimately show ?thesis using assms by (auto split: list.split)
qed

lemma match_at_after_project: "match_at s = concat (map after_project (group1 s))"
  by (simp add: match_at_def after_project_def [abs_def] case_prod_beta')

lemma concat_map_concat: "concat (map f (concat (map g xs))) = concat (map (\<lambda>x. concat (map f (g x))) xs)"
  by (induction xs) auto

lemma match_at_parts:
  assumes "colon \<notin> set a" and "\<forall>p\<in>set ps. colon \<notin> set p"
  shows "match_at (a @ tstr ps) =
    (if a = [] then []
     else (case ps of b # qs \<Rightarrow> (if b = [] then [] else after_project (a @ colon # b, tstr qs)) | [] \<Rightarrow> [])
        @ after_project (a, tstr ps))"
proof -
  let ?F = "\<lambda>(a, r). concat (map after_project (map (\<lambda>(b, r'). (a @ colon # b, r')) (colon_seg r) @ [(a, r)]))"
  have "match_at s = concat (map ?F (seg s))" for s
    by (simp add: match_at_after_project group1_def concat_map_concat case_prod_beta')
  moreover have "?F (y, x # r) = []" if "x \<noteq> colon" for y x r
    using that by simp
  ultimately have "match_at (a @ tstr ps) = (if a = [] then [] else ?F (a, tstr ps))"
    using concat_seg [OF assms(1), of ?F ps] by simp
  moreover have "concat (map (after_project \<circ> (\<lambda>(b, r'). (a @ colon # b, r'))) (colon_seg (tstr ps))) =
    (case ps of b # qs \<Rightarrow> (if b = [] then [] else after_project (a @ colon # b, tstr qs)) | [] \<Rightarrow> [])"
    by (subst concat_colon_seg [OF assms(2)]) (auto split: list.split)
  ultimately show ?thesis by simp
qed

lemma hd_opt_match_at:
  assumes "colon \<notin> set a" and "\<forall>p\<in>set ps. colon \<notin> set p" and "a \<noteq> []"
  shows "hd_opt (match_at (a @ tstr ps)) =
    (case ps of
       b # c # d # _ \<Rightarrow>
        (if b \<noteq> [] \<and> c \<noteq> [] then
          (if d \<noteq> [] then Some \<lparr>cn_project = a @ colon # b, cn_region = c, cn_name = d\<rparr>
           else Some \<lparr>cn_project = a, cn_region = b, cn_name = c\<rparr>)
         else None)
     | [b, c] \<Rightarrow> (if b \<noteq> [] \<and> c \<noteq> [] then Some \<lparr>cn_project = a, cn_region = b, cn_name = c\<rparr> else None)
     | _ \<Rightarrow> None)"
  using assms
  by (auto simp: match_at_parts hd_opt_append hd_opt_after_project simp del: tstr_simps
      split: list.split)

lemma findSubmatch_Cons:
  "findSubmatch (c # s) = (case hd_opt (match_at (c # s)) of Some m \<Rightarrow> Some m | None \<Rightarrow> findSubmatch s)"
  by (cases "match_at (c # s)") auto

lemma parts_conn_empty: "parts_conn ([] # ps) = parts_conn ps"
  by (cases ps rule: parts_conn.cases) auto

lemma findSubmatch_parts:
  assumes "colon \<notin> set a" and "\<forall>p\<in>set ps. colon \<notin> set p"
  shows "findSubmatch (a @ tstr ps) = parts_conn (a # ps)"
  using assms
proof (induction ps arbitrary: a)
  case Nil
  from Nil.prems(1) show ?case
  proof (induction a)
    case Nil
    then show ?case by simp
  next
    case (Cons x xs)
    then show ?case
      using hd_opt_match_at [of "x # xs" "[]"] by (simp add: findSubmatch_Cons del: findSubmatch.simps(2))
  qed
next
  case (Cons p ps)
  from Cons.prems(1) show ?case
  proof (induction a)
    case Nil
    have "match_at (colon # p @ tstr ps) = []"
      using match_at_parts [of "[]" "p # ps"] Cons.prems by simp
    then show ?case using Cons by (simp add: parts_conn_empty)
  next
    case (Cons x xs)
    let ?s = "xs @ tstr (p # ps)"
    have IH: "findSubmatch ?s = parts_conn (xs # p # ps)" using Cons by simp
    have "findSubmatch (x # ?s) =
        (case hd_opt (match_at ((x # xs) @ tstr (p # ps))) of Some m \<Rightarrow> Some m | None \<Rightarrow> findSubmatch ?s)"
      unfolding append_Cons [symmetric] by (simp only: append_Cons findSubmatch_Cons)
    then show ?case
      using hd_opt_match_at [of "x # xs" "p # ps"] Cons.prems \<open>\<forall>p\<in>set (p # ps). colon \<notin> set p\<close> IH
      by (auto split: list.split_asm list.split if_splits simp del: tstr_simps)
  qed
qed

lemma findSubmatch_splitc: "findSubmatch s = parts_conn (splitc colon s)"
proof -
  obtain a ps where p: "splitc colon s = a # ps" by (cases "splitc colon s") auto
  then have "\<forall>q\<in>set (a # ps). colon \<notin> set q" using splitc_no_sep [of _ colon s] by auto
  moreover have "s = a @ tstr ps" using p joins_splitc [of colon s] by (simp add: joins_tstr)
  ultimately show ?thesis using findSubmatch_parts [of a ps] p by simp
qed

definition has_triple :: "string list \<Rightarrow> bool" where
  "has_triple ps \<longleftrightarrow> (\<exists>xs a b c ys. ps = xs @ a # b # c # ys \<and> a \<noteq> [] \<and> b \<noteq> [] \<and> c \<noteq> [])"

lemma has_triple_Cons:
  "has_triple (a # ps) \<longleftrightarrow>
   (case ps of b # c # _ \<Rightarrow> a \<noteq> [] \<and> b \<noteq> [] \<and> c \<noteq> [] | _ \<Rightarrow> False) \<or> has_triple ps"
proof
  assume "has_triple (a # ps)"
  then obtain xs a' b c ys where e: "a # ps = xs @ a' # b # c # ys" "a' \<noteq> []" "b \<noteq> []" "c \<noteq> []"
    unfolding has_triple_def by blast
  then show "(case ps of b # c # _ \<Rightarrow> a \<noteq> [] \<and> b \<noteq> [] \<and> c \<noteq> [] | _ \<Rightarrow> False) \<or> has_triple ps"
  proof (cases xs)
    case Nil
    with e show ?thesis by simp
  next
    case (Cons x zs)
    with e have "ps = zs @ a' # b # c # ys" by simp
    with e have "has_triple ps" unfolding has_triple_def by blast
    then show ?thesis ..
  qed
next
  assume "(case ps of b # c # _ \<Rightarrow> a \<noteq> [] \<and> b \<noteq> [] \<and> c \<noteq> [] | _ \<Rightarrow> False) \<or> has_triple ps"
  then show "has_triple (a # ps)"
  proof
    assume "case ps of b # c # _ \<Rightarrow> a \<noteq> [] \<and> b \<noteq> [] \<and> c \<noteq> [] | _ \<Rightarrow> False"
    then obtain b c ys where "ps = b # c # ys" "a \<noteq> []" "b \<noteq> []" "c \<noteq> []"
      by (auto split: list.splits)
    then have "a # ps = [] @ a # b # c # ys \<and> a \<noteq> [] \<and> b \<noteq> [] \<and> c \<noteq> []" by simp
    then show ?thesis unfolding has_triple_def by blast
  next
    assume "has_triple ps"
    then show ?thesis unfolding has_triple_def by (metis append_Cons)
  qed
qed

lemma has_triple_Nil [simp]: "\<not> has_triple []"
  by (simp add: has_triple_def)

lemma parts_conn_Some_iff: "(\<exists>c. parts_conn ps = Some c) \<longleftrightarrow> has_triple ps"
  by (induction ps rule: parts_conn.induct) (auto simp: has_triple_Cons)

text \<open>Connection names as the proxy writes them: a project of one or two parts.\<close>

definition part :: "string \<Rightarrow> bool" where
  "part p \<longleftrightarrow> p \<noteq> [] \<and> colon \<notin> set p"

fun valid_connName :: "connName \<Rightarrow> bool" where
  "valid_connName c \<longleftrightarrow>
     (let ps = splitc colon (cn_project c) in length ps \<le> 2 \<and> list_all part ps)
     \<and> part (cn_region c) \<and> part (cn_name c)"

lemma valid_connName_parts:
  assumes "valid_connName c"
  shows "parts_conn (splitc colon (connName_String c)) = Some c"
proof -
  let ?p = "cn_project c" and ?r = "cn_region c" and ?n = "cn_name c"
  have rn: "part ?r" "part ?n" using assms by auto
  have len: "length (splitc colon ?p) \<le> 2" and ps: "list_all part (splitc colon ?p)"
    using assms by (auto simp: Let_def)
  consider a where "splitc colon ?p = [a]" | a b where "splitc colon ?p = [a, b]"
    using len by (cases "splitc colon ?p") (auto simp: le_Suc_eq length_Suc_conv numeral_2_eq_2)
  then show ?thesis
  proof cases
    case 1
    then have "?p = a" using joins_splitc [of colon ?p] by simp
    moreover have "part a" using 1 ps by simp
    ultimately show ?thesis using rn by (simp add: connName_String_def part_def)
  next
    case 2
    then have "?p = a @ colon # b" using joins_splitc [of colon ?p] by simp
    moreover have "part a" "part b" using 2 ps by simp_all
    ultimately show ?thesis using rn by (simp add: connName_String_def part_def)
  qed
qed

section \<open>Properties\<close>

text \<open>
  C33. The regular expression search agrees with the reading over colon-separated parts:
  for every text, \<open>parseConnName\<close> returns the project, region and name of the first three
  (or four) consecutive non-empty parts, and the error otherwise.
\<close>

theorem parseConnName_parts:
  "parseConnName s =
     (case parts_conn (splitc colon s) of
        None \<Rightarrow> Err (ErrorString
          (''invalid instance connection name, want = PROJECT:REGION:INSTANCE, got = '' @ s))
      | Some c \<Rightarrow> Ok c)"
  by (simp add: parseConnName_def findSubmatch_splitc)

text \<open>
  A text is accepted exactly when it has three consecutive non-empty colon-separated
  parts; what stands before or after them is ignored.
\<close>

theorem parseConnName_accepts:
  "is_Ok (parseConnName s) \<longleftrightarrow>
   (\<exists>xs a b c ys. splitc colon s = xs @ a # b # c # ys \<and> a \<noteq> [] \<and> b \<noteq> [] \<and> c \<noteq> [])"
  using parts_conn_Some_iff [of "splitc colon s"] unfolding has_triple_def [symmetric]
  by (auto simp: parseConnName_def findSubmatch_splitc split: option.splits)

text \<open>
  Round trip: parsing what \<open>String\<close> prints gives the connection name back, for every
  name with non-empty colon-free region and name and a project of one part, or of two (a
  legacy domain-scoped project such as \<open>google.com:PROJECT\<close>).
\<close>

theorem parseConnName_String:
  assumes "valid_connName c"
  shows "parseConnName (connName_String c) = Ok c"
  using valid_connName_parts [OF assms] by (simp add: parseConnName_def findSubmatch_splitc)

theorem parseConnName_String_witness:
  "valid_connName \<lparr>cn_project = ''google.com:p'', cn_region = ''r'', cn_name = ''i''\<rparr> \<and>
   parseConnName ''google.com:p:r:i'' = Ok \<lparr>cn_project = ''google.com:p'', cn_region = ''r'', cn_name = ''i''\<rparr>"
proof -
  let ?c = "\<lparr>cn_project = ''google.com:p'', cn_region = ''r'', cn_name = ''i''\<rparr>"
  have v: "valid_connName ?c" by (simp add: part_def)
  show ?thesis using v parseConnName_String [OF v] by (simp add: connName_String_def)
qed

end
