(* ===== verification/Config.thy ===== *)
theory Config
  imports Go_Strings
begin

text \<open>
  Configuration and what is derived from it without touching the outside world
  (internal/proxy/proxy.go): \<open>InstanceConnConfig\<close> and \<open>Config\<close>, \<open>networkType\<close>, \<open>dialOptions\<close>,
  \<open>parseImpersonationChain\<close>, \<open>iamAuthNEnabled\<close>, \<open>credentialsOpt\<close> and \<open>DialerOptions\<close>. The
  options of the connector library are values that name the option function and its
  arguments. Informational log lines are left out.
\<close>

section \<open>Configuration records\<close>

record InstanceConnConfig =
  ic_Name :: string
  ic_Addr :: string
  ic_Port :: int
  ic_UnixSocket :: string
  ic_UnixSocketPath :: string
  ic_SQLDataEnabled :: "bool option"
  ic_IAMAuthN :: "bool option"
  ic_PrivateIP :: "bool option"
  ic_PSC :: "bool option"

record Config =
  cf_Filepath :: string
  cf_UserAgent :: string
  cf_Token :: string
  cf_LoginToken :: string
  cf_CredentialsFile :: string
  cf_CredentialsJSON :: string
  cf_GcloudAuth :: bool
  cf_Addr :: string
  cf_Port :: int
  cf_APIEndpointURL :: string
  cf_UniverseDomain :: string
  cf_UnixSocket :: string
  cf_FUSEDir :: string
  cf_FUSETempDir :: string
  cf_IAMAuthN :: bool
  cf_MaxConnections :: uint64
  cf_WaitBeforeClose :: int
  cf_WaitOnClose :: int
  cf_PrivateIP :: bool
  cf_PSC :: bool
  cf_AutoIP :: bool
  cf_LazyRefresh :: bool
  cf_ResourceExhaustedCooldownPeriod :: int
  cf_SQLDataEnabled :: bool
  cf_SQLDataEndpoint :: string
  cf_Instances :: "InstanceConnConfig list"
  cf_QuotaProject :: string
  cf_ImpersonationChain :: string
  cf_StructuredLogs :: bool
  cf_Quiet :: bool
  cf_TelemetryProject :: string
  cf_TelemetryPrefix :: string
  cf_TelemetryTracingSampleRate :: int
  cf_ExitZeroOnSigterm :: bool
  cf_DisableTraces :: bool
  cf_DisableMetrics :: bool
  cf_Prometheus :: bool
  cf_PrometheusNamespace :: string
  cf_HealthCheck :: bool
  cf_HTTPAddress :: string
  cf_HTTPPort :: string
  cf_AdminPort :: string
  cf_Debug :: bool
  cf_QuitQuitQuit :: bool
  cf_DebugLogs :: bool
  cf_OtherUserAgents :: string
  cf_RunConnectionTest :: bool
  cf_SkipFailedInstanceConfig :: bool

text \<open>Go's zero values.\<close>

definition zero_inst :: InstanceConnConfig where
  "zero_inst = \<lparr>ic_Name = [], ic_Addr = [], ic_Port = 0, ic_UnixSocket = [], ic_UnixSocketPath = [],
     ic_SQLDataEnabled = None, ic_IAMAuthN = None, ic_PrivateIP = None, ic_PSC = None\<rparr>"

definition zero_Config :: Config where
  "zero_Config = \<lparr>cf_Filepath = [], cf_UserAgent = [], cf_Token = [], cf_LoginToken = [],
     cf_CredentialsFile = [], cf_CredentialsJSON = [], cf_GcloudAuth = False, cf_Addr = [], cf_Port = 0,
     cf_APIEndpointURL = [], cf_UniverseDomain = [], cf_UnixSocket = [], cf_FUSEDir = [],
     cf_FUSETempDir = [], cf_IAMAuthN = False, cf_MaxConnections = 0, cf_WaitBeforeClose = 0,
     cf_WaitOnClose = 0, cf_PrivateIP = False, cf_PSC = False, cf_AutoIP = False, cf_LazyRefresh = False,
     cf_ResourceExhaustedCooldownPeriod = 0, cf_SQLDataEnabled = False, cf_SQLDataEndpoint = [],
     cf_Instances = [], cf_QuotaProject = [], cf_ImpersonationChain = [], cf_StructuredLogs = False,
     cf_Quiet = False, cf_TelemetryProject = [], cf_TelemetryPrefix = [],
     cf_TelemetryTracingSampleRate = 0, cf_ExitZeroOnSigterm = False, cf_DisableTraces = False,
     cf_DisableMetrics = False, cf_Prometheus = False, cf_PrometheusNamespace = [], cf_HealthCheck = False,
     cf_HTTPAddress = [], cf_HTTPPort = [], cf_AdminPort = [], cf_Debug = False, cf_QuitQuitQuit = False,
     cf_DebugLogs = False, cf_OtherUserAgents = [], cf_RunConnectionTest = False,
     cf_SkipFailedInstanceConfig = False\<rparr>"

section \<open>Network type and dial options\<close>

definition networkType :: "Config \<Rightarrow> InstanceConnConfig \<Rightarrow> string" where
  "networkType conf inst =
     (if (cf_UnixSocket conf = [] \<and> ic_UnixSocket inst = [] \<and> ic_UnixSocketPath inst = [])
         \<or> (ic_Addr inst \<noteq> [] \<or> ic_Port inst \<noteq> 0)
      then ''tcp'' else ''unix'')"

datatype DialOption =
    WithDialIAMAuthN bool
  | WithSQLData
  | WithPrivateIP
  | WithPSC
  | WithAutoIP
  | WithMdxClientProtocolType string

text \<open>
  An instance-level pointer set to true, or unset with the global flag set: the test the
  IP-type cases make. \<open>sqlDataOn\<close> is the test for SQL Data, where the global flag wins.
\<close>

abbreviation instOrGlobal :: "bool option \<Rightarrow> bool \<Rightarrow> bool" where
  "instOrGlobal i g \<equiv> i = Some True \<or> i = None \<and> g"

definition sqlDataOn :: "Config \<Rightarrow> InstanceConnConfig \<Rightarrow> bool" where
  "sqlDataOn c i \<longleftrightarrow> ic_SQLDataEnabled i = Some True \<or> cf_SQLDataEnabled c"

definition dialOptions :: "Config \<Rightarrow> InstanceConnConfig \<Rightarrow> DialOption list" where
  "dialOptions c i =
     (case ic_IAMAuthN i of Some b \<Rightarrow> [WithDialIAMAuthN b] | None \<Rightarrow> [])
     @ (if sqlDataOn c i then [WithSQLData] else [])
     @ (if instOrGlobal (ic_PrivateIP i) (cf_PrivateIP c) then [WithPrivateIP]
        else if instOrGlobal (ic_PSC i) (cf_PSC c) then [WithPSC]
        else if cf_AutoIP c then [WithAutoIP]
        else [])
     @ (if networkType c i = ''unix'' then [WithMdxClientProtocolType ''uds'']
        else [WithMdxClientProtocolType ''tcp''])"

section \<open>Credentials\<close>

text \<open>The loop takes \<open>accts[l-1]\<close> down to \<open>accts[1]\<close>.\<close>

definition parseImpersonationChain :: "string \<Rightarrow> string \<times> string list" where
  "parseImpersonationChain chain =
     (let accts = splitc (CHR '','') chain; l = length accts
      in (accts ! 0, if 1 < l then map (\<lambda>i. accts ! i) (rev [1..<l]) else []))"

definition iamLoginScope :: string where
  "iamLoginScope = ''https://www.googleapis.com/auth/sqlservice.login''"

definition iamAuthNEnabled :: "Config \<Rightarrow> bool" where
  "iamAuthNEnabled c \<longleftrightarrow>
     cf_IAMAuthN c \<or> list_ex (\<lambda>inst. ic_IAMAuthN inst = Some True) (cf_Instances c)"

text \<open>
  Token sources and the options of the Google API client and of the connector. \<open>'t\<close> is
  what \<open>gcloud.TokenSource\<close> and the impersonation library return.
\<close>

datatype 't token_source = StaticTokenSource string | ForeignTokenSource 't

datatype 't ClientOption =
    OptUniverseDomain string
  | OptTokenSource "'t token_source"
  | OptAuthCredentialsFile string
  | OptAuthCredentialsJSON string

record CredentialsConfig =
  TargetPrincipal :: string
  Delegates :: "string list"
  Scopes :: "string list"

datatype 't Option =
    WithDNSResolver
  | WithUserAgent string
  | WithIAMAuthNTokenSources "'t token_source" "'t token_source"
  | WithTokenSource "'t token_source"
  | WithCredentialsFile string
  | WithCredentialsJSON string
  | WithOptions
  | WithDebugLogger
  | WithAdminAPIEndpoint string
  | WithUniverseDomain string
  | WithIAMAuthN
  | WithQuotaProject string
  | WithLazyRefresh
  | WithResourceExhaustedCooldownPeriod int
  | WithSQLDataEndpoint string

text \<open>
  What the credential code obtains from outside: \<open>gcloud.TokenSource()\<close>,
  \<open>impersonate.CredentialsTokenSource\<close>, and the scope constant of the Admin API client.
\<close>

record 't cred_env =
  gcloud_TokenSource :: "'t outcome"
  impersonate_CredentialsTokenSource :: "CredentialsConfig \<Rightarrow> 't ClientOption list \<Rightarrow> 't outcome"
  SqlserviceAdminScope :: string

text \<open>The client options of the impersonated token source.\<close>

definition impersonateOpts :: "'t cred_env \<Rightarrow> Config \<Rightarrow> 't ClientOption list outcome" where
  "impersonateOpts e c =
     (let iopts = (if cf_UniverseDomain c \<noteq> [] then [OptUniverseDomain (cf_UniverseDomain c)] else []) in
      if cf_Token c \<noteq> [] then Ok (iopts @ [OptTokenSource (StaticTokenSource (cf_Token c))])
      else if cf_CredentialsFile c \<noteq> [] then Ok (iopts @ [OptAuthCredentialsFile (cf_CredentialsFile c)])
      else if cf_CredentialsJSON c \<noteq> [] then Ok (iopts @ [OptAuthCredentialsJSON (cf_CredentialsJSON c)])
      else if cf_GcloudAuth c then
        bind_outcome (gcloud_TokenSource e) (\<lambda>ts. Ok (iopts @ [OptTokenSource (ForeignTokenSource ts)]))
      else Ok iopts)"

definition credentialsOpt :: "'t cred_env \<Rightarrow> Config \<Rightarrow> 't Option outcome" where
  "credentialsOpt e c =
     (if cf_ImpersonationChain c \<noteq> [] then
        bind_outcome (impersonateOpts e c) (\<lambda>iopts.
          case parseImpersonationChain (cf_ImpersonationChain c) of (target, delegates) \<Rightarrow>
          bind_outcome
            (impersonate_CredentialsTokenSource e
              \<lparr>TargetPrincipal = target, Delegates = delegates, Scopes = [SqlserviceAdminScope e]\<rparr> iopts)
            (\<lambda>ts.
              if iamAuthNEnabled c then
                bind_outcome
                  (impersonate_CredentialsTokenSource e
                    \<lparr>TargetPrincipal = target, Delegates = delegates, Scopes = [iamLoginScope]\<rparr> iopts)
                  (\<lambda>iamLoginTS.
                    Ok (WithIAMAuthNTokenSources (ForeignTokenSource ts) (ForeignTokenSource iamLoginTS)))
              else Ok (WithTokenSource (ForeignTokenSource ts))))
      else if cf_Token c \<noteq> [] then
        (if cf_IAMAuthN c
         then Ok (WithIAMAuthNTokenSources (StaticTokenSource (cf_Token c)) (StaticTokenSource (cf_LoginToken c)))
         else Ok (WithTokenSource (StaticTokenSource (cf_Token c))))
      else if cf_CredentialsFile c \<noteq> [] then Ok (WithCredentialsFile (cf_CredentialsFile c))
      else if cf_CredentialsJSON c \<noteq> [] then Ok (WithCredentialsJSON (cf_CredentialsJSON c))
      else if cf_GcloudAuth c then
        bind_outcome (gcloud_TokenSource e) (\<lambda>ts. Ok (WithTokenSource (ForeignTokenSource ts)))
      else Ok WithOptions)"

definition DialerOptions :: "'t cred_env \<Rightarrow> Config \<Rightarrow> 't Option list outcome" where
  "DialerOptions e c =
     bind_outcome (credentialsOpt e c) (\<lambda>co. Ok (
       [WithDNSResolver, WithUserAgent (cf_UserAgent c)]
       @ [co]
       @ (if cf_DebugLogs c then [WithDebugLogger] else [])
       @ (if cf_APIEndpointURL c \<noteq> [] then [WithAdminAPIEndpoint (cf_APIEndpointURL c)] else [])
       @ (if cf_UniverseDomain c \<noteq> [] then [WithUniverseDomain (cf_UniverseDomain c)] else [])
       @ (if iamAuthNEnabled c then [WithIAMAuthN] else [])
       @ (if cf_QuotaProject c \<noteq> [] then [WithQuotaProject (cf_QuotaProject c)] else [])
       @ (if cf_LazyRefresh c then [WithLazyRefresh] else [])
       @ (if cf_ResourceExhaustedCooldownPeriod c \<noteq> 0
          then [WithResourceExhaustedCooldownPeriod (cf_ResourceExhaustedCooldownPeriod c)] else [])
       @ (if cf_SQLDataEndpoint c \<noteq> [] then [WithSQLDataEndpoint (cf_SQLDataEndpoint c)] else [])))"

text \<open>The options that choose how the instance is reached.\<close>

definition is_ip_option :: "DialOption \<Rightarrow> bool" where
  "is_ip_option d \<longleftrightarrow> d = WithPrivateIP \<or> d = WithPSC \<or> d = WithAutoIP"

section \<open>Properties\<close>

text \<open>
  SQL Data is the exception to instance-level precedence: once it is enabled globally,
  no instance setting, not even an explicit \<open>sql-data=false\<close>, turns it off.
\<close>

theorem dialOptions_sqlData_global:
  assumes "cf_SQLDataEnabled c"
  shows "WithSQLData \<in> set (dialOptions c (i\<lparr>ic_SQLDataEnabled := Some False\<rparr>))"
  using assms by (simp add: dialOptions_def sqlDataOn_def)

theorem dialOptions_sqlData_global_witness:
  "WithSQLData \<in> set (dialOptions (zero_Config\<lparr>cf_SQLDataEnabled := True\<rparr>)
                        (zero_inst\<lparr>ic_SQLDataEnabled := Some False\<rparr>))"
  by (rule dialOptions_sqlData_global) simp

lemma map_nth_rev_upt: "map (\<lambda>i. (x # xs) ! i) (rev [1..<Suc (length xs)]) = rev xs"
proof -
  have "map (\<lambda>i. (x # xs) ! i) [1..<Suc (length xs)] = xs"
    by (rule nth_equalityI) (simp_all del: upt_Suc)
  then show ?thesis by (simp only: rev_map [symmetric])
qed

lemma parseImpersonationChain_splitc:
  "parseImpersonationChain chain =
     (hd (splitc (CHR '','') chain), rev (tl (splitc (CHR '','') chain)))"
proof -
  obtain x xs where "splitc (CHR '','') chain = x # xs"
    by (cases "splitc (CHR '','') chain") auto
  then show ?thesis
    using map_nth_rev_upt [of x xs] by (cases xs) (auto simp: parseImpersonationChain_def Let_def)
qed

text \<open>
  The impersonation chain is read completely: for every chain, the target followed by
  the delegates in reverse, joined by commas, is the chain again; so the first account is
  the target and the last one is the first delegate.
\<close>

theorem parseImpersonationChain_roundtrip:
  "joins '','' (fst (parseImpersonationChain chain) # rev (snd (parseImpersonationChain chain))) = chain"
proof -
  have "hd (splitc (CHR '','') chain) # tl (splitc (CHR '','') chain) = splitc (CHR '','') chain"
    by simp
  then show ?thesis by (simp only: parseImpersonationChain_splitc fst_conv snd_conv rev_rev_ident joins_splitc)
qed

lemma iam_token_source_free:
  assumes "credentialsOpt e c = Ok co" and "iamAuthNEnabled c"
    and "cf_ImpersonationChain c \<noteq> [] \<or> (cf_IAMAuthN c \<and> \<not> cf_GcloudAuth c)"
  shows "co \<noteq> WithTokenSource ts"
  using assms
  by (auto simp: credentialsOpt_def bind_outcome_Ok_iff case_prod_unfold split: if_splits)

text \<open>
  The dialer options carry \<open>WithIAMAuthN\<close> exactly when IAM authentication is on globally or
  for some instance. With impersonation, or with the global flag and no gcloud login, they then
  never carry a plain token source beside it, which the connector could not use for logins.
\<close>

theorem DialerOptions_iam:
  assumes "DialerOptions e c = Ok opts"
  shows "(WithIAMAuthN \<in> set opts \<longleftrightarrow> iamAuthNEnabled c)
    \<and> (cf_ImpersonationChain c \<noteq> [] \<or> (cf_IAMAuthN c \<and> \<not> cf_GcloudAuth c) \<longrightarrow>
       WithIAMAuthN \<in> set opts \<longrightarrow> WithTokenSource ts \<notin> set opts)"
proof -
  from assms obtain co where co: "credentialsOpt e c = Ok co"
    by (auto simp: DialerOptions_def bind_outcome_Ok_iff)
  have "co \<noteq> WithIAMAuthN"
    using co by (auto simp: credentialsOpt_def bind_outcome_Ok_iff case_prod_unfold split: if_splits)
  then have 1: "WithIAMAuthN \<in> set opts \<longleftrightarrow> iamAuthNEnabled c"
    using assms co by (auto simp: DialerOptions_def split: if_splits)
  have 2: "WithTokenSource ts \<in> set opts \<longleftrightarrow> co = WithTokenSource ts"
    using assms co by (auto simp: DialerOptions_def split: if_splits)
  show ?thesis using 1 2 iam_token_source_free [OF co] by auto
qed

definition sample_env :: "nat cred_env" where
  "sample_env = \<lparr>gcloud_TokenSource = Ok 0, impersonate_CredentialsTokenSource = (\<lambda>_ _. Ok 1),
     SqlserviceAdminScope = ''admin''\<rparr>"

theorem DialerOptions_iam_witness:
  "\<exists>opts. DialerOptions sample_env (zero_Config\<lparr>cf_ImpersonationChain := ''sa'', cf_IAMAuthN := True\<rparr>) = Ok opts
     \<and> WithIAMAuthN \<in> set opts \<and> WithTokenSource (StaticTokenSource []) \<notin> set opts"
proof -
  let ?c = "zero_Config\<lparr>cf_ImpersonationChain := ''sa'', cf_IAMAuthN := True\<rparr>"
  have iam: "iamAuthNEnabled ?c" by (simp add: iamAuthNEnabled_def)
  have "is_Ok (credentialsOpt sample_env ?c)"
    by (simp add: credentialsOpt_def impersonateOpts_def sample_env_def case_prod_unfold Let_def
        zero_Config_def)
  then obtain opts where o: "DialerOptions sample_env ?c = Ok opts"
    by (auto simp: DialerOptions_def is_Ok_iff)
  from iam DialerOptions_iam [OF o, of "StaticTokenSource []"] o show ?thesis by simp
qed



end
