(* ===== verification/Ports.thy ===== *)
theory Ports
  imports Config
begin

text \<open>
  Port assignment (internal/proxy/proxy.go, lines 496-537): \<open>portConfig\<close> with its four
  counters, \<open>newPortConfig\<close>, \<open>nextPort\<close> and \<open>nextDBPort\<close>. An operation returns the port and the
  updated counters; the counters are Go ints and wrap.
\<close>

record portConfig =
  pc_global :: int
  pc_postgres :: int
  pc_mysql :: int
  pc_sqlserver :: int

definition newPortConfig :: "int \<Rightarrow> portConfig" where
  "newPortConfig global =
     \<lparr>pc_global = global, pc_postgres = 5432, pc_mysql = 3306, pc_sqlserver = 1433\<rparr>"

definition nextPort :: "portConfig \<Rightarrow> int \<times> portConfig" where
  "nextPort c = (pc_global c, c\<lparr>pc_global := int64 (pc_global c + 1)\<rparr>)"

definition nextDBPort :: "string \<Rightarrow> portConfig \<Rightarrow> int \<times> portConfig" where
  "nextDBPort version c =
     (if hasPrefix version ''MYSQL'' then (pc_mysql c, c\<lparr>pc_mysql := int64 (pc_mysql c + 1)\<rparr>)
      else if hasPrefix version ''POSTGRES'' then (pc_postgres c, c\<lparr>pc_postgres := int64 (pc_postgres c + 1)\<rparr>)
      else if hasPrefix version ''SQLSERVER'' then (pc_sqlserver c, c\<lparr>pc_sqlserver := int64 (pc_sqlserver c + 1)\<rparr>)
      else nextPort c)"

text \<open>Runs of requests, as the mounting loop makes them.\<close>

fun dbPorts :: "string list \<Rightarrow> portConfig \<Rightarrow> int list \<times> portConfig" where
  "dbPorts [] c = ([], c)"
| "dbPorts (v # vs) c =
     (let (p, c') = nextDBPort v c; (ps, c'') = dbPorts vs c' in (p # ps, c''))"

fun globalPorts :: "nat \<Rightarrow> portConfig \<Rightarrow> int list \<times> portConfig" where
  "globalPorts 0 c = ([], c)"
| "globalPorts (Suc n) c =
     (let (p, c') = nextPort c; (ps, c'') = globalPorts n c' in (p # ps, c''))"

section \<open>A counter as an interface\<close>

text \<open>
  What a client of one counter relies on: a request returns the current value and moves
  the counter by one, in 64-bit arithmetic. From it, \<open>n\<close> requests return consecutive ports.
\<close>

locale port_counter =
  fixes request :: "'s \<Rightarrow> int \<times> 's"
    and counter :: "'s \<Rightarrow> int"
  assumes request_port: "fst (request s) = counter s"
    and request_counter: "counter (snd (request s)) = int64 (counter s + 1)"
begin

primrec requests :: "nat \<Rightarrow> 's \<Rightarrow> int list \<times> 's" where
  "requests 0 s = ([], s)"
| "requests (Suc n) s =
     (let r = request s; rs = requests n (snd r) in (fst r # fst rs, snd rs))"

lemma requests_counter:
  "in_int64 (counter s) \<Longrightarrow> counter (snd (requests n s)) = int64 (counter s + int n)"
proof (induction n arbitrary: s)
  case 0
  then show ?case by simp
next
  case (Suc n)
  have "counter (snd (requests n (snd (request s)))) = int64 (counter (snd (request s)) + int n)"
    by (rule Suc.IH) (simp add: request_counter)
  also have "\<dots> = int64 (counter s + 1 + int n)"
    by (simp add: request_counter int64_add_int64)
  finally show ?case by (simp add: Let_def algebra_simps)
qed

lemma requests_ports:
  "in_int64 (counter s) \<Longrightarrow> fst (requests n s) = map (\<lambda>i. int64 (counter s + int i)) [0..<n]"
proof (induction n arbitrary: s)
  case 0
  then show ?case by simp
next
  case (Suc n)
  have "fst (requests n (snd (request s))) = map (\<lambda>i. int64 (counter (snd (request s)) + int i)) [0..<n]"
    by (rule Suc.IH) (simp add: request_counter)
  also have "\<dots> = map (\<lambda>i. int64 (counter s + int i)) [1..<Suc n]"
  proof (rule nth_equalityI)
    fix k assume "k < length (map (\<lambda>i. int64 (counter (snd (request s)) + int i)) [0..<n])"
    then show "map (\<lambda>i. int64 (counter (snd (request s)) + int i)) [0..<n] ! k
        = map (\<lambda>i. int64 (counter s + int i)) [1..<Suc n] ! k"
      by (simp add: request_counter int64_add_int64 add.assoc del: upt_Suc)
  qed simp
  finally show ?case
    using Suc.prems by (simp add: Let_def request_port upt_conv_Cons del: upt_Suc)
qed

lemma requests_consecutive:
  assumes "in_int64 (counter s)" and "in_int64 (counter s + int n)"
  shows "fst (requests n s) = map (\<lambda>i. counter s + int i) [0..<n]"
proof -
  have "in_int64 (counter s + int i)" if "i < n" for i
    using assms that by (auto simp: in_int64_def)
  then show ?thesis by (simp add: requests_ports [OF assms(1)])
qed

end

interpretation global_counter: port_counter nextPort pc_global
  by unfold_locales (simp_all add: nextPort_def)

interpretation mysql_counter: port_counter "nextDBPort (''MYSQL'' @ v)" pc_mysql for v
  by unfold_locales (simp_all add: nextDBPort_def hasPrefix_def)

interpretation postgres_counter: port_counter "nextDBPort (''POSTGRES'' @ v)" pc_postgres for v
  by unfold_locales (simp_all add: nextDBPort_def hasPrefix_def)

interpretation sqlserver_counter: port_counter "nextDBPort (''SQLSERVER'' @ v)" pc_sqlserver for v
  by unfold_locales (simp_all add: nextDBPort_def hasPrefix_def)

lemma globalPorts_requests: "globalPorts n c = global_counter.requests n c"
  by (induction n arbitrary: c) (auto simp: Let_def case_prod_unfold)

section \<open>Ports by engine\<close>

datatype engine = MySQL | Postgres | SQLServer | Unknown

definition engine_of :: "string \<Rightarrow> engine" where
  "engine_of v =
     (if hasPrefix v ''MYSQL'' then MySQL
      else if hasPrefix v ''POSTGRES'' then Postgres
      else if hasPrefix v ''SQLSERVER'' then SQLServer
      else Unknown)"

fun counter_of :: "engine \<Rightarrow> portConfig \<Rightarrow> int" where
  "counter_of MySQL c = pc_mysql c"
| "counter_of Postgres c = pc_postgres c"
| "counter_of SQLServer c = pc_sqlserver c"
| "counter_of Unknown c = pc_global c"

lemma nextDBPort_port [frame]: "fst (nextDBPort v c) = counter_of (engine_of v) c"
  by (simp add: nextDBPort_def engine_of_def nextPort_def)

lemma nextDBPort_counter [frame]:
  "counter_of e (snd (nextDBPort v c)) =
     (if e = engine_of v then int64 (counter_of e c + 1) else counter_of e c)"
  by (cases e) (simp_all add: nextDBPort_def engine_of_def nextPort_def)

text \<open>How many of the first \<open>k\<close> instances have the engine of instance \<open>k\<close>.\<close>

definition earlier :: "string list \<Rightarrow> nat \<Rightarrow> nat" where
  "earlier vs k = length (filter (\<lambda>v. engine_of v = engine_of (vs ! k)) (take k vs))"

lemma earlier_Cons_Suc:
  "earlier (v # vs) (Suc k) =
     (if engine_of v = engine_of (vs ! k) then Suc (earlier vs k) else earlier vs k)"
  by (simp add: earlier_def)

lemma earlier_le: "earlier vs k \<le> k"
  unfolding earlier_def by (metis length_filter_le length_take min.bounded_iff)

lemma dbPorts_Cons:
  "dbPorts (v # vs) c =
     (fst (nextDBPort v c) # fst (dbPorts vs (snd (nextDBPort v c))), snd (dbPorts vs (snd (nextDBPort v c))))"
  by (simp add: case_prod_unfold Let_def)

lemma dbPorts_length: "length (fst (dbPorts vs c)) = length vs"
  by (induction vs arbitrary: c) (simp_all add: dbPorts_Cons del: dbPorts.simps(2))

lemma dbPorts_nth:
  assumes "k < length vs" and "\<And>e. in_int64 (counter_of e c)"
  shows "fst (dbPorts vs c) ! k = int64 (counter_of (engine_of (vs ! k)) c + int (earlier vs k))"
  using assms
proof (induction vs arbitrary: c k)
  case Nil
  then show ?case by simp
next
  case (Cons v vs)
  show ?case
  proof (cases k)
    case 0
    then show ?thesis
      using Cons.prems(2) by (simp add: dbPorts_Cons nextDBPort_port earlier_def del: dbPorts.simps(2))
  next
    case (Suc j)
    let ?c = "snd (nextDBPort v c)" and ?e = "engine_of (vs ! j)"
    have "in_int64 (counter_of e ?c)" for e
      using Cons.prems(2) by (simp add: nextDBPort_counter)
    then have "fst (dbPorts vs ?c) ! j = int64 (counter_of ?e ?c + int (earlier vs j))"
      using Cons.prems(1) Suc by (intro Cons.IH) auto
    then show ?thesis
      using Suc by (simp add: dbPorts_Cons nextDBPort_counter earlier_Cons_Suc int64_add_int64
          add.assoc add.commute [of 1] del: dbPorts.simps(2))
  qed
qed

lemma in_int64_newPortConfig: "in_int64 g \<Longrightarrow> in_int64 (counter_of e (newPortConfig g))"
  by (cases e) (simp_all add: newPortConfig_def in_int64_def)

definition base_port :: "engine \<Rightarrow> int" where
  "base_port e = counter_of e (newPortConfig 0)"

lemma base_port_simps [simp]:
  "base_port MySQL = 3306" "base_port Postgres = 5432" "base_port SQLServer = 1433" "base_port Unknown = 0"
  by (simp_all add: base_port_def newPortConfig_def)

lemma dbPorts_new:
  assumes "k < length vs" and "length vs \<le> 2 ^ 62"
  shows "fst (dbPorts vs (newPortConfig 0)) ! k = base_port (engine_of (vs ! k)) + int (earlier vs k)"
proof -
  have "base_port e + int (earlier vs k) < 2 ^ 63" for e
    using earlier_le [of vs k] assms by (cases e) simp_all
  moreover have "0 \<le> base_port e" for e
    by (cases e) simp_all
  ultimately have "in_int64 (base_port (engine_of (vs ! k)) + int (earlier vs k))"
    by (simp add: in_int64_def add_nonneg_nonneg order_trans [of _ 0])
  then show ?thesis
    using dbPorts_nth [OF assms(1), of "newPortConfig 0"] in_int64_newPortConfig [of 0]
    by (simp add: base_port_def in_int64_def)
qed

lemma earlier_strict_mono:
  assumes "j < k" and "k < length vs" and "engine_of (vs ! j) = engine_of (vs ! k)"
  shows "earlier vs j < earlier vs k"
proof -
  let ?P = "\<lambda>v. engine_of v = engine_of (vs ! k)"
  have "j < length (take k vs)" using assms by simp
  then have "take k vs = take j (take k vs) @ take k vs ! j # drop (Suc j) (take k vs)"
    by (rule id_take_nth_drop)
  then have "take k vs = take j vs @ vs ! j # drop (Suc j) (take k vs)"
    using assms(1) by simp
  then have "length (filter ?P (take k vs)) = length (filter ?P (take j vs @ vs ! j # drop (Suc j) (take k vs)))"
    by (rule arg_cong)
  then show ?thesis using assms(3) by (simp add: earlier_def)
qed

definition engine_count :: "engine \<Rightarrow> string list \<Rightarrow> nat" where
  "engine_count e vs = length (filter (\<lambda>v. engine_of v = e) vs)"

lemma earlier_less:
  assumes "k < length vs"
  shows "earlier vs k < engine_count (engine_of (vs ! k)) vs"
proof -
  let ?P = "\<lambda>v. engine_of v = engine_of (vs ! k)"
  have "length (filter ?P vs) = length (filter ?P (take k vs @ vs ! k # drop (Suc k) vs))"
    using id_take_nth_drop [OF assms] by (rule arg_cong)
  then show ?thesis by (simp add: earlier_def engine_count_def)
qed

text \<open>
  With known engines, no two requests get the same port as long as the SQL Server instances do not
  reach the first MySQL port, nor the MySQL instances the first Postgres port.
\<close>

lemma dbPorts_distinct:
  assumes "length vs \<le> 2 ^ 62" and "\<forall>v\<in>set vs. engine_of v \<noteq> Unknown"
    and "engine_count SQLServer vs \<le> 1873" and "engine_count MySQL vs \<le> 2126"
  shows "distinct (fst (dbPorts vs (newPortConfig 0)))"
proof -
  let ?p = "\<lambda>k. fst (dbPorts vs (newPortConfig 0)) ! k"
  have port: "?p k = base_port (engine_of (vs ! k)) + int (earlier vs k)" if "k < length vs" for k
    using dbPorts_new [OF that assms(1)] .
  have "?p j \<noteq> ?p k" if "j < k" "k < length vs" for j k
  proof (cases "engine_of (vs ! j) = engine_of (vs ! k)")
    case True
    then show ?thesis using that port earlier_strict_mono [of j k vs] by simp
  next
    case False
    have "engine_of (vs ! j) \<noteq> Unknown" "engine_of (vs ! k) \<noteq> Unknown"
      using that assms(2) by auto
    with that False earlier_less [of j vs] earlier_less [of k vs] assms(3,4) show ?thesis
      by (cases "engine_of (vs ! j)"; cases "engine_of (vs ! k)") (simp_all add: port)
  qed
  then show ?thesis
    unfolding distinct_conv_nth dbPorts_length by (metis linorder_neqE_nat)
qed

section \<open>Properties\<close>

text \<open>
  With the \<open>--port\<close> flag, successive listeners get consecutive ports from the given
  value on, as long as the ports stay within Go's int.
\<close>

theorem globalPorts_consecutive:
  assumes "in_int64 port" and "in_int64 (port + int n)"
  shows "fst (globalPorts n (newPortConfig port)) = map (\<lambda>i. port + int i) [0..<n]"
  using global_counter.requests_consecutive [of "newPortConfig port" n] assms
  by (simp add: globalPorts_requests newPortConfig_def)

theorem globalPorts_consecutive_witness:
  "fst (globalPorts 3 (newPortConfig 25000)) = [25000, 25001, 25002]"
  using globalPorts_consecutive [of 25000 3] by (simp add: in_int64_def upt_rec)

text \<open>
  Without the flag, each instance gets the default port of its database engine plus
  the number of earlier instances of the same engine (3306, 3307, ... for MySQL), whatever
  the other engines in between.
\<close>

theorem dbPorts_per_engine:
  assumes "k < length vs" and "length vs \<le> 2 ^ 62" and "engine_of (vs ! k) \<noteq> Unknown"
  shows "fst (dbPorts vs (newPortConfig 0)) ! k =
    (case engine_of (vs ! k) of MySQL \<Rightarrow> 3306 | Postgres \<Rightarrow> 5432 | SQLServer \<Rightarrow> 1433 | Unknown \<Rightarrow> 0)
    + int (earlier vs k)"
  using dbPorts_new [OF assms(1,2)]
  by (cases "engine_of (vs ! k)") simp_all

theorem dbPorts_per_engine_witness:
  "fst (dbPorts [''MYSQL_8_0'', ''POSTGRES_14'', ''MYSQL_5_7''] (newPortConfig 0)) ! 2 = 3307"
proof -
  let ?vs = "[''MYSQL_8_0'', ''POSTGRES_14'', ''MYSQL_5_7'']"
  have "engine_of (?vs ! 2) = MySQL" by (simp add: engine_of_def hasPrefix_def)
  moreover have "earlier ?vs 2 = 1" by (simp add: earlier_def engine_of_def hasPrefix_def)
  ultimately show ?thesis using dbPorts_per_engine [of 2 ?vs] by simp
qed

text \<open>
  For engines the proxy does not know, the fallback to the global counter hands out
  the ports 0, 1, 2, ... : the fallback is reached only when no global port is set.
\<close>

theorem dbPorts_unknown_engine:
  assumes "\<forall>v\<in>set vs. engine_of v = Unknown" and "k < length vs" and "length vs \<le> 2 ^ 62"
  shows "fst (dbPorts vs (newPortConfig 0)) ! k = int k"
proof -
  have "filter (\<lambda>v. engine_of v = engine_of (vs ! k)) (take k vs) = take k vs"
    using assms(1,2) by (intro filter_True) (auto dest: in_set_takeD)
  then have "earlier vs k = k" using assms(2) by (simp add: earlier_def)
  then show ?thesis
    using dbPorts_new [OF assms(2,3)] assms(1,2) by simp
qed

theorem dbPorts_unknown_engine_witness:
  "fst (dbPorts [''ORACLE_19'', ''ORACLE_21''] (newPortConfig 0)) ! 1 = 1"
  using dbPorts_unknown_engine [of "[''ORACLE_19'', ''ORACLE_21'']" 1]
  by (simp add: engine_of_def hasPrefix_def)

end
