(* ===== verification/Go_Path.thy ===== *)
theory Go_Path
  imports Go_Strings
begin

text \<open>
  Lexical path processing: \<open>path.Clean\<close>, \<open>path.Base\<close>, \<open>path.Dir\<close>, \<open>filepath.Join\<close> and
  \<open>filepath.Ext\<close> with the slash as separator. \<open>Clean\<close> works on the list of path elements:
  empty and \<open>.\<close> elements vanish, \<open>..\<close> removes the element before it, stays at the start of
  a relative path and vanishes at the root.
\<close>

abbreviation slash :: char where
  "slash \<equiv> CHR ''/''"

definition rooted :: "string \<Rightarrow> bool" where
  "rooted p \<longleftrightarrow> p \<noteq> [] \<and> hd p = slash"

definition elems :: "string \<Rightarrow> string list" where
  "elems p = filter (\<lambda>e. e \<noteq> [] \<and> e \<noteq> ''.'') (splitc slash p)"

text \<open>The elements kept so far are held in reverse.\<close>

fun clean_step :: "bool \<Rightarrow> string list \<Rightarrow> string \<Rightarrow> string list" where
  "clean_step r stk e =
     (if e \<noteq> ''..'' then e # stk
      else case stk of
             [] \<Rightarrow> (if r then [] else [''..''])
           | t # ts \<Rightarrow> (if t = ''..'' then ''..'' # stk else ts))"

definition clean_elems :: "bool \<Rightarrow> string list \<Rightarrow> string list" where
  "clean_elems r es = rev (foldl (clean_step r) [] es)"

definition show_path :: "bool \<Rightarrow> string list \<Rightarrow> string" where
  "show_path r es =
     (if r then slash # joins [slash] es else if es = [] then ''.'' else joins [slash] es)"

definition clean :: "string \<Rightarrow> string" where
  "clean p = (if p = [] then ''.'' else show_path (rooted p) (clean_elems (rooted p) (elems p)))"

definition base :: "string \<Rightarrow> string" where
  "base p =
     (if p = [] then ''.''
      else let b = rev (takeWhile (\<lambda>c. c \<noteq> slash) (dropWhile (\<lambda>c. c = slash) (rev p)))
           in if b = [] then [slash] else b)"

definition dir :: "string \<Rightarrow> string" where
  "dir p = clean (rev (dropWhile (\<lambda>c. c \<noteq> slash) (rev p)))"

text \<open>\<open>filepath.Join\<close> of two elements.\<close>

definition join2 :: "string \<Rightarrow> string \<Rightarrow> string" where
  "join2 a b = (if a = [] \<and> b = [] then [] else if a = [] then clean b else clean (a @ [slash] @ b))"

text \<open>\<open>filepath.Ext\<close>: from the last dot of the last element on.\<close>

definition ext :: "string \<Rightarrow> string" where
  "ext p =
     (let l = takeWhile (\<lambda>c. c \<noteq> slash) (rev p) in
      if CHR ''.'' \<in> set l then CHR ''.'' # rev (takeWhile (\<lambda>c. c \<noteq> CHR ''.'') l) else [])"

section \<open>Path elements\<close>

definition is_elem :: "string \<Rightarrow> bool" where
  "is_elem e \<longleftrightarrow> e \<noteq> [] \<and> e \<noteq> ''.'' \<and> slash \<notin> set e"

definition plain :: "string \<Rightarrow> bool" where
  "plain e \<longleftrightarrow> is_elem e \<and> e \<noteq> ''..''"

lemma elems_is_elem: "e \<in> set (elems p) \<Longrightarrow> is_elem e"
  by (auto simp: elems_def is_elem_def dest: splitc_no_sep)

lemma elems_append_slash [go_path]: "elems (a @ slash # b) = elems a @ elems b"
proof -
  have "splitc slash (a @ slash # b) = splitc slash a @ splitc slash b"
    by (induction a) (auto simp: splitc_Cons simp del: splitc.simps(2))
  then show ?thesis by (simp add: elems_def)
qed

lemma elems_empty [go_path, simp]: "elems [] = []"
  by (simp add: elems_def)

lemma elems_elem [go_path]: "is_elem e \<Longrightarrow> elems e = [e]"
  by (simp add: elems_def is_elem_def)

lemma elems_joins [go_path]: "\<forall>e\<in>set es. is_elem e \<Longrightarrow> elems (joins [slash] es) = es"
proof (cases "es = []")
  case True
  then show ?thesis by simp
next
  case False
  assume es: "\<forall>e\<in>set es. is_elem e"
  then have "splitc slash (joins [slash] es) = es"
    using False by (intro splitc_joins) (auto simp: is_elem_def)
  with es show ?thesis by (auto simp: elems_def is_elem_def intro!: filter_True)
qed

lemma joins_nonempty: "es \<noteq> [] \<Longrightarrow> \<forall>e\<in>set es. is_elem e \<Longrightarrow> joins [slash] es \<noteq> []"
  by (cases es rule: list.exhaust [case_product list.exhaust])
     (auto simp: joins_Cons is_elem_def neq_Nil_conv)

lemma joins_hd_not_slash:
  assumes "es \<noteq> []" and "\<forall>e\<in>set es. is_elem e"
  shows "hd (joins [slash] es) \<noteq> slash"
proof -
  obtain x xs where "es = x # xs" using assms(1) by (cases es) auto
  moreover obtain c cs where "x = c # cs" using assms(2) \<open>es = x # xs\<close>
    by (cases x) (auto simp: is_elem_def)
  ultimately show ?thesis using assms(2) by (auto simp: is_elem_def)
qed

section \<open>Normal forms\<close>

text \<open>
  A stack (in reverse) is normal when the \<open>..\<close> elements stand below all others, and a
  rooted path has none.
\<close>

fun nf :: "bool \<Rightarrow> string list \<Rightarrow> bool" where
  "nf r [] = True"
| "nf r (e # es) =
     (is_elem e \<and> nf r es \<and> (e = ''..'' \<longrightarrow> \<not> r \<and> (\<forall>x\<in>set es. x = ''..'')))"

lemma clean_step_nf: "nf r stk \<Longrightarrow> is_elem e \<Longrightarrow> nf r (clean_step r stk e)"
  by (cases stk) (auto simp: is_elem_def)

lemma foldl_clean_step_nf:
  "nf r stk \<Longrightarrow> \<forall>e\<in>set es. is_elem e \<Longrightarrow> nf r (foldl (clean_step r) stk es)"
  by (induction es arbitrary: stk) (simp_all add: clean_step_nf del: clean_step.simps)

lemma nf_elems: "nf r es \<Longrightarrow> \<forall>e\<in>set es. is_elem e"
  by (induction es) auto

lemma clean_step_id: "nf r (e # stk) \<Longrightarrow> clean_step r stk e = e # stk"
  by (cases "e = ''..''"; cases stk) simp_all

lemma foldl_clean_step_id: "nf r (rev es @ stk) \<Longrightarrow> foldl (clean_step r) stk es = rev es @ stk"
proof (induction es rule: rev_induct)
  case Nil
  then show ?case by simp
next
  case (snoc e es)
  then have "nf r (e # rev es @ stk)" by simp
  then show ?case using snoc by (simp add: clean_step_id del: clean_step.simps)
qed

lemma clean_elems_id: "nf r (rev es) \<Longrightarrow> clean_elems r es = es"
  using foldl_clean_step_id [of r es "[]"] by (simp add: clean_elems_def)

lemma clean_elems_nf: "\<forall>e\<in>set es. is_elem e \<Longrightarrow> nf r (rev (clean_elems r es))"
  by (simp add: clean_elems_def foldl_clean_step_nf)

lemma clean_elems_append:
  "clean_elems r (clean_elems r xs @ ys) = clean_elems r (xs @ ys)"
  if "\<forall>e\<in>set xs. is_elem e"
proof -
  let ?s = "foldl (clean_step r) [] xs"
  have "nf r ?s" using that by (simp add: foldl_clean_step_nf)
  then have "foldl (clean_step r) [] (rev ?s) = ?s"
    using foldl_clean_step_id [of r "rev ?s" "[]"] by simp
  then show ?thesis by (simp add: clean_elems_def)
qed

lemma clean_elems_snoc: "e \<noteq> ''..'' \<Longrightarrow> clean_elems r (es @ [e]) = clean_elems r es @ [e]"
  by (simp add: clean_elems_def)

section \<open>Shown paths\<close>

lemma rooted_show_path: "\<forall>e\<in>set es. is_elem e \<Longrightarrow> rooted (show_path r es) = r"
  using joins_hd_not_slash [of es] by (auto simp: rooted_def show_path_def)

lemma elems_show_path: "\<forall>e\<in>set es. is_elem e \<Longrightarrow> elems (show_path r es) = es"
  using elems_joins [of es] elems_append_slash [of "[]" "joins [slash] es"]
  by (auto simp: show_path_def elems_def)

lemma show_path_nonempty: "\<forall>e\<in>set es. is_elem e \<Longrightarrow> show_path r es \<noteq> []"
  using joins_nonempty [of es] by (auto simp: show_path_def)

lemma clean_show_path:
  assumes "\<forall>e\<in>set es. is_elem e"
  shows "clean (show_path r es) = show_path r (clean_elems r es)"
  using assms by (simp add: clean_def show_path_nonempty rooted_show_path elems_show_path)

lemma clean_elems_is_elem: "e \<in> set (clean_elems r (elems p)) \<Longrightarrow> is_elem e"
  using nf_elems [OF clean_elems_nf [of "elems p" r]] elems_is_elem by auto

lemma clean_idem: "clean (clean p) = clean p"
proof (cases "p = []")
  case True
  then show ?thesis by (simp add: clean_def show_path_def clean_elems_def elems_def rooted_def)
next
  case False
  let ?es = "clean_elems (rooted p) (elems p)"
  have e: "\<forall>e\<in>set ?es. is_elem e" by (auto intro: clean_elems_is_elem)
  have "clean_elems (rooted p) ?es = ?es"
    using clean_elems_append [of "elems p" "rooted p" "[]"] elems_is_elem by auto
  then show ?thesis
    using clean_show_path [OF e] False by (simp add: clean_def)
qed

section \<open>Joining, the last element, the directory\<close>

lemma rev_joins_snoc:
  "es \<noteq> [] \<Longrightarrow> joins [slash] (es @ [e]) = joins [slash] es @ slash # e"
proof (induction es)
  case Nil
  then show ?case by simp
next
  case (Cons x xs)
  show ?case
  proof (cases "xs = []")
    case True
    then show ?thesis by simp
  next
    case False
    with Cons show ?thesis by (simp add: joins_Cons)
  qed
qed

lemma is_elem_rev: "is_elem e \<Longrightarrow> \<exists>c cs. rev e = c # cs \<and> c \<noteq> slash \<and> slash \<notin> set cs"
proof -
  assume e: "is_elem e"
  then have "rev e \<noteq> []" by (simp add: is_elem_def)
  then obtain c cs where r: "rev e = c # cs" by (cases "rev e") auto
  then have "set e = insert c (set cs)" by (metis list.simps(15) set_rev)
  with e r show ?thesis by (auto simp: is_elem_def)
qed

lemma base_snoc_elem [go_path]: "is_elem e \<Longrightarrow> base (p @ slash # e) = e"
proof -
  assume e: "is_elem e"
  obtain c cs where r: "rev e = c # cs" "c \<noteq> slash" "slash \<notin> set cs"
    using is_elem_rev [OF e] by blast
  have "takeWhile (\<lambda>c. c \<noteq> slash) (cs @ slash # rev p) = cs"
    using r(3) by (induction cs) auto
  moreover have "e = rev cs @ [c]" using r(1) by (metis rev.simps(2) rev_rev_ident)
  ultimately show ?thesis using r(2) by (simp add: base_def)
qed

lemma base_elem [go_path]: "is_elem e \<Longrightarrow> base e = e"
proof -
  assume e: "is_elem e"
  obtain c cs where r: "rev e = c # cs" "c \<noteq> slash" "slash \<notin> set cs"
    using is_elem_rev [OF e] by blast
  then have "takeWhile (\<lambda>c. c \<noteq> slash) cs = cs" by (auto simp: takeWhile_eq_all_conv)
  moreover have "e = rev cs @ [c]" using r(1) by (metis rev.simps(2) rev_rev_ident)
  ultimately show ?thesis using r(2) by (simp add: base_def)
qed

lemma base_show_path_snoc: "is_elem e \<Longrightarrow> base (show_path r (es @ [e])) = e"
proof (cases "es = []")
  case True
  assume "is_elem e"
  with True base_elem [of e] base_snoc_elem [of e "[]"] show ?thesis
    by (simp add: show_path_def)
next
  case False
  assume "is_elem e"
  with False base_snoc_elem [of e "joins [slash] es"] base_snoc_elem [of e "slash # joins [slash] es"]
  show ?thesis by (simp add: show_path_def rev_joins_snoc)
qed

text \<open>Joining a plain last element: it is the base of the result.\<close>

lemma join2_elems:
  assumes "a \<noteq> []" and "plain e"
  shows "join2 a e = show_path (rooted a) (clean_elems (rooted a) (elems a) @ [e])"
proof -
  have "rooted (a @ slash # e) = rooted a" using assms(1) by (simp add: rooted_def)
  moreover have "elems (a @ slash # e) = elems a @ [e]"
    using assms(2) by (simp add: elems_append_slash elems_elem plain_def)
  ultimately show ?thesis
    using assms by (simp add: join2_def clean_def clean_elems_snoc plain_def)
qed

lemma base_join2 [go_path]:
  assumes "plain e"
  shows "base (join2 a e) = e"
proof (cases "a = []")
  case True
  have "is_elem e" using assms by (simp add: plain_def)
  then have "clean e = show_path False [e]"
    using assms by (simp add: clean_def elems_elem clean_elems_def plain_def is_elem_def rooted_def)
       (metis hd_in_set)
  with True assms show ?thesis
    using base_show_path_snoc [of e False "[]"] by (simp add: join2_def plain_def is_elem_def)
next
  case False
  with assms show ?thesis by (simp add: join2_elems base_show_path_snoc plain_def)
qed

lemma dropWhile_not_slash_append:
  "slash \<notin> set e \<Longrightarrow> rev (dropWhile (\<lambda>c. c \<noteq> slash) (rev (p @ slash # e))) = p @ [slash]"
proof -
  assume "slash \<notin> set e"
  then have "dropWhile (\<lambda>c. c \<noteq> slash) (rev e @ slash # rev p) = slash # rev p"
    by (subst dropWhile_append2) auto
  then show ?thesis by simp
qed

lemma clean_append_slash: "p \<noteq> [] \<Longrightarrow> clean (p @ [slash]) = clean p"
  using elems_append_slash [of p "[]"] by (simp add: clean_def rooted_def)

text \<open>The directory of a join is the cleaned first part.\<close>

lemma dir_join2 [go_path]:
  assumes "a \<noteq> []" and "plain e"
  shows "dir (join2 a e) = clean a"
proof -
  let ?r = "rooted a" and ?es = "clean_elems (rooted a) (elems a)"
  have e: "slash \<notin> set e" using assms(2) by (simp add: plain_def is_elem_def)
  have es: "\<forall>x\<in>set ?es. is_elem x" by (auto intro: clean_elems_is_elem)
  have idem: "clean (show_path ?r ?es) = clean a"
    using clean_idem [of a] assms(1) by (simp add: clean_def)
  have ca: "clean a = show_path ?r ?es" using assms(1) by (simp add: clean_def)
  show ?thesis
  proof (cases "?es = []")
    case True
    then show ?thesis
      using assms e dropWhile_not_slash_append [OF e, of "[]"] ca
      by (auto simp: join2_elems show_path_def dir_def clean_def rooted_def elems_def clean_elems_def
            dropWhile_eq_Nil_conv)
  next
    case False
    then have "joins [slash] ?es \<noteq> []" using joins_nonempty es by blast
    then show ?thesis
      using False assms idem
        dropWhile_not_slash_append [OF e, of "joins [slash] ?es"]
        dropWhile_not_slash_append [OF e, of "slash # joins [slash] ?es"]
        clean_append_slash [of "joins [slash] ?es"] clean_append_slash [of "slash # joins [slash] ?es"]
      by (auto simp: join2_elems show_path_def dir_def rev_joins_snoc)
  qed
qed

lemma clean_nonempty [simp]: "clean p \<noteq> []"
proof (cases "p = []")
  case True
  then show ?thesis by (simp add: clean_def)
next
  case False
  have "show_path (rooted p) (clean_elems (rooted p) (elems p)) \<noteq> []"
    by (rule show_path_nonempty) (auto intro: clean_elems_is_elem)
  with False show ?thesis by (simp add: clean_def)
qed

lemma join2_clean: "a \<noteq> [] \<Longrightarrow> plain e \<Longrightarrow> join2 (clean a) e = join2 a e"
proof -
  assume a: "a \<noteq> []" and e: "plain e"
  let ?es = "clean_elems (rooted a) (elems a)"
  have es: "\<forall>x\<in>set ?es. is_elem x" by (auto intro: clean_elems_is_elem)
  have ca: "clean a = show_path (rooted a) ?es" using a by (simp add: clean_def)
  have "clean_elems (rooted a) ?es = ?es"
    using clean_elems_append [of "elems a" "rooted a" "[]"] elems_is_elem by auto
  then show ?thesis
    using join2_elems [of "clean a" e] join2_elems [of a e] a e es
    by (simp add: ca rooted_show_path elems_show_path show_path_nonempty)
qed

end
