(* ===== verification/Go_Net.thy ===== *)
theory Go_Net
  imports Go_Strings
begin

text \<open>
  The parts of Go's package \<open>net\<close> that are pure functions: \<open>net.ParseIP\<close> (with the IPv4 and
  IPv6 grammars of \<open>netip.ParseAddr\<close>), \<open>IP.To4\<close> and \<open>net.JoinHostPort\<close>. An address is its
  list of sixteen bytes.
\<close>

type_synonym ip = "nat list"

section \<open>IPv4\<close>

text \<open>
  The loop of the IPv4 parser. \<open>dot\<close>: the character before is a dot or there is none;
  \<open>v\<close> and \<open>n\<close>: value and number of the digits of the current octet; \<open>fs\<close>: octets read.
\<close>

fun v4_fields :: "bool \<Rightarrow> nat \<Rightarrow> nat \<Rightarrow> nat list \<Rightarrow> string \<Rightarrow> nat list option" where
  "v4_fields dot v n fs [] = (if length fs < 3 then None else Some (fs @ [v]))"
| "v4_fields dot v n fs (c # cs) =
     (if is_digit c then
        (if n = 1 \<and> v = 0 then None
         else if v * 10 + digit_val c > 255 then None
         else v4_fields False (v * 10 + digit_val c) (Suc n) fs cs)
      else if c = CHR ''.'' then
        (if dot \<or> cs = [] then None
         else if length fs = 3 then None
         else v4_fields True 0 0 (fs @ [v]) cs)
      else None)"

definition parseIPv4Fields :: "string \<Rightarrow> nat list option" where
  "parseIPv4Fields s = v4_fields True 0 0 [] s"

definition v4_prefix :: "nat list" where
  "v4_prefix = replicate 10 0 @ [255, 255]"

definition parseIPv4 :: "string \<Rightarrow> ip option" where
  "parseIPv4 s = map_option (\<lambda>fs. v4_prefix @ fs) (parseIPv4Fields s)"

section \<open>IPv6\<close>

definition hex_val :: "char \<Rightarrow> nat option" where
  "hex_val c =
     (let n = of_char c in
      if 48 \<le> n \<and> n \<le> 57 then Some (n - 48)
      else if 97 \<le> n \<and> n \<le> 102 then Some (n - 97 + 10)
      else if 65 \<le> n \<and> n \<le> 70 then Some (n - 65 + 10)
      else None)"

definition hex_run :: "string \<Rightarrow> string" where
  "hex_run s = takeWhile (\<lambda>c. hex_val c \<noteq> None) s"

definition read_hex :: "string \<Rightarrow> nat" where
  "read_hex s = foldl (\<lambda>n c. n * 16 + (case hex_val c of Some d \<Rightarrow> d | None \<Rightarrow> 0)) 0 s"

text \<open>
  The loop of the IPv6 parser: the bytes read so far, where the ellipsis stands if one
  was seen, and the text left. It returns the three when it ends without an error.
\<close>

function v6_loop :: "nat list \<Rightarrow> nat option \<Rightarrow> string \<Rightarrow> (nat list \<times> nat option \<times> string) option" where
  "v6_loop ip ell s =
     (if 16 \<le> length ip then Some (ip, ell, s)
      else
        let hx = hex_run s; rest = drop (length hx) s in
        if 4 < length hx \<or> hx = [] then None
        else if rest \<noteq> [] \<and> hd rest = CHR ''.'' then
          (if ell = None \<and> length ip \<noteq> 12 then None
           else if 16 < length ip + 4 then None
           else map_option (\<lambda>fs. (ip @ fs, ell, [])) (parseIPv4Fields s))
        else
          let ip' = ip @ [read_hex hx div 256, read_hex hx mod 256] in
          if rest = [] then Some (ip', ell, [])
          else if hd rest \<noteq> CHR '':'' \<or> length rest = 1 then None
          else
            let s' = tl rest in
            if hd s' = CHR '':'' then
              (if ell \<noteq> None then None
               else if tl s' = [] then Some (ip', Some (length ip'), [])
               else v6_loop ip' (Some (length ip')) (tl s'))
            else v6_loop ip' ell s')"
  by pat_completeness auto
termination
proof (relation "measure (\<lambda>(ip, ell, s). length s)", goal_cases)
  case 1
  show ?case by simp
next
  case (2 ip ell s x xa xb xc)
  then show ?case by (cases "hex_run s") auto
next
  case (3 ip ell s x xa xb xc)
  then show ?case by (cases "hex_run s") auto
qed

declare v6_loop.simps [simp del]

definition v6_finish :: "nat list \<times> nat option \<times> string \<Rightarrow> ip option" where
  "v6_finish r =
     (case r of (ip, ell, s) \<Rightarrow>
        if s \<noteq> [] then None
        else if length ip < 16 then
          (case ell of None \<Rightarrow> None
           | Some e \<Rightarrow> Some (take e ip @ replicate (16 - length ip) 0 @ drop e ip))
        else if ell \<noteq> None then None
        else Some ip)"

text \<open>An address with a zone is refused by \<open>net.ParseIP\<close>.\<close>

definition parseIPv6 :: "string \<Rightarrow> ip option" where
  "parseIPv6 s =
     (if CHR ''%'' \<in> set s then None
      else if take 2 s = ''::'' then
        (if drop 2 s = [] then Some (replicate 16 0)
         else Option.bind (v6_loop [] (Some 0) (drop 2 s)) v6_finish)
      else Option.bind (v6_loop [] None s) v6_finish)"

section \<open>ParseIP, To4, JoinHostPort\<close>

definition parseIP :: "string \<Rightarrow> ip option" where
  "parseIP s =
     (case dropWhile (\<lambda>c. c \<notin> set ''.:%'') s of
        [] \<Rightarrow> None
      | c # _ \<Rightarrow> (if c = CHR ''.'' then parseIPv4 s else if c = CHR '':'' then parseIPv6 s else None))"

definition to4 :: "ip \<Rightarrow> nat list option" where
  "to4 ip = (if length ip = 16 \<and> take 12 ip = v4_prefix then Some (drop 12 ip) else None)"

definition joinHostPort :: "string \<Rightarrow> string \<Rightarrow> string" where
  "joinHostPort host port =
     (if CHR '':'' \<in> set host then ''['' @ host @ '']:'' @ port else host @ '':'' @ port)"

section \<open>Facts\<close>

lemma show_nat_octet:
  assumes "a < 256"
  obtains "a < 10" "show_nat a = [digit_char a]"
  | d e where "d < 10" "e < 10" "0 < d" "a = 10 * d + e" "show_nat a = [digit_char d, digit_char e]"
  | d e f where "d < 10" "e < 10" "f < 10" "0 < d" "a = 100 * d + 10 * e + f"
      "show_nat a = [digit_char d, digit_char e, digit_char f]"
proof -
  consider "a < 10" | "10 \<le> a" "a < 100" | "100 \<le> a" by linarith
  then show thesis
  proof cases
    case 1
    then show thesis by (intro that(1)) (simp_all add: show_nat.simps)
  next
    case 2
    then have "show_nat a = [digit_char (a div 10), digit_char (a mod 10)]"
      by (simp add: show_nat.simps)
    with 2 show thesis by (intro that(2) [of "a div 10" "a mod 10"]) auto
  next
    case 3
    have d: "a div 10 mod 10 + 10 * (a div 100) = a div 10"
      using mod_mult_div_eq [of "a div 10" 10] div_mult2_eq [of a 10 10] by simp
    from 3 assms have "\<not> a div 10 < 10" and "a div 100 < 10" by linarith+
    with 3 have "show_nat a = [digit_char (a div 100), digit_char (a div 10 mod 10), digit_char (a mod 10)]"
      by (simp add: show_nat.simps div_mult2_eq [symmetric])
    moreover have "a = 100 * (a div 100) + 10 * (a div 10 mod 10) + a mod 10"
      using d mult_div_mod_eq [of 10 a] by linarith
    ultimately show thesis
      using 3 assms by (intro that(3) [of "a div 100" "a div 10 mod 10" "a mod 10"]) auto
  qed
qed

lemma v4_fields_octet [go_net]:
  assumes "a < 256"
  shows "v4_fields dot 0 0 fs (show_nat a @ rest)
       = v4_fields False a (length (show_nat a)) fs rest"
  using assms
proof (cases a rule: show_nat_octet)
  case 1
  then show ?thesis by simp
next
  case (2 d e)
  with assms show ?thesis by (simp add: algebra_simps)
next
  case (3 d e f)
  with assms show ?thesis by (simp add: algebra_simps)
qed

definition show_v4 :: "nat \<Rightarrow> nat \<Rightarrow> nat \<Rightarrow> nat \<Rightarrow> string" where
  "show_v4 a b c d =
     show_nat a @ ''.'' @ show_nat b @ ''.'' @ show_nat c @ ''.'' @ show_nat d"

lemma is_digit_not_sep: "is_digit c \<Longrightarrow> c \<noteq> CHR ''.'' \<and> c \<noteq> CHR '':'' \<and> c \<noteq> CHR ''%''"
  by (auto simp: is_digit_def)

lemma parseIP_show_v4 [go_net]:
  assumes "a < 256" "b < 256" "c < 256" "d < 256"
  shows "parseIP (show_v4 a b c d) = Some (v4_prefix @ [a, b, c, d])"
proof -
  have "is_digit (CHR ''.'') = False" by (simp add: is_digit_def)
  then have "parseIPv4Fields (show_v4 a b c d) = Some [a, b, c, d]"
    using assms v4_fields_octet [OF assms(4), of True "[a, b, c]" "[]"]
    by (simp add: parseIPv4Fields_def show_v4_def v4_fields_octet)
  moreover have "\<forall>x\<in>set (show_nat a). x \<notin> set ''.:%''"
    using show_nat_digits [of a] is_digit_not_sep by (auto simp: list_all_iff)
  then have "dropWhile (\<lambda>c. c \<notin> set ''.:%'') (show_v4 a b c d)
      = dropWhile (\<lambda>c. c \<notin> set ''.:%'') (''.'' @ show_nat b @ ''.'' @ show_nat c @ ''.'' @ show_nat d)"
    unfolding show_v4_def by (intro dropWhile_append2) blast
  ultimately show ?thesis by (simp add: parseIP_def parseIPv4_def)
qed

lemma to4_v4 [go_net, simp]: "length fs = 4 \<Longrightarrow> to4 (v4_prefix @ fs) = Some fs"
  by (simp add: to4_def v4_prefix_def)

end
