(* ===== verification/Mount.thy ===== *)
theory Mount
  imports Ports Go_Path Go_Net
begin

text \<open>
  Socket mounts (internal/proxy/proxy.go, lines 840-1010, and internal/proxy/unix.go):
  \<open>UnixAddress\<close>, \<open>newUnixSocketMount\<close>, \<open>newSocketMount\<close> and the methods of \<open>socketMount\<close>. The
  operating system is explicit state: the paths created, the listeners open (handle, network,
  address), the next handle, the permissions set. What the system decides (whether a call
  fails) and what the dialer answers are parameters.
\<close>

section \<open>The operating system and the dialer\<close>

record os =
  os_paths :: "string list"
  os_listeners :: "(nat \<times> string \<times> string) list"
  os_next :: nat
  os_chmods :: "(string \<times> nat) list"

record sys =
  stat_err :: "os \<Rightarrow> string \<Rightarrow> go_error option"
  mkdir_err :: "os \<Rightarrow> string \<Rightarrow> go_error option"
  listen_err :: "os \<Rightarrow> string \<Rightarrow> string \<Rightarrow> go_error option"
  close_err :: "os \<Rightarrow> nat \<Rightarrow> go_error option"
  EngineVersion :: "os \<Rightarrow> string \<Rightarrow> string outcome"

definition os_Mkdir :: "sys \<Rightarrow> string \<Rightarrow> os \<Rightarrow> go_error option \<times> os" where
  "os_Mkdir sys p s =
     (case mkdir_err sys s p of Some e \<Rightarrow> (Some e, s) | None \<Rightarrow> (None, s\<lparr>os_paths := p # os_paths s\<rparr>))"

definition net_Listen :: "sys \<Rightarrow> string \<Rightarrow> string \<Rightarrow> os \<Rightarrow> nat outcome \<times> os" where
  "net_Listen sys network address s =
     (case listen_err sys s network address of
        Some e \<Rightarrow> (Err e, s)
      | None \<Rightarrow> (Ok (os_next s),
          s\<lparr>os_listeners := os_listeners s @ [(os_next s, network, address)], os_next := Suc (os_next s)\<rparr>))"

definition os_Chmod :: "string \<Rightarrow> nat \<Rightarrow> os \<Rightarrow> os" where
  "os_Chmod p mode s = s\<lparr>os_chmods := (p, mode) # os_chmods s\<rparr>"

text \<open>Closing a listener releases it even if the call reports an error; twice is an error.\<close>

definition ln_Close :: "sys \<Rightarrow> nat \<Rightarrow> os \<Rightarrow> go_error option \<times> os" where
  "ln_Close sys h s =
     (if h \<in> fst ` set (os_listeners s)
      then (close_err sys s h, s\<lparr>os_listeners := filter (\<lambda>l. fst l \<noteq> h) (os_listeners s)\<rparr>)
      else (Some (ErrorString ''use of closed network connection''), s))"

section \<open>Unix sockets\<close>

definition UnixAddress :: "string \<Rightarrow> string \<Rightarrow> string" where
  "UnixAddress d inst = join2 d inst"

abbreviation pgsql :: string where
  "pgsql \<equiv> ''.s.PGSQL.5432''"

definition newUnixSocketMount ::
  "sys \<Rightarrow> InstanceConnConfig \<Rightarrow> string \<Rightarrow> bool \<Rightarrow> os \<Rightarrow> string outcome \<times> os" where
  "newUnixSocketMount sys inst unixSocketDir postgres s =
     (let (address, d) =
        (if ic_UnixSocketPath inst \<noteq> [] then
           let address = ic_UnixSocketPath inst;
               address = (if postgres \<and> base address = pgsql then dir address else address)
           in (address, dir address)
         else
           let d = (if unixSocketDir = [] then ic_UnixSocket inst else unixSocketDir)
           in (UnixAddress d (ic_Name inst), d))
      in case stat_err sys s d of
           Some e \<Rightarrow> (Err e, s)
         | None \<Rightarrow>
             if postgres then
               (case stat_err sys s address of
                  None \<Rightarrow> (Ok (UnixAddress address pgsql), s)
                | Some _ \<Rightarrow>
                   (case os_Mkdir sys address s of
                      (Some e, s') \<Rightarrow> (Err e, s')
                    | (None, s') \<Rightarrow> (Ok (UnixAddress address pgsql), s')))
             else (Ok address, s))"

section \<open>Socket mounts\<close>

record socketMount =
  sm_inst :: string
  sm_listener :: nat
  sm_dialOpts :: "DialOption list"

definition socketMount_Close :: "sys \<Rightarrow> socketMount \<Rightarrow> os \<Rightarrow> go_error option \<times> os" where
  "socketMount_Close sys m s = ln_Close sys (sm_listener m) s"

definition socketMount_Addr :: "socketMount \<Rightarrow> os \<Rightarrow> (string \<times> string) option" where
  "socketMount_Addr m s = map_of (os_listeners s) (sm_listener m)"

text \<open>The TCP network by the family of the bind address, and the port of the listener.\<close>

definition tcpNetwork :: "string \<Rightarrow> string" where
  "tcpNetwork a =
     (case parseIP a of
        None \<Rightarrow> ''tcp''
      | Some ip \<Rightarrow> (if to4 ip \<noteq> None then ''tcp4'' else ''tcp6''))"

text \<open>
  A method call on the port configuration dereferences the pointer: a nil \<open>pc\<close> panics. A
  dialer that panics takes the caller with it.
\<close>

definition listenPort ::
  "sys \<Rightarrow> Config \<Rightarrow> portConfig option \<Rightarrow> InstanceConnConfig \<Rightarrow> os \<Rightarrow> int outcome \<times> portConfig option" where
  "listenPort sys conf pc inst s =
     (let call = (\<lambda>f. case pc of None \<Rightarrow> (Panic, None) | Some c \<Rightarrow> (let (p, c') = f c in (Ok p, Some c')))
      in if ic_Port inst \<noteq> 0 then (Ok (ic_Port inst), pc)
         else if cf_Port conf \<noteq> 0 then call nextPort
         else if sqlDataOn conf inst then call (nextDBPort ''POSTGRES'')
         else (case EngineVersion sys s (ic_Name inst) of
                 Ok version \<Rightarrow> call (nextDBPort version)
               | Err e \<Rightarrow> (Err e, pc)
               | Panic \<Rightarrow> (Panic, pc)))"

text \<open>Network and address of the listener; the port counters and the system may change.\<close>

definition listenAddress ::
  "sys \<Rightarrow> Config \<Rightarrow> portConfig option \<Rightarrow> InstanceConnConfig \<Rightarrow> os \<Rightarrow>
     (string \<times> string) outcome \<times> portConfig option \<times> os" where
  "listenAddress sys conf pc inst s =
     (if networkType conf inst = ''tcp'' then
        let a = (if ic_Addr inst \<noteq> [] then ic_Addr inst else cf_Addr conf) in
        (case listenPort sys conf pc inst s of
           (Ok np, pc') \<Rightarrow> (Ok (tcpNetwork a, joinHostPort a (show_int np)), pc', s)
         | (Err e, pc') \<Rightarrow> (Err e, pc', s)
         | (Panic, pc') \<Rightarrow> (Panic, pc', s))
      else
        (case (if sqlDataOn conf inst then Ok ''POSTGRES'' else EngineVersion sys s (ic_Name inst)) of
           Err e \<Rightarrow> (Err e, pc, s)
         | Panic \<Rightarrow> (Panic, pc, s)
         | Ok version \<Rightarrow>
            (case newUnixSocketMount sys inst (cf_UnixSocket conf) (hasPrefix version ''POSTGRES'') s of
               (Ok address, s') \<Rightarrow> (Ok (''unix'', address), pc, s')
             | (Err e, s') \<Rightarrow> (Err e, pc, s')
             | (Panic, s') \<Rightarrow> (Panic, pc, s'))))"

definition newSocketMount ::
  "sys \<Rightarrow> Config \<Rightarrow> portConfig option \<Rightarrow> InstanceConnConfig \<Rightarrow> os \<Rightarrow>
     socketMount outcome \<times> portConfig option \<times> os" where
  "newSocketMount sys conf pc inst s =
     (case listenAddress sys conf pc inst s of
        (Err e, pc', s') \<Rightarrow> (Err e, pc', s')
      | (Panic, pc', s') \<Rightarrow> (Panic, pc', s')
      | (Ok (network, address), pc', s') \<Rightarrow>
         (case net_Listen sys network address s' of
            (Ok ln, s'') \<Rightarrow>
              (Ok \<lparr>sm_inst = ic_Name inst, sm_listener = ln, sm_dialOpts = dialOptions conf inst\<rparr>, pc',
               if network = ''unix'' then os_Chmod address 511 s'' else s'')
          | (Err e, s'') \<Rightarrow> (Err e, pc', s'')
          | (Panic, s'') \<Rightarrow> (Panic, pc', s'')))"

text \<open>The configuration the FUSE file system mounts with (internal/proxy/proxy_other.go).\<close>

definition withUnixSocket :: "Config \<Rightarrow> string \<Rightarrow> Config" where
  "withUnixSocket c tmpDir = c\<lparr>cf_UnixSocket := tmpDir\<rparr>"

section \<open>Facts about Unix sockets\<close>

lemma plain_pgsql [simp]: "plain pgsql"
  by (simp add: plain_def is_elem_def)

lemma os_Mkdir_listeners [frame]: "os_listeners (snd (os_Mkdir sys p s)) = os_listeners s"
  "os_next (snd (os_Mkdir sys p s)) = os_next s"
  by (simp_all add: os_Mkdir_def split: option.split)

lemma newUnixSocketMount_listeners [frame]:
  "os_listeners (snd (newUnixSocketMount sys inst d pg s)) = os_listeners s
   \<and> os_next (snd (newUnixSocketMount sys inst d pg s)) = os_next s"
  using os_Mkdir_listeners
  by (auto simp: newUnixSocketMount_def Let_def case_prod_unfold split: option.split prod.split)

lemma newUnixSocketMount_no_panic: "fst (newUnixSocketMount sys inst d pg s) \<noteq> Panic"
  by (auto simp: newUnixSocketMount_def Let_def case_prod_unfold split: option.split prod.split)

lemma newUnixSocketMount_Ok_postgres:
  assumes "newUnixSocketMount sys inst d True s = (Ok address, s')"
  shows "\<exists>a. address = UnixAddress a pgsql
    \<and> (stat_err sys s a = None \<and> s' = s \<or> s' = s\<lparr>os_paths := a # os_paths s\<rparr>)"
  using assms
  by (auto simp: newUnixSocketMount_def Let_def case_prod_unfold os_Mkdir_def
      split: option.splits prod.splits if_splits)

section \<open>Facts about mounts\<close>

lemma listenPort_err_pc: "fst (listenPort sys conf pc inst s) = Err e \<Longrightarrow> snd (listenPort sys conf pc inst s) = pc"
  by (auto simp: listenPort_def Let_def case_prod_unfold split: option.splits outcome.splits if_splits)

lemma listenAddress_frame [frame]:
  "os_listeners (snd (snd (listenAddress sys conf pc inst s))) = os_listeners s
   \<and> os_next (snd (snd (listenAddress sys conf pc inst s))) = os_next s"
proof -
  have "\<And>pg. os_listeners (snd (newUnixSocketMount sys inst (cf_UnixSocket conf) pg s)) = os_listeners s
      \<and> os_next (snd (newUnixSocketMount sys inst (cf_UnixSocket conf) pg s)) = os_next s"
    by (rule newUnixSocketMount_listeners)
  then show ?thesis
    by (auto simp: listenAddress_def Let_def case_prod_unfold split: outcome.split prod.split)
qed

lemma net_Listen_cases:
  obtains (Ok) "net_Listen sys network address s = (Ok (os_next s),
      s\<lparr>os_listeners := os_listeners s @ [(os_next s, network, address)], os_next := Suc (os_next s)\<rparr>)"
  | (Err) e where "net_Listen sys network address s = (Err e, s)"
  by (cases "listen_err sys s network address") (simp_all add: net_Listen_def)

text \<open>The two ways a mount attempt ends.\<close>

lemma newSocketMount_cases:
  obtains (mounted) m pc' s' network address where
      "newSocketMount sys conf pc inst s = (Ok m, pc', s')"
      "sm_inst m = ic_Name inst" "sm_listener m = os_next s" "sm_dialOpts m = dialOptions conf inst"
      "os_listeners s' = os_listeners s @ [(os_next s, network, address)]" "os_next s' = Suc (os_next s)"
      "fst (listenAddress sys conf pc inst s) = Ok (network, address)"
  | (failed) r pc' s' where
      "newSocketMount sys conf pc inst s = (r, pc', s')" "\<not> is_Ok r"
      "os_listeners s' = os_listeners s" "os_next s' = os_next s"
proof (cases "listenAddress sys conf pc inst s")
  case (fields a pc' s1)
  have fr: "os_listeners s1 = os_listeners s" "os_next s1 = os_next s"
    using listenAddress_frame [of sys conf pc inst s] fields by auto
  show thesis
  proof (cases a)
    case (Ok na)
    obtain network address where na: "na = (network, address)" by (cases na)
    show thesis
    proof (cases rule: net_Listen_cases [of sys network address s1])
      case listened: Ok
      define s2 where "s2 = s1\<lparr>os_listeners := os_listeners s1 @ [(os_next s1, network, address)],
        os_next := Suc (os_next s1)\<rparr>"
      have "newSocketMount sys conf pc inst s =
        (Ok \<lparr>sm_inst = ic_Name inst, sm_listener = os_next s1, sm_dialOpts = dialOptions conf inst\<rparr>, pc',
         if network = ''unix'' then os_Chmod address 511 s2 else s2)"
        by (simp add: newSocketMount_def fields Ok na listened s2_def)
      then show thesis by (rule mounted) (simp_all add: fields Ok na fr os_Chmod_def s2_def)
    next
      case (Err e)
      have "newSocketMount sys conf pc inst s = (outcome.Err e, pc', s1)"
        by (simp add: newSocketMount_def fields Ok na Err)
      then show thesis by (rule failed) (simp_all add: fr)
    qed
  next
    case (Err e)
    have "newSocketMount sys conf pc inst s = (outcome.Err e, pc', s1)"
      by (simp add: newSocketMount_def fields Err)
    then show thesis by (rule failed) (simp_all add: fr)
  next
    case Panic
    have "newSocketMount sys conf pc inst s = (outcome.Panic, pc', s1)"
      by (simp add: newSocketMount_def fields Panic)
    then show thesis by (rule failed) (simp_all add: fr)
  qed
qed

lemma show_v4_no_colon [simp]: "CHR '':'' \<notin> set (show_v4 a b c d)"
proof -
  have "CHR '':'' \<notin> set (show_nat n)" for n
    using show_nat_digits [of n] by (auto simp: list_all_iff is_digit_def)
  then show ?thesis by (simp add: show_v4_def)
qed

section \<open>Properties\<close>

text \<open>
  For a Postgres instance the socket address always ends in the element
  \<open>.s.PGSQL.5432\<close>, whatever the configured path is, and the directory it stands in exists: it
  was there before or the call created it.
\<close>

theorem newUnixSocketMount_postgres:
  assumes "newUnixSocketMount sys inst d True s = (Ok address, s')"
  shows "base address = pgsql
    \<and> (\<exists>a. address = UnixAddress a pgsql
         \<and> (stat_err sys s a = None \<and> s' = s \<or> s' = s\<lparr>os_paths := a # os_paths s\<rparr>))"
proof -
  obtain a where a: "address = UnixAddress a pgsql"
    "stat_err sys s a = None \<and> s' = s \<or> s' = s\<lparr>os_paths := a # os_paths s\<rparr>"
    using newUnixSocketMount_Ok_postgres [OF assms] by blast
  have "base address = pgsql" by (simp add: a(1) UnixAddress_def base_join2)
  with a show ?thesis by blast
qed

text \<open>A system where a path exists once created and nothing else fails, for the witnesses.\<close>

definition plain_sys :: "(string \<Rightarrow> string) \<Rightarrow> sys" where
  "plain_sys version =
     \<lparr>stat_err = (\<lambda>s p. if p \<in> set (os_paths s) then None else Some (ErrorString ''no such file'')),
      mkdir_err = (\<lambda>s p. None), listen_err = (\<lambda>s n a. None), close_err = (\<lambda>s h. None),
      EngineVersion = (\<lambda>s i. Ok (version i))\<rparr>"

definition init_os :: "string list \<Rightarrow> os" where
  "init_os ps = \<lparr>os_paths = ps, os_listeners = [], os_next = 0, os_chmods = []\<rparr>"

theorem newUnixSocketMount_postgres_witness:
  "base ''/tmp/p:r:i/.s.PGSQL.5432'' = pgsql"
proof -
  have j: "join2 ''/tmp'' ''p:r:i'' = ''/tmp/p:r:i''" "join2 ''/tmp/p:r:i'' pgsql = ''/tmp/p:r:i/.s.PGSQL.5432''"
    by code_simp+
  have "newUnixSocketMount (plain_sys (\<lambda>_. ''POSTGRES'')) (zero_inst\<lparr>ic_Name := ''p:r:i''\<rparr>) ''/tmp'' True
      (init_os [''/tmp'']) =
      (Ok ''/tmp/p:r:i/.s.PGSQL.5432'', (init_os [''/tmp''])\<lparr>os_paths := [''/tmp/p:r:i'', ''/tmp'']\<rparr>)"
    by (simp add: newUnixSocketMount_def plain_sys_def init_os_def zero_inst_def UnixAddress_def
        os_Mkdir_def j)
  from newUnixSocketMount_postgres [OF this] show ?thesis by simp
qed

text \<open>
  Giving \<open>unix-socket-path\<close> with or without the trailing \<open>.s.PGSQL.5432\<close> is the same for a
  Postgres instance: same address, same effect on the file system, for every cleaned path.
\<close>

theorem newUnixSocketMount_suffix_optional:
  assumes "clean p = p" and "base p \<noteq> pgsql"
  shows "newUnixSocketMount sys (inst\<lparr>ic_UnixSocketPath := UnixAddress p pgsql\<rparr>) d True s
       = newUnixSocketMount sys (inst\<lparr>ic_UnixSocketPath := p\<rparr>) d True s"
proof -
  have p: "p \<noteq> []" using assms(1) clean_nonempty [of p] by auto
  have "join2 p pgsql \<noteq> []" using p clean_nonempty by (simp add: join2_def)
  moreover have "base (join2 p pgsql) = pgsql" by (simp add: base_join2)
  moreover have "dir (join2 p pgsql) = p" using dir_join2 [OF p plain_pgsql] assms(1) by simp
  ultimately show ?thesis
    using assms p by (simp add: newUnixSocketMount_def UnixAddress_def)
qed

theorem newUnixSocketMount_suffix_optional_witness:
  "newUnixSocketMount (plain_sys (\<lambda>_. ''POSTGRES'')) (zero_inst\<lparr>ic_UnixSocketPath := ''/db/.s.PGSQL.5432''\<rparr>)
     [] True (init_os [''/'']) =
   newUnixSocketMount (plain_sys (\<lambda>_. ''POSTGRES'')) (zero_inst\<lparr>ic_UnixSocketPath := ''/db''\<rparr>)
     [] True (init_os [''/''])"
proof -
  have "clean ''/db'' = ''/db''" "base ''/db'' \<noteq> pgsql" "UnixAddress ''/db'' pgsql = ''/db/.s.PGSQL.5432''"
    by code_simp+
  then show ?thesis
    using newUnixSocketMount_suffix_optional [of "''/db''" "plain_sys (\<lambda>_. ''POSTGRES'')" zero_inst "[]" "init_os [''/'']"]
    by simp
qed

text \<open>
  A mount attempt opens exactly one listener when it succeeds, the one the returned
  mount holds, with the instance's name and dial options; when it fails it leaves no
  listener behind.
\<close>

theorem newSocketMount_listeners:
  "case newSocketMount sys conf pc inst s of
     (Ok m, pc', s') \<Rightarrow>
        sm_inst m = ic_Name inst \<and> sm_dialOpts m = dialOptions conf inst \<and> sm_listener m = os_next s
        \<and> (\<exists>network address. os_listeners s' = os_listeners s @ [(sm_listener m, network, address)]
              \<and> fst (listenAddress sys conf pc inst s) = Ok (network, address))
   | (_, pc', s') \<Rightarrow> os_listeners s' = os_listeners s"
  by (cases rule: newSocketMount_cases [of sys conf pc inst s]) (auto split: outcome.split)

text \<open>
  The FUSE file system mounts with a nil port configuration. With its temporary
  directory as Unix socket directory and an instance that has only a name, the mount never
  dereferences it: no panic unless the dialer panics, and a Unix socket is what it opens.
\<close>

theorem newSocketMount_fuse_safe:
  assumes "tmpDir \<noteq> []" and "EngineVersion sys s name \<noteq> Panic"
  shows "case newSocketMount sys (withUnixSocket conf tmpDir) None (zero_inst\<lparr>ic_Name := name\<rparr>) s of
     (Panic, _) \<Rightarrow> False
   | (Ok m, pc', s') \<Rightarrow> (\<exists>address. os_listeners s' = os_listeners s @ [(sm_listener m, ''unix'', address)])
   | (Err e, _) \<Rightarrow> True"
proof -
  let ?c = "withUnixSocket conf tmpDir" and ?i = "zero_inst\<lparr>ic_Name := name\<rparr>"
  have net: "networkType ?c ?i = ''unix''"
    using assms(1) by (simp add: networkType_def withUnixSocket_def zero_inst_def)
  have np: "fst (newUnixSocketMount sys ?i tmpDir pg s) \<noteq> Panic" for pg
    by (rule newUnixSocketMount_no_panic)
  have "fst (listenAddress sys ?c None ?i s) \<noteq> Panic
     \<and> (\<forall>n a. fst (listenAddress sys ?c None ?i s) = Ok (n, a) \<longrightarrow> n = ''unix'')"
    using np assms(2) net
    by (auto simp: listenAddress_def withUnixSocket_def sqlDataOn_def split: outcome.split prod.splits)
       (metis fst_conv)+
  note la = this
  have "fst (newSocketMount sys ?c None ?i s) \<noteq> Panic"
    using la by (cases "listenAddress sys ?c None ?i s")
      (auto simp: newSocketMount_def net_Listen_def split: outcome.split option.split)
  then show ?thesis
    using la by (cases rule: newSocketMount_cases [of sys ?c None ?i s]) (auto split: outcome.split)
qed

theorem newSocketMount_fuse_safe_witness:
  "\<exists>m s'. newSocketMount (plain_sys (\<lambda>_. ''MYSQL_8_0'')) (withUnixSocket zero_Config ''/tmp'') None
      (zero_inst\<lparr>ic_Name := ''p:r:i''\<rparr>) (init_os [''/tmp'']) = (Ok m, None, s')
    \<and> (\<exists>address. os_listeners s' = [(sm_listener m, ''unix'', address)])"
proof -
  let ?r = "newSocketMount (plain_sys (\<lambda>_. ''MYSQL_8_0'')) (withUnixSocket zero_Config ''/tmp'') None
      (zero_inst\<lparr>ic_Name := ''p:r:i''\<rparr>) (init_os [''/tmp''])"
  have "is_Ok (fst ?r) \<and> fst (snd ?r) = None"
    by (simp add: newSocketMount_def listenAddress_def networkType_def withUnixSocket_def zero_inst_def
        zero_Config_def sqlDataOn_def plain_sys_def init_os_def newUnixSocketMount_def hasPrefix_def
        net_Listen_def Let_def)
  then show ?thesis
    using newSocketMount_fuse_safe [of "''/tmp''" "plain_sys (\<lambda>_. ''MYSQL_8_0'')" "init_os [''/tmp'']" "''p:r:i''" zero_Config]
    by (cases ?r) (auto simp: is_Ok_iff plain_sys_def init_os_def)
qed

text \<open>
  A TCP listener on an IPv4 address: with an instance port (which also overrides any
  Unix socket setting), the proxy listens on network \<open>tcp4\<close> at \<open>address:port\<close>, and takes no
  port from the counters.
\<close>

theorem newSocketMount_tcp4:
  assumes "ic_Port inst \<noteq> 0" and "ic_Addr inst = []" and "cf_Addr conf = show_v4 a b c d"
    and "a < 256" "b < 256" "c < 256" "d < 256"
    and "\<And>s n x. listen_err sys s n x = None"
  shows "\<exists>m s'. newSocketMount sys conf pc inst s = (Ok m, pc, s')
    \<and> os_listeners s' = os_listeners s @ [(sm_listener m, ''tcp4'', show_v4 a b c d @ '':'' @ show_int (ic_Port inst))]"
proof -
  have "networkType conf inst = ''tcp''" using assms(1) by (simp add: networkType_def)
  moreover have "tcpNetwork (show_v4 a b c d) = ''tcp4''"
    using assms(4-7) by (simp add: tcpNetwork_def parseIP_show_v4)
  ultimately have "listenAddress sys conf pc inst s =
      (Ok (''tcp4'', show_v4 a b c d @ '':'' @ show_int (ic_Port inst)), pc, s)"
    using assms(1-3) by (simp add: listenAddress_def listenPort_def joinHostPort_def)
  then show ?thesis using assms(8) by (simp add: newSocketMount_def net_Listen_def)
qed

theorem newSocketMount_tcp4_witness:
  "\<exists>m s'. newSocketMount (plain_sys (\<lambda>_. [])) (zero_Config\<lparr>cf_Addr := ''127.0.0.1'', cf_UnixSocket := ''/tmp''\<rparr>)
      None (zero_inst\<lparr>ic_Port := 5000\<rparr>) (init_os []) = (Ok m, None, s')
    \<and> os_listeners s' = [(sm_listener m, ''tcp4'', ''127.0.0.1:5000'')]"
proof -
  have "show_v4 127 0 0 1 = ''127.0.0.1''" "show_int 5000 = ''5000''"
    by (simp_all add: show_v4_def show_eval)
  then show ?thesis
    using newSocketMount_tcp4 [of "zero_inst\<lparr>ic_Port := 5000\<rparr>"
        "zero_Config\<lparr>cf_Addr := ''127.0.0.1'', cf_UnixSocket := ''/tmp''\<rparr>" 127 0 0 1
        "plain_sys (\<lambda>_. [])" None "init_os []"]
    by (simp add: zero_inst_def plain_sys_def init_os_def)
qed

end
