(* ===== verification/Errors.thy ===== *)
theory Errors
  imports Go_Strings
begin

text \<open>
  Error values and their messages: cmd/errors.go (\<open>exitError\<close>, its predefined values and
  \<open>newBadCommandError\<close>) and \<open>MultiErr.Error\<close> of internal/proxy/proxy.go (lines 724-738).
\<close>

section \<open>Messages\<close>

fun MultiErr_Error :: "string list \<Rightarrow> string" where
  "MultiErr_Error [m] = m"
| "MultiErr_Error ms = joins '', '' ms"

fun Error :: "go_error \<Rightarrow> string" where
  "Error EOF = ''EOF''"
| "Error Canceled = ''context canceled''"
| "Error (NetError t m) = m"
| "Error (MultiErr es) = MultiErr_Error (map Error es)"
| "Error (ExitError c None) = ''<missing error>''"
| "Error (ExitError c (Some e)) = Error e"
| "Error (ErrorString m) = m"

lemma MultiErr_Error_joins: "MultiErr_Error ms = joins '', '' ms"
  by (cases ms rule: MultiErr_Error.cases) simp_all

section \<open>Exit errors\<close>

definition errSigInt :: go_error where
  "errSigInt = ExitError 130 (Some (ErrorString ''SIGINT signal received''))"

definition errSigTerm :: go_error where
  "errSigTerm = ExitError 143 (Some (ErrorString ''SIGTERM signal received''))"

definition errSigTermZero :: go_error where
  "errSigTermZero = ExitError 0 (Some (ErrorString ''SIGTERM signal received''))"

definition errQuitQuitQuit :: go_error where
  "errQuitQuitQuit = ExitError 0 (Some (ErrorString ''/quitquitquit received request''))"

definition newBadCommandError :: "string \<Rightarrow> go_error" where
  "newBadCommandError msg = ExitError 1 (Some (ErrorString msg))"

end
