(* ===== verification/Fuse.thy ===== *)
theory Fuse
  imports Conn_Name Mount Errors "HOL-Library.AList" "HOL-Library.Multiset"
begin

text \<open>
  The FUSE file system (internal/proxy/proxy_other.go, fuse.go, fuse_linux.go,
  fuse_darwin.go and the stubs of the platforms without FUSE). Looking up a connection name
  in the mounted directory creates a Unix socket for that instance on demand and answers
  with a symbolic link to it. The registry \<open>fuseSockets\<close> of active sockets is an association
  list; every operation on it runs under \<open>fuseMu\<close>, so it is one step. What a goroutine does before
  it takes the lock and after it gives it back are steps of their own.
\<close>

section \<open>State\<close>

text \<open>\<open>inode\<close> is what a lookup returns: the README, or a symlink with its path.\<close>

datatype inode = Readme | Symlink string

record socketSymlink =
  ss_socket :: socketMount
  ss_symlink :: string

text \<open>
  Where the goroutine in \<open>serveFuse\<close> is: before the mount; past it, so that lookups arrive, before
  the server is recorded; with server and exit channel recorded, before \<open>notify()\<close>; past that,
  before the \<open>select\<close>; in the \<open>select\<close>; returned with an error.
\<close>

datatype serving = NotServing | Mounted | Recorded | Notified | Waiting | ServeReturned go_error

text \<open>
  \<open>fm_fuseWg\<close> is the counter of the wait group. \<open>fm_leaving\<close> is not a field of the program: it counts
  the goroutines of sockets that have taken their socket out of the registry and have yet to call
  \<open>fuseWg.Done\<close>.
\<close>

record fuseMount =
  fm_fuseDir :: string
  fm_fuseTempDir :: string
  fm_fuseSockets :: "(string \<times> socketSymlink) list"
  fm_fuseServer :: bool
  fm_fuseWg :: nat
  fm_leaving :: nat
  fm_serving :: serving

text \<open>
  The client (internal/proxy/proxy.go). Its dialer and logger are parameters of the
  operations; its connection counter is part of the server state.
\<close>

record Client =
  cl_conf :: Config
  cl_mnts :: "socketMount list"
  cl_connRefuseNotify :: bool
  cl_fuse :: fuseMount

definition zero_fuseMount :: fuseMount where
  "zero_fuseMount = \<lparr>fm_fuseDir = [], fm_fuseTempDir = [], fm_fuseSockets = [], fm_fuseServer = False,
     fm_fuseWg = 0, fm_leaving = 0, fm_serving = NotServing\<rparr>"

text \<open>What FUSE needs from outside: creating directories, mounting and unmounting.\<close>

record fuse_env =
  mkdirAll_err :: "os \<Rightarrow> string \<Rightarrow> go_error option"
  fs_Mount_err :: "string \<Rightarrow> go_error option"
  Unmount_err :: "go_error option"

section \<open>Operations\<close>

definition configureFUSE :: "sys \<Rightarrow> fuse_env \<Rightarrow> Client \<Rightarrow> Config \<Rightarrow> os \<Rightarrow> Client outcome \<times> os" where
  "configureFUSE sys fe c conf s =
     (case stat_err sys s (cf_FUSEDir conf) of
        Some e \<Rightarrow> (Err e, s)
      | None \<Rightarrow>
         (case mkdirAll_err fe s (cf_FUSETempDir conf) of
            Some e \<Rightarrow> (Err e, s)
          | None \<Rightarrow>
              (Ok (c\<lparr>cl_fuse := zero_fuseMount\<lparr>fm_fuseDir := cf_FUSEDir conf, fm_fuseTempDir := cf_FUSETempDir conf\<rparr>\<rparr>),
               s\<lparr>os_paths := cf_FUSETempDir conf # os_paths s\<rparr>)))"

text \<open>
  \<open>range\<close> over a Go map visits the entries in an unspecified order, which is the parameter
  \<open>rng\<close> below. File modes are octal: \<open>0555\<close> is 365 and \<open>0777\<close> is 511.
\<close>

datatype file_kind = S_IFREG | S_IFSOCK | S_IFLNK

definition Readdir ::
  "((string \<times> socketSymlink) list \<Rightarrow> (string \<times> socketSymlink) list) \<Rightarrow> Client \<Rightarrow> (string \<times> nat \<times> file_kind) list" where
  "Readdir rng c =
     (''README'', 365, S_IFREG) # map (\<lambda>(a, _). (a, 511, S_IFSOCK)) (rng (fm_fuseSockets (cl_fuse c)))"

text \<open>A lookup finds an inode or fails with \<open>ENOENT\<close>; a panic of the dialer is kept apart.\<close>

datatype lookup_result = Inode inode | ENOENT | Crash

definition add_socket :: "string \<Rightarrow> socketSymlink \<Rightarrow> Client \<Rightarrow> Client" where
  "add_socket inst ss c =
     c\<lparr>cl_fuse := (cl_fuse c)\<lparr>fm_fuseSockets := AList.update inst ss (fm_fuseSockets (cl_fuse c)),
                              fm_fuseWg := fm_fuseWg (cl_fuse c) + 1\<rparr>\<rparr>"

definition Lookup :: "sys \<Rightarrow> string \<Rightarrow> Client \<Rightarrow> os \<Rightarrow> lookup_result \<times> Client \<times> os" where
  "Lookup sys inst c s =
     (if inst = ''README'' then (Inode Readme, c, s)
      else if \<not> is_Ok (parseConnName inst) then (ENOENT, c, s)
      else case map_of (fm_fuseSockets (cl_fuse c)) inst of
          Some l \<Rightarrow> (Inode (Symlink (ss_symlink l)), c, s)
        | None \<Rightarrow>
            (let tmp = fm_fuseTempDir (cl_fuse c) in
             case newSocketMount sys (withUnixSocket (cl_conf c) tmp) None (zero_inst\<lparr>ic_Name := inst\<rparr>) s of
               (Ok m, _, s') \<Rightarrow>
                 (let sl = join2 tmp inst in
                  (Inode (Symlink sl), add_socket inst \<lparr>ss_socket = m, ss_symlink = sl\<rparr> c, s'))
             | (Err _, _, s') \<Rightarrow> (ENOENT, c, s')
             | (Panic, _, s') \<Rightarrow> (Crash, c, s')))"

text \<open>
  The goroutine that serves a socket, after \<open>serveSocketMount\<close> returned an error. Under \<open>fuseMu\<close> it
  removes the socket from the registry and hands the error to \<open>serveFuse\<close> if that is in its
  \<open>select\<close>; the deferred \<open>fuseWg.Done\<close> runs after the lock was given back.
\<close>

definition remove_socket :: "string \<Rightarrow> go_error \<Rightarrow> Client \<Rightarrow> Client" where
  "remove_socket inst sErr c =
     c\<lparr>cl_fuse := (cl_fuse c)\<lparr>fm_fuseSockets := AList.delete inst (fm_fuseSockets (cl_fuse c)),
         fm_serving := (if fm_serving (cl_fuse c) = Waiting then ServeReturned sErr else fm_serving (cl_fuse c)),
         fm_leaving := fm_leaving (cl_fuse c) + 1\<rparr>\<rparr>"

definition fuseWg_Done :: "Client \<Rightarrow> Client" where
  "fuseWg_Done c =
     c\<lparr>cl_fuse := (cl_fuse c)\<lparr>fm_fuseWg := fm_fuseWg (cl_fuse c) - 1, fm_leaving := fm_leaving (cl_fuse c) - 1\<rparr>\<rparr>"

text \<open>
  \<open>serveFuse\<close> step by step: the mount or its error; recording the server and making the exit
  channel; \<open>notify()\<close>, whose effect is elsewhere; reaching the \<open>select\<close>. \<open>serveFuse\<close> is all of it, up
  to the \<open>select\<close>, and \<open>serveFuse_done\<close> is the \<open>select\<close> when the context ends.
\<close>

definition set_serving :: "serving \<Rightarrow> Client \<Rightarrow> Client" where
  "set_serving v c = c\<lparr>cl_fuse := (cl_fuse c)\<lparr>fm_serving := v\<rparr>\<rparr>"

definition mount_error :: "fuse_env \<Rightarrow> Client \<Rightarrow> go_error option" where
  "mount_error fe c =
     (case fs_Mount_err fe (fm_fuseDir (cl_fuse c)) of
        Some e \<Rightarrow> Some (ErrorString (''FUSE mount failed: '' @ quote (fm_fuseDir (cl_fuse c)) @ '': '' @ Error e))
      | None \<Rightarrow> None)"

definition record_server :: "Client \<Rightarrow> Client" where
  "record_server c = c\<lparr>cl_fuse := (cl_fuse c)\<lparr>fm_fuseServer := True, fm_serving := Recorded\<rparr>\<rparr>"

definition serveFuse :: "fuse_env \<Rightarrow> Client \<Rightarrow> go_error option \<times> Client" where
  "serveFuse fe c =
     (case mount_error fe c of
        Some e \<Rightarrow> (Some e, c)
      | None \<Rightarrow> (None, set_serving Waiting (set_serving Notified (record_server (set_serving Mounted c)))))"

definition serveFuse_done :: "Client \<Rightarrow> Client" where
  "serveFuse_done c =
     (if fm_serving (cl_fuse c) = Waiting
      then c\<lparr>cl_fuse := (cl_fuse c)\<lparr>fm_serving := ServeReturned Canceled\<rparr>\<rparr> else c)"

definition fuseMounts ::
  "((string \<times> socketSymlink) list \<Rightarrow> (string \<times> socketSymlink) list) \<Rightarrow> Client \<Rightarrow> socketMount list" where
  "fuseMounts rng c = map (\<lambda>(_, m). ss_socket m) (rng (fm_fuseSockets (cl_fuse c)))"

definition unmountFUSE :: "fuse_env \<Rightarrow> Client \<Rightarrow> go_error option" where
  "unmountFUSE fe c = (if \<not> fm_fuseServer (cl_fuse c) then None else Unmount_err fe)"

text \<open>\<open>waitForFUSEMounts\<close> returns when the wait group is empty.\<close>

definition waitForFUSEMounts :: "Client \<Rightarrow> bool" where
  "waitForFUSEMounts c \<longleftrightarrow> fm_fuseWg (cl_fuse c) = 0"

definition symlink_Readlink :: "inode \<Rightarrow> string option" where
  "symlink_Readlink i = (case i of Symlink p \<Rightarrow> Some p | Readme \<Rightarrow> None)"

definition readmeText :: string where
  "readmeText = (let nl = [CHR 0x0A]; tab = [CHR 0x09]; q = [CHR 0x22] in joins nl [
     [],
     ''When applications attempt to open files in this directory, a remote connection'',
     ''to the Cloud SQL instance of the same name will be established.'',
     [],
     ''For example, when you run one of the following commands, the proxy will initiate'',
     ''a connection to the corresponding Cloud SQL instance, given you have the correct'',
     ''IAM permissions.'',
     [],
     tab @ ''mysql -u root -S '' @ q @ ''/somedir/project:region:instance'' @ q,
     [],
     ''    # or'',
     [],
     tab @ ''psql '' @ q @ ''host=/somedir/project:region:instance dbname=mydb user=myuser'' @ q,
     [],
     ''For MySQL, the proxy will create a socket with the instance connection name'',
     ''(e.g., project:region:instance) in this directory. For Postgres, the proxy will'',
     ''create a directory with the instance connection name, and create a socket inside'',
     ''that directory with the special Postgres name: .s.PGSQL.5432.'',
     [],
     ''Listing the contents of this directory will show all instances with active'',
     ''connections.'',
     []])"

definition readme_Getattr :: "nat \<times> file_kind \<times> nat" where
  "readme_Getattr = (292, S_IFREG, length readmeText)"

text \<open>Slicing \<open>text[off:end]\<close> panics unless \<open>0 <= off <= end\<close>.\<close>

definition readme_Read :: "nat \<Rightarrow> int \<Rightarrow> string outcome" where
  "readme_Read len_dest off =
     (let e = int64 (off + int len_dest);
          e = (if e > int (length readmeText) then int (length readmeText) else e)
      in if 0 \<le> off \<and> off \<le> e then Ok (drop (nat off) (take (nat e) readmeText)) else Panic)"

text \<open>Opening the README: a read-only handle on the text, no flags, and \<open>fs.OK\<close>.\<close>

datatype file_handle = DataFile string | ReadOnlyFile file_handle

definition readme_Open :: "file_handle \<times> nat \<times> nat" where
  "readme_Open = (let df = DataFile readmeText; rf = ReadOnlyFile df in (rf, 0, 0))"

text \<open>Whether the platform supports FUSE: Linux, macOS, and the platforms without it.\<close>

definition SupportsFUSE_linux :: "(string \<Rightarrow> go_error option) \<Rightarrow> go_error option" where
  "SupportsFUSE_linux lookPath =
     (if lookPath ''fusermount'' \<noteq> None \<and> lookPath ''/bin/fusermount'' \<noteq> None
      then Some (ErrorString ''fusermount binary not found in PATH or /bin'') else None)"

definition macfusePath :: string where
  "macfusePath = ''/Library/Filesystems/macfuse.fs/Contents/Resources/mount_macfuse''"

definition osxfusePath :: string where
  "osxfusePath = ''/Library/Filesystems/osxfuse.fs/Contents/Resources/mount_osxfuse''"

definition SupportsFUSE_darwin :: "(string \<Rightarrow> go_error option) \<Rightarrow> go_error option" where
  "SupportsFUSE_darwin stat =
     (if stat macfusePath \<noteq> None \<and> stat osxfusePath \<noteq> None
      then Some (ErrorString (''failed to find osxfuse or macfuse: verify FUSE installation and try again ''
             @ ''(see https://osxfuse.github.io)''))
      else None)"

definition SupportsFUSE_windows :: "go_error option" where
  "SupportsFUSE_windows = Some (ErrorString ''FUSE is not supported on Windows'')"

definition SupportsFUSE_openbsd :: "go_error option" where
  "SupportsFUSE_openbsd = Some (ErrorString ''FUSE is not supported on OpenBSD'')"

definition SupportsFUSE_freebsd :: "go_error option" where
  "SupportsFUSE_freebsd = Some (ErrorString ''FUSE is not supported on FreeBSD'')"

section \<open>The registry as an interface\<close>

text \<open>
  What the file system relies on of the map from instances to sockets: finite maps with
  update and delete, and a listing of the names without repetition.
\<close>

locale socket_registry =
  fixes find :: "'r \<Rightarrow> 'k \<Rightarrow> 'v option"
    and store :: "'k \<Rightarrow> 'v \<Rightarrow> 'r \<Rightarrow> 'r"
    and remove :: "'k \<Rightarrow> 'r \<Rightarrow> 'r"
    and names :: "'r \<Rightarrow> 'k list"
    and wf :: "'r \<Rightarrow> bool"
  assumes find_store: "find (store k v r) k' = (if k' = k then Some v else find r k')"
    and find_remove: "find (remove k r) k' = (if k' = k then None else find r k')"
    and names_find: "set (names r) = {k. find r k \<noteq> None}"
    and wf_names: "wf r \<Longrightarrow> distinct (names r)"
    and wf_store: "wf r \<Longrightarrow> wf (store k v r)"
    and wf_remove: "wf r \<Longrightarrow> wf (remove k r)"
begin

lemma count_names: "wf r \<Longrightarrow> length (names r) = card {k. find r k \<noteq> None}"
  by (metis distinct_card names_find wf_names)

lemma finite_names: "finite {k. find r k \<noteq> None}"
  by (metis List.finite_set names_find)

lemma store_new_count:
  assumes "wf r" and "find r k = None"
  shows "length (names (store k v r)) = length (names r) + 1"
proof -
  have "{k'. find (store k v r) k' \<noteq> None} = insert k {k'. find r k' \<noteq> None}"
    by (auto simp: find_store)
  then show ?thesis
    using assms finite_names [of r] by (simp add: count_names wf_store)
qed

lemma remove_count:
  assumes "wf r" and "find r k \<noteq> None"
  shows "length (names (remove k r)) = length (names r) - 1"
proof -
  have "{k'. find (remove k r) k' \<noteq> None} = {k'. find r k' \<noteq> None} - {k}"
    by (auto simp: find_remove)
  then show ?thesis
    using assms finite_names [of r] by (simp add: count_names wf_remove)
qed

end

interpretation fuseSockets: socket_registry
  "map_of" "AList.update" "AList.delete" "map fst" "\<lambda>r. distinct (map fst r)"
  by unfold_locales
    (auto simp: update_conv' delete_conv' dom_map_of_conv_image_fst [symmetric] dom_def
      intro: distinct_update distinct_delete)

section \<open>Invariant of the file system\<close>

inductive fuse_step :: "sys \<Rightarrow> Client \<times> os \<Rightarrow> Client \<times> os \<Rightarrow> bool" for sys :: sys where
  lookup: "Lookup sys inst c s = (r, c', s') \<Longrightarrow> fuse_step sys (c, s) (c', s')"
| removed: "map_of (fm_fuseSockets (cl_fuse c)) inst \<noteq> None \<Longrightarrow>
     fuse_step sys (c, s) (remove_socket inst e c, s)"
| left: "0 < fm_leaving (cl_fuse c) \<Longrightarrow> fuse_step sys (c, s) (fuseWg_Done c, s)"
| stop: "fuse_step sys (c, s) (serveFuse_done c, s)"

definition entry_ok :: "Client \<Rightarrow> nat \<Rightarrow> string \<Rightarrow> socketSymlink \<Rightarrow> bool" where
  "entry_ok c n k ss \<longleftrightarrow>
     k \<noteq> ''README'' \<and> is_Ok (parseConnName k) \<and> sm_inst (ss_socket ss) = k
     \<and> ss_symlink ss = join2 (fm_fuseTempDir (cl_fuse c)) k \<and> sm_listener (ss_socket ss) < n
     \<and> sm_dialOpts (ss_socket ss) =
         dialOptions (withUnixSocket (cl_conf c) (fm_fuseTempDir (cl_fuse c))) (zero_inst\<lparr>ic_Name := k\<rparr>)"

definition fuse_inv :: "Client \<times> os \<Rightarrow> bool" where
  "fuse_inv cs \<longleftrightarrow> (case cs of (c, s) \<Rightarrow>
     distinct (map fst (fm_fuseSockets (cl_fuse c)))
     \<and> fm_fuseWg (cl_fuse c) = length (fm_fuseSockets (cl_fuse c)) + fm_leaving (cl_fuse c)
     \<and> (\<forall>k ss. map_of (fm_fuseSockets (cl_fuse c)) k = Some ss \<longrightarrow> entry_ok c (os_next s) k ss)
     \<and> (\<forall>k k' ss ss'. map_of (fm_fuseSockets (cl_fuse c)) k = Some ss \<longrightarrow>
          map_of (fm_fuseSockets (cl_fuse c)) k' = Some ss' \<longrightarrow> k \<noteq> k' \<longrightarrow>
          sm_listener (ss_socket ss) \<noteq> sm_listener (ss_socket ss')))"

text \<open>The ways a lookup ends.\<close>

lemma Lookup_cases:
  obtains (readme) "inst = ''README''" "Lookup sys inst c s = (Inode Readme, c, s)"
  | (bad_name) "inst \<noteq> ''README''" "\<not> is_Ok (parseConnName inst)" "Lookup sys inst c s = (ENOENT, c, s)"
  | (found) l where "inst \<noteq> ''README''" "is_Ok (parseConnName inst)"
      "map_of (fm_fuseSockets (cl_fuse c)) inst = Some l"
      "Lookup sys inst c s = (Inode (Symlink (ss_symlink l)), c, s)"
  | (failed) r s' where "map_of (fm_fuseSockets (cl_fuse c)) inst = None"
      "Lookup sys inst c s = (r, c, s')" "r = ENOENT \<or> r = Crash"
      "os_listeners s' = os_listeners s" "os_next s' = os_next s"
  | (created) m s' network address where "inst \<noteq> ''README''" "is_Ok (parseConnName inst)"
      "map_of (fm_fuseSockets (cl_fuse c)) inst = None"
      "Lookup sys inst c s = (Inode (Symlink (join2 (fm_fuseTempDir (cl_fuse c)) inst)),
         add_socket inst \<lparr>ss_socket = m, ss_symlink = join2 (fm_fuseTempDir (cl_fuse c)) inst\<rparr> c, s')"
      "sm_inst m = inst" "sm_listener m = os_next s" "os_next s' = Suc (os_next s)"
      "sm_dialOpts m = dialOptions (withUnixSocket (cl_conf c) (fm_fuseTempDir (cl_fuse c))) (zero_inst\<lparr>ic_Name := inst\<rparr>)"
      "os_listeners s' = os_listeners s @ [(os_next s, network, address)]"
      "fst (listenAddress sys (withUnixSocket (cl_conf c) (fm_fuseTempDir (cl_fuse c))) None
         (zero_inst\<lparr>ic_Name := inst\<rparr>) s) = Ok (network, address)"
proof -
  let ?conf = "withUnixSocket (cl_conf c) (fm_fuseTempDir (cl_fuse c))" and ?i = "zero_inst\<lparr>ic_Name := inst\<rparr>"
  consider "inst = ''README''" | "inst \<noteq> ''README''" "\<not> is_Ok (parseConnName inst)"
    | l where "inst \<noteq> ''README''" "is_Ok (parseConnName inst)" "map_of (fm_fuseSockets (cl_fuse c)) inst = Some l"
    | "inst \<noteq> ''README''" "is_Ok (parseConnName inst)" "map_of (fm_fuseSockets (cl_fuse c)) inst = None"
    by (cases "map_of (fm_fuseSockets (cl_fuse c)) inst") blast+
  then show thesis
  proof cases
    case 4
    show thesis
    proof (cases rule: newSocketMount_cases [of sys ?conf None ?i s])
      case (mounted m pc' s' network address)
      with 4 show thesis by (intro created [of m s' network address]) (simp_all add: Lookup_def Let_def)
    next
      case (failed r pc' s')
      with 4 show thesis
        by (cases r) (auto simp: Lookup_def Let_def intro: that(4))
    qed
  qed (auto simp: Lookup_def intro: that(1,2,3))
qed

lemma sockets_add_socket [simp]:
  "fm_fuseSockets (cl_fuse (add_socket k ss c)) = AList.update k ss (fm_fuseSockets (cl_fuse c))"
  "fm_fuseWg (cl_fuse (add_socket k ss c)) = fm_fuseWg (cl_fuse c) + 1"
  "fm_leaving (cl_fuse (add_socket k ss c)) = fm_leaving (cl_fuse c)"
  by (simp_all add: add_socket_def)

lemma entry_ok_frame [simp, frame]:
  "entry_ok (add_socket k ss c) = entry_ok c" "entry_ok (remove_socket k e c) = entry_ok c"
  "entry_ok (serveFuse_done c) = entry_ok c" "entry_ok (fuseWg_Done c) = entry_ok c" "entry_ok (set_serving v c) = entry_ok c"
  "entry_ok (record_server c) = entry_ok c"
  by (auto simp: entry_ok_def add_socket_def remove_socket_def serveFuse_done_def fuseWg_Done_def set_serving_def record_server_def fun_eq_iff)

lemma entry_ok_mono: "entry_ok c n k ss \<Longrightarrow> n \<le> n' \<Longrightarrow> entry_ok c n' k ss"
  by (simp add: entry_ok_def)

lemma fuse_inv_add_socket:
  assumes inv: "fuse_inv (c, s)" and new: "map_of (fm_fuseSockets (cl_fuse c)) k = None"
    and ok: "entry_ok c (os_next s') k ss"
    and h: "sm_listener (ss_socket ss) = os_next s" "os_next s \<le> os_next s'"
  shows "fuse_inv (add_socket k ss c, s')"
proof -
  let ?r = "fm_fuseSockets (cl_fuse c)"
  have old: "entry_ok c (os_next s) k' ss'" if "map_of ?r k' = Some ss'" for k' ss'
    using inv that by (simp add: fuse_inv_def)
  then have low: "sm_listener (ss_socket ss') < os_next s" if "map_of ?r k' = Some ss'" for k' ss'
    using that by (simp add: entry_ok_def)
  have "length (AList.update k ss ?r) = length ?r + 1"
    using fuseSockets.store_new_count [of ?r k ss] inv new by (simp add: fuse_inv_def)
  moreover have "distinct (map fst (AList.update k ss ?r))"
    using inv by (simp add: fuse_inv_def distinct_update)
  moreover have "entry_ok c (os_next s') k' ss'" if "map_of (AList.update k ss ?r) k' = Some ss'" for k' ss'
    using that ok old entry_ok_mono [OF _ h(2)] by (auto simp: fuseSockets.find_store split: if_splits)
  moreover have "sm_listener (ss_socket s1) \<noteq> sm_listener (ss_socket s2)"
    if "map_of (AList.update k ss ?r) k1 = Some s1" "map_of (AList.update k ss ?r) k2 = Some s2" "k1 \<noteq> k2"
    for k1 k2 s1 s2
    using that inv low [of k1 s1] low [of k2 s2] h(1)
    unfolding fuseSockets.find_store fuse_inv_def by (auto split: if_splits)
  ultimately show ?thesis using inv by (simp add: fuse_inv_def)
qed

lemma fuse_inv_lookup:
  assumes "fuse_inv (c, s)" and "Lookup sys inst c s = (r, c', s')"
  shows "fuse_inv (c', s')"
proof (cases rule: Lookup_cases [of inst sys c s])
  case (created m s'' network address)
  with assms show ?thesis by (auto intro!: fuse_inv_add_socket simp: entry_ok_def)
qed (use assms in \<open>auto simp: fuse_inv_def\<close>)

lemma fuse_inv_removed:
  assumes "fuse_inv (c, s)" and "map_of (fm_fuseSockets (cl_fuse c)) inst \<noteq> None"
  shows "fuse_inv (remove_socket inst e c, s)"
proof -
  let ?r = "fm_fuseSockets (cl_fuse c)"
  have r: "fm_fuseSockets (cl_fuse (remove_socket inst e c)) = AList.delete inst ?r"
    "fm_fuseWg (cl_fuse (remove_socket inst e c)) = fm_fuseWg (cl_fuse c)"
    "fm_leaving (cl_fuse (remove_socket inst e c)) = fm_leaving (cl_fuse c) + 1"
    by (simp_all add: remove_socket_def)
  have "length (AList.delete inst ?r) = length ?r - 1" "0 < length ?r"
    using fuseSockets.remove_count [of ?r inst] assms by (auto simp: fuse_inv_def)
  then have "fm_fuseWg (cl_fuse c) = length (AList.delete inst ?r) + (fm_leaving (cl_fuse c) + 1)"
    using assms(1) by (simp add: fuse_inv_def)
  moreover have "map_of ?r k = Some ss" if "map_of (AList.delete inst ?r) k = Some ss" for k ss
    using that by (auto simp: fuseSockets.find_remove split: if_splits)
  ultimately show ?thesis
    using assms(1) unfolding fuse_inv_def prod.case r entry_ok_frame
    by (metis distinct_delete)
qed

lemma fuse_inv_left: "fuse_inv (c, s) \<Longrightarrow> 0 < fm_leaving (cl_fuse c) \<Longrightarrow> fuse_inv (fuseWg_Done c, s)"
  by (simp add: fuse_inv_def) (simp add: fuseWg_Done_def)

lemma fuse_inv_stop: "fuse_inv (c, s) \<Longrightarrow> fuse_inv (serveFuse_done c, s)"
  by (simp add: fuse_inv_def) (simp add: serveFuse_done_def)

lemma fuse_step_inv:
  assumes "fuse_inv cs" and "fuse_step sys cs cs'"
  shows "fuse_inv cs'"
  using assms(2,1)
  by (induction rule: fuse_step.induct) (auto intro: fuse_inv_lookup fuse_inv_removed fuse_inv_left fuse_inv_stop)

interpretation fuse: step_invariant "fuse_step sys" fuse_inv for sys
  by unfold_locales (rule fuse_step_inv)

definition fuse_client :: "Config \<Rightarrow> Client" where
  "fuse_client conf = \<lparr>cl_conf = conf, cl_mnts = [], cl_connRefuseNotify = False,
     cl_fuse = zero_fuseMount\<lparr>fm_fuseDir := cf_FUSEDir conf, fm_fuseTempDir := cf_FUSETempDir conf\<rparr>\<rparr>"

lemma fuse_inv_configured:
  assumes "configureFUSE sys fe c conf s = (Ok c', s')"
  shows "fuse_inv (c', s')"
  using assms by (auto simp: configureFUSE_def fuse_inv_def zero_fuseMount_def split: option.splits)

text \<open>The address of a socket in the temporary directory, for an instance with only a name.\<close>

lemma listenAddress_fuse:
  assumes "tmp \<noteq> []" and "name \<noteq> []"
    and "fst (listenAddress sys (withUnixSocket conf tmp) None (zero_inst\<lparr>ic_Name := name\<rparr>) s) = Ok (network, address)"
  shows "network = ''unix'' \<and> (address = join2 tmp name \<or> address = join2 (join2 tmp name) pgsql)"
proof -
  have "networkType (withUnixSocket conf tmp) (zero_inst\<lparr>ic_Name := name\<rparr>) = ''unix''"
    using assms(1) by (simp add: networkType_def withUnixSocket_def zero_inst_def)
  with assms show ?thesis
    by (auto simp: listenAddress_def withUnixSocket_def newUnixSocketMount_def zero_inst_def UnixAddress_def
        os_Mkdir_def split: outcome.splits option.splits if_splits prod.splits)
qed

section \<open>Properties\<close>

text \<open>
  A successful lookup answers with a link to the socket the proxy listens on: the first
  lookup of an instance opens one Unix socket whose address is the link's path or, for
  Postgres, \<open>.s.PGSQL.5432\<close> inside it; and once it has succeeded, every further lookup of the
  same name returns the same link and changes nothing, so all callers share one socket.
\<close>

theorem Lookup_shared_socket:
  assumes "inst \<noteq> ''README''" and "map_of (fm_fuseSockets (cl_fuse c)) inst = None"
    and "fm_fuseTempDir (cl_fuse c) \<noteq> []"
    and "Lookup sys inst c s = (Inode n, c', s')"
  shows "\<exists>path address. n = Symlink path \<and> path = join2 (fm_fuseTempDir (cl_fuse c)) inst
    \<and> os_listeners s' = os_listeners s @ [(os_next s, ''unix'', address)]
    \<and> (address = path \<or> address = join2 path pgsql)
    \<and> (\<forall>sys2 s2. Lookup sys2 inst c' s2 = (Inode n, c', s2))"
proof (cases rule: Lookup_cases [of inst sys c s])
  case (created m s'' network address)
  have "inst \<noteq> []" using created(2) by (auto simp: parseConnName_def)
  then have addr: "network = ''unix'' \<and> (address = join2 (fm_fuseTempDir (cl_fuse c)) inst \<or>
      address = join2 (join2 (fm_fuseTempDir (cl_fuse c)) inst) pgsql)"
    using listenAddress_fuse [OF assms(3)] created(10) by blast
  have "Lookup sys2 inst c' s2 = (Inode n, c', s2)" for sys2 s2
    using created assms(4) by (auto simp: Lookup_def fuseSockets.find_store)
  with addr created assms(4) show ?thesis by auto
qed (use assms in auto)

definition sample_fuse :: Client where
  "sample_fuse = fuse_client (zero_Config\<lparr>cf_FUSETempDir := ''/tmp''\<rparr>)"

lemma sample_fuse_sockets: "map_of (fm_fuseSockets (cl_fuse sample_fuse)) k = None"
  "fm_fuseTempDir (cl_fuse sample_fuse) \<noteq> []"
  by (simp_all add: sample_fuse_def fuse_client_def zero_fuseMount_def)

lemma sample_lookup:
  "Lookup (plain_sys (\<lambda>_. ''MYSQL_8_0'')) ''p:r:i'' sample_fuse (init_os [''/tmp'']) =
   (Inode (Symlink ''/tmp/p:r:i''),
    add_socket ''p:r:i'' \<lparr>ss_socket = \<lparr>sm_inst = ''p:r:i'', sm_listener = 0, sm_dialOpts = [WithMdxClientProtocolType ''uds'']\<rparr>,
        ss_symlink = ''/tmp/p:r:i''\<rparr> sample_fuse,
    \<lparr>os_paths = [''/tmp''], os_listeners = [(0, ''unix'', ''/tmp/p:r:i'')], os_next = 1,
     os_chmods = [(''/tmp/p:r:i'', 511)]\<rparr>)"
proof -
  have "join2 ''/tmp'' ''p:r:i'' = ''/tmp/p:r:i''" "is_Ok (parseConnName ''p:r:i'')" by code_simp+
  then show ?thesis
    by (simp add: Lookup_def sample_fuse_def fuse_client_def zero_Config_def zero_fuseMount_def newSocketMount_def
        listenAddress_def networkType_def withUnixSocket_def zero_inst_def sqlDataOn_def plain_sys_def
        init_os_def newUnixSocketMount_def hasPrefix_def net_Listen_def os_Chmod_def UnixAddress_def
        dialOptions_def Let_def)
qed

theorem Lookup_shared_socket_witness:
  "\<exists>address. os_listeners (snd (snd (Lookup (plain_sys (\<lambda>_. ''MYSQL_8_0'')) ''p:r:i''
      sample_fuse (init_os [''/tmp''])))) = [(0, ''unix'', address)]"
proof -
  have "''p:r:i'' \<noteq> ''README''" by simp
  from Lookup_shared_socket [OF this sample_fuse_sockets sample_lookup]
  obtain path address where "os_listeners (snd (snd (Lookup (plain_sys (\<lambda>_. ''MYSQL_8_0'')) ''p:r:i''
      sample_fuse (init_os [''/tmp''])))) = os_listeners (init_os [''/tmp'']) @ [(os_next (init_os [''/tmp'']), ''unix'', address)]"
    unfolding sample_lookup by auto
  then show ?thesis by (auto simp: init_os_def)
qed

text \<open>
  C37. However lookups, failing sockets and shutdown interleave, the registry stays sound:
  the directory lists the README and each active instance once; every active instance has a
  valid connection name, its own listener, and the link to its path in the temporary
  directory; and the wait group counts the active sockets and the goroutines that have taken
  their socket out and not yet left, so that it is at zero only with the registry empty.
\<close>

theorem fuse_registry_sound:
  assumes "configureFUSE sys fe c0 conf s0 = (Ok c1, s1)" and "(fuse_step sys)\<^sup>*\<^sup>* (c1, s1) (c, s)"
    and "\<And>xs. mset (rng xs) = mset xs"
  shows "distinct (map fst (tl (Readdir rng c)))
    \<and> (\<forall>k. k \<in> set (map fst (tl (Readdir rng c))) \<longleftrightarrow> map_of (fm_fuseSockets (cl_fuse c)) k \<noteq> None)
    \<and> fm_fuseWg (cl_fuse c) = length (fuseMounts rng c) + fm_leaving (cl_fuse c)
    \<and> (waitForFUSEMounts c \<longrightarrow> fuseMounts rng c = [])
    \<and> distinct (map sm_listener (fuseMounts rng c))
    \<and> (\<forall>k ss. map_of (fm_fuseSockets (cl_fuse c)) k = Some ss \<longrightarrow> k \<noteq> ''README'' \<and> is_Ok (parseConnName k)
         \<and> sm_inst (ss_socket ss) = k \<and> ss_symlink ss = join2 (fm_fuseTempDir (cl_fuse c)) k)"
proof -
  let ?r = "fm_fuseSockets (cl_fuse c)"
  have inv: "fuse_inv (c, s)"
    using fuse.inv_steps [OF assms(2) fuse_inv_configured [OF assms(1)]] .
  have m: "set (rng ?r) = set ?r" "length (rng ?r) = length ?r"
    using assms(3) [of ?r] by (auto dest: mset_eq_setD mset_eq_length)
  have "mset (map fst (rng ?r)) = mset (map fst ?r)" by (simp add: assms(3) mset_map)
  then have d: "distinct (map fst (rng ?r))"
    using inv mset_eq_imp_distinct_iff [of "map fst (rng ?r)" "map fst ?r"] by (simp add: fuse_inv_def)
  have names: "map fst (tl (Readdir rng c)) = map fst (rng ?r)"
    by (simp add: Readdir_def case_prod_unfold)
  have "set (map fst (rng ?r)) = {k. map_of ?r k \<noteq> None}"
    using fuseSockets.names_find [of ?r] by (simp only: set_map m(1))
  moreover have "distinct (map sm_listener (fuseMounts rng c))"
  proof -
    have "inj_on (\<lambda>e. sm_listener (ss_socket (snd e))) (set ?r)"
    proof (rule inj_onI, rule ccontr)
      fix x y assume x: "x \<in> set ?r" "y \<in> set ?r" and e: "sm_listener (ss_socket (snd x)) = sm_listener (ss_socket (snd y))"
        and ne: "x \<noteq> y"
      have k: "distinct (map fst ?r)" using inv by (simp add: fuse_inv_def)
      then have "fst x \<noteq> fst y" using x ne by (metis eq_key_imp_eq_value prod.collapse)
      moreover have "map_of ?r (fst x) = Some (snd x)" "map_of ?r (fst y) = Some (snd y)" using k x by auto
      ultimately show False using inv e unfolding fuse_inv_def prod.case by blast
    qed
    moreover have "distinct (rng ?r)" using d by (simp add: distinct_map)
    ultimately show ?thesis
      by (simp add: fuseMounts_def case_prod_unfold distinct_map m(1) comp_def)
  qed
  moreover have "fm_fuseWg (cl_fuse c) = length (fuseMounts rng c) + fm_leaving (cl_fuse c)"
    using inv m(2) by (simp add: fuse_inv_def fuseMounts_def)
  moreover from this have "waitForFUSEMounts c \<longrightarrow> fuseMounts rng c = []" by (simp add: waitForFUSEMounts_def)
  ultimately show ?thesis
    using inv d names unfolding fuse_inv_def prod.case entry_ok_def
    by (simp only:) blast
qed

lemma configure_sample:
  "configureFUSE (plain_sys (\<lambda>_. ''MYSQL_8_0'')) \<lparr>mkdirAll_err = (\<lambda>_ _. None), fs_Mount_err = (\<lambda>_. None), Unmount_err = None\<rparr>
     sample_fuse (zero_Config\<lparr>cf_FUSETempDir := ''/tmp''\<rparr>) (init_os [[]]) =
   (Ok sample_fuse, init_os [''/tmp'', []])"
  by (simp add: configureFUSE_def plain_sys_def init_os_def zero_Config_def sample_fuse_def fuse_client_def)

text \<open>Two lookups, of which the second socket has failed, with its goroutine still to leave.\<close>

lemma sample_registry:
  "\<exists>c s ss. (fuse_step (plain_sys (\<lambda>_. ''MYSQL_8_0'')))\<^sup>*\<^sup>* (sample_fuse, init_os [''/tmp'', []]) (c, s)
     \<and> fm_fuseSockets (cl_fuse c) = [(''p:r:i'', ss)] \<and> fm_leaving (cl_fuse c) = 1"
proof -
  let ?sys = "plain_sys (\<lambda>_. ''MYSQL_8_0'')" and ?s = "init_os [''/tmp'', []]"
  have names: "is_Ok (parseConnName ''p:r:i'')" "is_Ok (parseConnName ''p:r:j'')" "join2 ''/tmp'' ''p:r:i'' = ''/tmp/p:r:i''"
    "join2 ''/tmp'' ''p:r:j'' = ''/tmp/p:r:j''" by code_simp+
  note defs = Lookup_def sample_fuse_def fuse_client_def zero_Config_def zero_fuseMount_def newSocketMount_def
    listenAddress_def networkType_def withUnixSocket_def zero_inst_def sqlDataOn_def plain_sys_def add_socket_def
    init_os_def newUnixSocketMount_def hasPrefix_def net_Listen_def os_Chmod_def UnixAddress_def dialOptions_def Let_def
  obtain p c1 s1 ss where a: "Lookup ?sys ''p:r:i'' sample_fuse ?s = (p, c1, s1)"
    "fm_fuseSockets (cl_fuse c1) = [(''p:r:i'', ss)]" "cl_conf c1 = cl_conf sample_fuse" "fm_fuseTempDir (cl_fuse c1) = ''/tmp''"
    "fm_leaving (cl_fuse c1) = 0" "os_paths s1 = [''/tmp'', []]"
    using names by (simp add: defs)
  obtain q c2 s2 ss' where b: "Lookup ?sys ''p:r:j'' c1 s1 = (q, c2, s2)"
    "fm_fuseSockets (cl_fuse c2) = [(''p:r:i'', ss), (''p:r:j'', ss')]" "fm_leaving (cl_fuse c2) = 0"
    using names a(2-6) by (simp add: defs)
  have "fuse_step ?sys (sample_fuse, ?s) (c1, s1)" by (rule lookup [OF a(1)])
  moreover have "fuse_step ?sys (c1, s1) (c2, s2)" by (rule lookup [OF b(1)])
  moreover have "fuse_step ?sys (c2, s2) (remove_socket ''p:r:j'' EOF c2, s2)" by (rule removed) (simp add: b(2))
  ultimately have "(fuse_step ?sys)\<^sup>*\<^sup>* (sample_fuse, ?s) (remove_socket ''p:r:j'' EOF c2, s2)"
    by (meson converse_rtranclp_into_rtranclp rtranclp.rtrancl_refl)
  then show ?thesis
    by (intro exI [of _ "remove_socket ''p:r:j'' EOF c2"] exI [of _ s2] exI [of _ ss]) (simp add: remove_socket_def b(2,3))
qed

theorem fuse_registry_sound_witness:
  "\<exists>c s. (fuse_step (plain_sys (\<lambda>_. ''MYSQL_8_0'')))\<^sup>*\<^sup>* (sample_fuse, init_os [''/tmp'', []]) (c, s)
     \<and> map fst (tl (Readdir (\<lambda>xs. xs) c)) = [''p:r:i''] \<and> fm_fuseWg (cl_fuse c) = 2"
proof -
  obtain c s ss where c: "(fuse_step (plain_sys (\<lambda>_. ''MYSQL_8_0'')))\<^sup>*\<^sup>* (sample_fuse, init_os [''/tmp'', []]) (c, s)"
    "fm_fuseSockets (cl_fuse c) = [(''p:r:i'', ss)]" "fm_leaving (cl_fuse c) = 1" using sample_registry by blast
  from fuse_registry_sound [OF configure_sample c(1), of "\<lambda>xs. xs"] c show ?thesis
    by (intro exI [of _ c] exI [of _ s]) (simp add: Readdir_def fuseMounts_def)
qed

text \<open>
  The README is served in full by incremental reads, and its size is the one \<open>Getattr\<close>
  reports; a read at an offset past the end of the text panics.
\<close>

theorem readme_Read_slices:
  assumes "in_int64 off" and "in_int64 (off + int n)"
  shows "readme_Read n off =
    (if 0 \<le> off \<and> off \<le> int (snd (snd readme_Getattr)) then Ok (take n (drop (nat off) readmeText)) else Panic)"
proof (cases "0 \<le> off \<and> off \<le> int (length readmeText)")
  case True
  then have "drop (nat off) (take (nat (min (off + int n) (int (length readmeText)))) readmeText)
      = take n (drop (nat off) readmeText)"
    by (simp add: drop_take min_def nat_add_distrib)
  with True assms show ?thesis
    by (auto simp: readme_Read_def readme_Getattr_def Let_def min_def split: if_splits)
qed (use assms in \<open>auto simp: readme_Read_def readme_Getattr_def Let_def\<close>)

theorem readme_Read_slices_witness: "readme_Read 5 1 = Ok ''When '' \<and> readme_Read 5 100000 = Panic"
proof -
  have "length readmeText < 1300 \<and> 1 \<le> length readmeText \<and> take 5 (drop 1 readmeText) = ''When ''" by code_simp
  then show ?thesis
    using readme_Read_slices [of 1 5] readme_Read_slices [of 100000 5]
    by (simp add: in_int64_def readme_Getattr_def)
qed

end
