(* ===== verification/Server.thy ===== *)
theory Server
  imports Mount
begin

text \<open>
  Accepting and limiting connections (internal/proxy/proxy.go, \<open>serveSocketMount\<close>, lines
  791-838). Every mount has an accept loop; every accepted connection runs in its own
  goroutine, whose program points are the phases below. The goroutines of all mounts share
  the 64-bit counter \<open>connCount\<close>, which they change with atomic additions. A step is one
  atomic action of one goroutine; the scheduler, the clients and the dialer are free.
\<close>

section \<open>State and steps\<close>

text \<open>
  \<open>Accepted\<close>: the goroutine has started; \<open>Counted n\<close>: \<open>AddUint64\<close> returned \<open>n\<close>; \<open>Dialing\<close> and
  \<open>Proxying\<close>: inside \<open>dialer.Dial\<close> and \<open>proxyConn\<close>; \<open>Leaving\<close>: only the deferred decrement is
  left; \<open>Done\<close>.
\<close>

datatype phase = Accepted | Counted uint64 | Dialing | Proxying | Leaving | Done

record server =
  sv_connCount :: uint64
  sv_conns :: "(nat \<times> phase) list"
  sv_refused :: nat
  sv_closed :: "nat list"
  sv_dialed :: "(string \<times> DialOption list) list"
  sv_loops :: "go_error option list"

definition init_server :: "socketMount list \<Rightarrow> server" where
  "init_server mnts =
     \<lparr>sv_connCount = 0, sv_conns = [], sv_refused = 0, sv_closed = [], sv_dialed = [],
       sv_loops = map (\<lambda>_. None) mnts\<rparr>"

definition over_limit :: "uint64 \<Rightarrow> uint64 \<Rightarrow> bool" where
  "over_limit maxConn count \<longleftrightarrow> 0 < maxConn \<and> maxConn < count"

definition is_timeout :: "go_error \<Rightarrow> bool" where
  "is_timeout e \<longleftrightarrow> (case e of NetError t _ \<Rightarrow> t | _ \<Rightarrow> False)"

text \<open>
  The accept loop of mount \<open>i\<close>: a connection starts a goroutine, a transient error is
  retried, any other error ends the loop.
\<close>

inductive accept_step :: "server \<Rightarrow> server \<Rightarrow> bool" where
  accept: "i < length (sv_loops s) \<Longrightarrow> sv_loops s ! i = None \<Longrightarrow>
     accept_step s (s\<lparr>sv_conns := sv_conns s @ [(i, Accepted)]\<rparr>)"
| accept_retry: "i < length (sv_loops s) \<Longrightarrow> sv_loops s ! i = None \<Longrightarrow> is_timeout e \<Longrightarrow>
     accept_step s s"
| accept_fail: "i < length (sv_loops s) \<Longrightarrow> sv_loops s ! i = None \<Longrightarrow> \<not> is_timeout e \<Longrightarrow>
     accept_step s (s\<lparr>sv_loops := (sv_loops s)[i := Some e]\<rparr>)"

text \<open>
  The goroutine of connection \<open>k\<close>, accepted on mount \<open>i\<close>. It closes the client connection
  itself when it refuses or fails to dial; otherwise \<open>proxyConn\<close> has closed it on return. When
  \<open>proxyConn\<close> returns is free here (\<open>proxied\<close>); in \<open>Process\<close> it takes that step only after its copy
  loop (\<open>Proxy_Conn\<close>) has returned. \<open>^uint64(0)\<close> is the word with all bits set; adding it
  subtracts one.
\<close>

inductive conn_step :: "uint64 \<Rightarrow> bool \<Rightarrow> socketMount list \<Rightarrow> server \<Rightarrow> server \<Rightarrow> bool"
  for maxConn :: uint64 and notify :: bool and mnts :: "socketMount list" where
  count: "k < length (sv_conns s) \<Longrightarrow> sv_conns s ! k = (i, Accepted) \<Longrightarrow>
     n = sv_connCount s + 1 \<Longrightarrow>
     conn_step maxConn notify mnts s
       (s\<lparr>sv_connCount := n, sv_conns := (sv_conns s)[k := (i, Counted n)]\<rparr>)"
| refuse: "k < length (sv_conns s) \<Longrightarrow> sv_conns s ! k = (i, Counted n) \<Longrightarrow> over_limit maxConn n \<Longrightarrow>
     conn_step maxConn notify mnts s
       (s\<lparr>sv_refused := (if notify then Suc (sv_refused s) else sv_refused s),
          sv_closed := sv_closed s @ [k],
          sv_conns := (sv_conns s)[k := (i, Leaving)]\<rparr>)"
| dial: "k < length (sv_conns s) \<Longrightarrow> sv_conns s ! k = (i, Counted n) \<Longrightarrow> \<not> over_limit maxConn n \<Longrightarrow>
     conn_step maxConn notify mnts s
       (s\<lparr>sv_dialed := sv_dialed s @ [(sm_inst (mnts ! i), sm_dialOpts (mnts ! i))],
          sv_conns := (sv_conns s)[k := (i, Dialing)]\<rparr>)"
| dial_fail: "k < length (sv_conns s) \<Longrightarrow> sv_conns s ! k = (i, Dialing) \<Longrightarrow>
     conn_step maxConn notify mnts s
       (s\<lparr>sv_closed := sv_closed s @ [k], sv_conns := (sv_conns s)[k := (i, Leaving)]\<rparr>)"
| dial_ok: "k < length (sv_conns s) \<Longrightarrow> sv_conns s ! k = (i, Dialing) \<Longrightarrow>
     conn_step maxConn notify mnts s (s\<lparr>sv_conns := (sv_conns s)[k := (i, Proxying)]\<rparr>)"
| proxied: "k < length (sv_conns s) \<Longrightarrow> sv_conns s ! k = (i, Proxying) \<Longrightarrow>
     conn_step maxConn notify mnts s
       (s\<lparr>sv_closed := sv_closed s @ [k], sv_conns := (sv_conns s)[k := (i, Leaving)]\<rparr>)"
| leave: "k < length (sv_conns s) \<Longrightarrow> sv_conns s ! k = (i, Leaving) \<Longrightarrow>
     conn_step maxConn notify mnts s
       (s\<lparr>sv_connCount := sv_connCount s + not 0, sv_conns := (sv_conns s)[k := (i, Done)]\<rparr>)"

definition serve_step :: "uint64 \<Rightarrow> bool \<Rightarrow> socketMount list \<Rightarrow> server \<Rightarrow> server \<Rightarrow> bool" where
  "serve_step maxConn notify mnts s t \<longleftrightarrow> accept_step s t \<or> conn_step maxConn notify mnts s t"

section \<open>Counting goroutines by phase\<close>

text \<open>
  A goroutine is active between the increment and the decrement of the counter; it is
  admitted from the increment that let it pass until the connection is given up.
\<close>

fun is_active :: "phase \<Rightarrow> bool" where
  "is_active Accepted = False"
| "is_active Done = False"
| "is_active _ = True"

fun is_admitted :: "uint64 \<Rightarrow> phase \<Rightarrow> bool" where
  "is_admitted m (Counted n) = (\<not> over_limit m n)"
| "is_admitted m Dialing = True"
| "is_admitted m Proxying = True"
| "is_admitted m _ = False"

definition num :: "(phase \<Rightarrow> bool) \<Rightarrow> (nat \<times> phase) list \<Rightarrow> nat" where
  "num P cs = length (filter (\<lambda>c. P (snd c)) cs)"

definition backend_conns :: "server \<Rightarrow> nat" where
  "backend_conns s = num (\<lambda>p. p = Dialing \<or> p = Proxying) (sv_conns s)"

lemma num_append [simp]: "num P (cs @ ds) = num P cs + num P ds" "num P [] = 0"
  "num P (c # cs) = (if P (snd c) then Suc (num P cs) else num P cs)"
  by (simp_all add: num_def)

lemma num_pos: "k < length cs \<Longrightarrow> P (snd (cs ! k)) \<Longrightarrow> 0 < num P cs"
  by (auto simp: num_def filter_empty_conv)

lemma num_update [frame]:
  "k < length cs \<Longrightarrow>
   num P (cs[k := c]) = (if P (snd (cs ! k)) then num P cs - 1 else num P cs) + (if P (snd c) then 1 else 0)"
proof (induction cs arbitrary: k)
  case Nil
  then show ?case by simp
next
  case (Cons x xs)
  show ?case
  proof (cases k)
    case 0
    then show ?thesis by simp
  next
    case (Suc j)
    with Cons num_pos [of j xs P] show ?thesis by auto
  qed
qed

lemma num_mono: "(\<And>p. P p \<Longrightarrow> Q p) \<Longrightarrow> num P cs \<le> num Q cs"
  by (induction cs) auto

lemma num_le_length: "num P cs \<le> length cs"
  by (simp add: num_def)

lemma admitted_active: "is_admitted m p \<Longrightarrow> is_active p"
  by (cases p) auto

lemma accept_step_num:
  "accept_step s t \<Longrightarrow>
     num is_active (sv_conns t) = num is_active (sv_conns s)
     \<and> num (is_admitted m) (sv_conns t) = num (is_admitted m) (sv_conns s)
     \<and> sv_connCount t = sv_connCount s \<and> length (sv_conns s) \<le> length (sv_conns t)"
  by (induction rule: accept_step.induct) auto

lemma conn_step_length: "conn_step m ntf mnts s t \<Longrightarrow> length (sv_conns t) = length (sv_conns s)"
  by (induction rule: conn_step.induct) auto

section \<open>The invariant\<close>

text \<open>
  The counter is the number of active goroutines; and, as long as fewer than \<open>2^64\<close>
  connections were accepted, at most \<open>MaxConnections\<close> goroutines are admitted.
\<close>

definition server_inv :: "uint64 \<Rightarrow> server \<Rightarrow> bool" where
  "server_inv m s \<longleftrightarrow>
     sv_connCount s = of_nat (num is_active (sv_conns s))
     \<and> (0 < m \<longrightarrow> length (sv_conns s) < 2 ^ 64 \<longrightarrow> num (is_admitted m) (sv_conns s) \<le> unat m)"

lemma server_inv_init: "server_inv m (init_server mnts)"
  by (simp add: server_inv_def init_server_def)

lemma conn_step_counter:
  assumes "conn_step m ntf mnts s t" and "sv_connCount s = of_nat (num is_active (sv_conns s))"
  shows "sv_connCount t = of_nat (num is_active (sv_conns t))"
  using assms
proof (induction rule: conn_step.induct)
  case (leave k s i)
  then have "0 < num is_active (sv_conns s)" using num_pos [of k "sv_conns s" is_active] by simp
  with leave show ?case by (simp add: num_update of_nat_diff)
qed (use num_pos in \<open>auto simp: num_update\<close>)

text \<open>The only step that admits a goroutine is an increment that returned a count in the limit.\<close>

lemma conn_step_admitted:
  assumes "conn_step m ntf mnts s t"
  shows "num (is_admitted m) (sv_conns t) \<le> num (is_admitted m) (sv_conns s) \<or>
    (sv_connCount t = sv_connCount s + 1 \<and> \<not> over_limit m (sv_connCount t)
       \<and> num (is_admitted m) (sv_conns t) = num (is_admitted m) (sv_conns s) + 1)"
  using assms
proof (induction rule: conn_step.induct)
  case (count k s i n)
  then show ?case by (auto simp: num_update)
next
  case (dial k s i n)
  then show ?case using num_pos [of k "sv_conns s" "is_admitted m"] by (simp add: num_update)
next
  case (dial_ok k s i)
  then show ?case using num_pos [of k "sv_conns s" "is_admitted m"] by (simp add: num_update)
qed (simp_all add: num_update)

lemma count_in_limit:
  assumes "sv_connCount t = of_nat (num is_active (sv_conns t))" and "length (sv_conns t) < 2 ^ 64"
    and "0 < m" and "\<not> over_limit m (sv_connCount t)"
  shows "num (is_admitted m) (sv_conns t) \<le> unat m"
proof -
  have "num is_active (sv_conns t) < 2 ^ 64"
    using num_le_length [of is_active "sv_conns t"] assms(2) by linarith
  then have "unat (sv_connCount t) = num is_active (sv_conns t)"
    using assms(1) by (simp add: unat_of_nat take_bit_nat_eq_self_iff)
  moreover have "unat (sv_connCount t) \<le> unat m"
    using assms(3,4) by (simp add: over_limit_def word_le_nat_alt [symmetric])
  moreover have "num (is_admitted m) (sv_conns t) \<le> num is_active (sv_conns t)"
    using admitted_active by (rule num_mono)
  ultimately show ?thesis by simp
qed

lemma serve_step_inv:
  assumes "server_inv m s" and "serve_step m ntf mnts s t"
  shows "server_inv m t"
proof (cases "accept_step s t")
  case True
  from accept_step_num [OF True, of m] assms(1) show ?thesis by (auto simp: server_inv_def)
next
  case False
  with assms(2) have st: "conn_step m ntf mnts s t" by (simp add: serve_step_def)
  have c: "sv_connCount t = of_nat (num is_active (sv_conns t))"
    using conn_step_counter [OF st] assms(1) by (simp add: server_inv_def)
  have "num (is_admitted m) (sv_conns t) \<le> unat m" if "0 < m" "length (sv_conns t) < 2 ^ 64"
    using conn_step_admitted [OF st] count_in_limit [OF c] that assms(1) conn_step_length [OF st]
    by (auto simp: server_inv_def)
  with c show ?thesis by (simp add: server_inv_def)
qed

interpretation server: step_invariant "serve_step m ntf mnts" "server_inv m" for m ntf mnts
  by unfold_locales (rule serve_step_inv)

lemma server_reachable_inv: "(serve_step m ntf mnts)\<^sup>*\<^sup>* (init_server mnts) s \<Longrightarrow> server_inv m s"
  by (rule server.inv_steps) (auto intro: server_inv_init)

section \<open>Closing and dialing\<close>

text \<open>
  The second invariant: the closed client connections are those whose goroutine is leaving
  or done, none closed twice, and every dial was made for a mount of the client.
\<close>

definition given_up :: "phase \<Rightarrow> bool" where
  "given_up p \<longleftrightarrow> p = Leaving \<or> p = Done"

definition conns_inv :: "socketMount list \<Rightarrow> server \<Rightarrow> bool" where
  "conns_inv mnts s \<longleftrightarrow>
     distinct (sv_closed s)
     \<and> (\<forall>k. k \<in> set (sv_closed s) \<longleftrightarrow> k < length (sv_conns s) \<and> given_up (snd (sv_conns s ! k)))
     \<and> (\<forall>c \<in> set (sv_conns s). fst c < length mnts) \<and> length (sv_loops s) = length mnts
     \<and> set (sv_dialed s) \<subseteq> (\<lambda>m. (sm_inst m, sm_dialOpts m)) ` set mnts"

lemma conns_inv_init: "conns_inv mnts (init_server mnts)"
  by (simp add: conns_inv_def init_server_def)

lemma accept_step_conns_inv:
  assumes "conns_inv mnts s" and "accept_step s t"
  shows "conns_inv mnts t"
  using assms(2,1) by (cases rule: accept_step.cases)
    (auto simp: conns_inv_def nth_append given_up_def less_Suc_eq)

lemma update_conn_ball:
  assumes "\<forall>c \<in> set cs. fst c < n" and "k < length cs" and "cs ! k = (i, p)"
  shows "\<forall>c \<in> set (cs[k := (i, q)]). fst c < n" and "i < n"
proof -
  from assms(2,3) have "(i, p) \<in> set cs" by (metis nth_mem)
  with assms(1) show "i < n" by auto
  with assms(1) show "\<forall>c \<in> set (cs[k := (i, q)]). fst c < n"
    using set_update_subset_insert [of cs k "(i, q)"] by auto
qed

lemma conn_step_conns_inv:
  assumes "conns_inv mnts s" and "conn_step m ntf mnts s t"
  shows "conns_inv mnts t"
  using assms(2,1)
proof (cases rule: conn_step.cases)
  case (dial k i n)
  with assms(1) update_conn_ball(1) [of "sv_conns s" "length mnts" k i "Counted n" Dialing]
    update_conn_ball(2) [of "sv_conns s" "length mnts" k i "Counted n"]
  show ?thesis by (auto simp: conns_inv_def nth_list_update given_up_def)
qed (use assms(1) update_conn_ball(1) in \<open>force simp: conns_inv_def nth_list_update given_up_def\<close>)+

interpretation conns: step_invariant "serve_step m ntf mnts" "conns_inv mnts" for m ntf mnts
  by unfold_locales (auto simp: serve_step_def intro: accept_step_conns_inv conn_step_conns_inv)

section \<open>Properties\<close>

lemma backend_conns_le: "backend_conns s \<le> num (is_admitted m) (sv_conns s)"
  unfolding backend_conns_def by (rule num_mono) auto

text \<open>A counter at zero with fewer than \<open>2^64\<close> connections: every goroutine is before or after its count.\<close>

lemma drained:
  assumes "server_inv m s" and "sv_connCount s = 0" and "length (sv_conns s) < 2 ^ 64" and "k < length (sv_conns s)"
  shows "snd (sv_conns s ! k) \<in> {Accepted, Done}"
proof -
  have "num is_active (sv_conns s) < 2 ^ 64" using num_le_length assms(3) le_less_trans by blast
  moreover have "of_nat (num is_active (sv_conns s)) = (0 :: uint64)" using assms(1,2) by (simp add: server_inv_def)
  then have "2 ^ 64 dvd num is_active (sv_conns s)" by (simp add: word_of_nat_eq_0_iff)
  ultimately have "num is_active (sv_conns s) = 0" by (meson gr_zeroI nat_dvd_not_less)
  then have "\<not> is_active (snd (sv_conns s ! k))" using num_pos [OF assms(4), of is_active] by auto
  then show ?thesis by (metis insertCI is_active.elims(3))
qed

text \<open>Further mounts with their accept loops change nothing for the connections of the others.\<close>

lemma accept_step_more:
  "accept_step s t \<Longrightarrow> accept_step (s\<lparr>sv_loops := sv_loops s @ ls\<rparr>) (t\<lparr>sv_loops := sv_loops t @ ls\<rparr>)"
proof (induction rule: accept_step.induct)
  case (accept i s)
  then show ?case using accept_step.accept [of i "s\<lparr>sv_loops := sv_loops s @ ls\<rparr>"] by (cases s) (simp add: nth_append)
next
  case (accept_retry i s e)
  then show ?case using accept_step.accept_retry [of i "s\<lparr>sv_loops := sv_loops s @ ls\<rparr>" e] by (simp add: nth_append)
next
  case (accept_fail i s e)
  then show ?case using accept_step.accept_fail [of i "s\<lparr>sv_loops := sv_loops s @ ls\<rparr>" e] by (simp add: nth_append list_update_append)
qed

lemma conn_step_more:
  assumes "conn_step m ntf mnts s t" and "\<forall>c \<in> set (sv_conns s). fst c < length mnts"
  shows "conn_step m ntf (mnts @ new) (s\<lparr>sv_loops := sv_loops s @ ls\<rparr>) (t\<lparr>sv_loops := sv_loops t @ ls\<rparr>)"
proof -
  note intros = conn_step.intros(1-3) [of _ "s\<lparr>sv_loops := sv_loops s @ ls\<rparr>" _ _ m ntf "mnts @ new"]
    conn_step.intros(4-7) [of _ "s\<lparr>sv_loops := sv_loops s @ ls\<rparr>" _ m ntf "mnts @ new"]
  show ?thesis using assms(1)
  proof (cases rule: conn_step.cases)
    case (dial k i n)
    then have "i < length mnts" using assms(2) nth_mem by fastforce
    with dial intros(3) [of k i n] show ?thesis by (cases s) (simp add: nth_append)
  next
    case (count k i n)
    with intros(1) [of k i n] show ?thesis by (cases s) simp
  next
    case (refuse k i n)
    with intros(2) [of k i n] show ?thesis by (cases s; cases ntf) simp_all
  next
    case (dial_fail k i)
    with intros(4) [of k i] show ?thesis by (cases s) simp
  next
    case (dial_ok k i)
    with intros(5) [of k i] show ?thesis by (cases s) simp
  next
    case (proxied k i)
    with intros(6) [of k i] show ?thesis by (cases s) simp
  next
    case (leave k i)
    with intros(7) [of k i] show ?thesis by (cases s) simp
  qed
qed

lemma serve_steps_more:
  assumes "(serve_step m ntf mnts)\<^sup>*\<^sup>* (init_server mnts) s"
  shows "(serve_step m ntf (mnts @ new))\<^sup>*\<^sup>* (init_server (mnts @ new)) (s\<lparr>sv_loops := sv_loops s @ map (\<lambda>_. None) new\<rparr>)"
  using assms
proof (induction rule: rtranclp_induct)
  case base
  then show ?case by (simp add: init_server_def)
next
  case (step s t)
  have "\<forall>c \<in> set (sv_conns s). fst c < length mnts" using conns.inv_steps [OF step.hyps(1) conns_inv_init] by (simp add: conns_inv_def)
  with step.hyps(2) have "serve_step m ntf (mnts @ new) (s\<lparr>sv_loops := sv_loops s @ map (\<lambda>_. None) new\<rparr>)
      (t\<lparr>sv_loops := sv_loops t @ map (\<lambda>_. None) new\<rparr>)"
    unfolding serve_step_def using accept_step_more conn_step_more by blast
  with step.IH show ?case by (rule rtranclp.rtrancl_into_rtrancl)
qed

text \<open>
  C1. With a limit set, no interleaving of accepting and connection goroutines has more
  than \<open>MaxConnections\<close> connections being dialed or proxied at once, as long as fewer than
  \<open>2^64\<close> connections have been accepted.
\<close>

theorem max_connections_enforced:
  assumes "(serve_step maxConn ntf mnts)\<^sup>*\<^sup>* (init_server mnts) s"
    and "0 < maxConn" and "length (sv_conns s) < 2 ^ 64"
  shows "backend_conns s \<le> unat maxConn"
  using server_reachable_inv [OF assms(1)] assms(2,3) backend_conns_le [of s maxConn]
  by (auto simp: server_inv_def)

definition sample_mount :: socketMount where
  "sample_mount = \<lparr>sm_inst = ''p:r:i'', sm_listener = 0, sm_dialOpts = []\<rparr>"

definition sample_state :: "phase \<Rightarrow> server" where
  "sample_state p = \<lparr>sv_connCount = 1, sv_conns = [(0, p)], sv_refused = 0, sv_closed = [],
     sv_dialed = (if p = Dialing then [(''p:r:i'', [])] else []), sv_loops = [None]\<rparr>"

lemma sample_run: "(serve_step 1 True [sample_mount])\<^sup>*\<^sup>* (init_server [sample_mount]) (sample_state Dialing)"
proof -
  let ?i = "init_server [sample_mount]" and ?st = "serve_step 1 True [sample_mount]"
  let ?a = "?i\<lparr>sv_conns := [(0, Accepted)]\<rparr>"
  have "?st ?i ?a"
    using accept [of 0 ?i] by (simp add: serve_step_def init_server_def)
  moreover have "?st ?a (sample_state (Counted 1))"
    using count [of 0 ?a 0 1 1 True "[sample_mount]"]
    by (simp add: serve_step_def init_server_def sample_state_def)
  moreover have "?st (sample_state (Counted 1)) (sample_state Dialing)"
    using dial [of 0 "sample_state (Counted 1)" 0 1 1 True "[sample_mount]"]
    by (simp add: serve_step_def sample_state_def over_limit_def sample_mount_def)
  ultimately show ?thesis by (meson converse_rtranclp_into_rtranclp rtranclp.rtrancl_refl)
qed

theorem max_connections_enforced_witness: "backend_conns (sample_state Dialing) \<le> 1"
proof -
  have "backend_conns (sample_state Dialing) \<le> unat (1 :: uint64)"
    by (rule max_connections_enforced [OF sample_run]) (simp_all add: sample_state_def)
  then show ?thesis by simp
qed

text \<open>
  C18. The counter does not leak: in every reachable state it is the number, modulo \<open>2^64\<close>, of
  goroutines between their increment and their deferred decrement, whichever way the other
  goroutines ended (refused, failed to dial, proxied).
\<close>

theorem connCount_is_active:
  assumes "(serve_step maxConn ntf mnts)\<^sup>*\<^sup>* (init_server mnts) s"
  shows "sv_connCount s = of_nat (length (filter (\<lambda>c. snd c \<noteq> Accepted \<and> snd c \<noteq> Done) (sv_conns s)))"
proof -
  have "is_active p \<longleftrightarrow> p \<noteq> Accepted \<and> p \<noteq> Done" for p by (cases p) auto
  then show ?thesis using server_reachable_inv [OF assms] by (simp add: server_inv_def num_def)
qed

theorem connCount_is_active_witness: "sv_connCount (sample_state Dialing) = 1"
  using connCount_is_active [OF sample_run] by (simp add: sample_state_def)

text \<open>
  C20. Client connections are neither leaked nor closed twice: in every reachable state the
  closed ones are exactly those whose goroutine is past its last use of the connection; and
  every dial was for the instance of one of the mounts, with that mount's options.
\<close>

theorem client_conns_closed_once:
  assumes "(serve_step maxConn ntf mnts)\<^sup>*\<^sup>* (init_server mnts) s"
  shows "distinct (sv_closed s)
    \<and> set (sv_closed s) = {k. k < length (sv_conns s) \<and> snd (sv_conns s ! k) \<in> {Leaving, Done}}
    \<and> (\<forall>d \<in> set (sv_dialed s). \<exists>m \<in> set mnts. d = (sm_inst m, sm_dialOpts m))"
  using conns.inv_steps [OF assms conns_inv_init] by (auto simp: conns_inv_def given_up_def)

theorem client_conns_closed_once_witness:
  "distinct (sv_closed (sample_state Dialing)) \<and> sv_dialed (sample_state Dialing) = [(sm_inst sample_mount, sm_dialOpts sample_mount)]"
  using client_conns_closed_once [OF sample_run] by (simp add: sample_state_def)

end
