(* ===== verification/Client.thy ===== *)
theory Client
  imports Fuse Server
begin

text \<open>
  The client (internal/proxy/proxy.go, lines 539-789): \<open>NewClient\<close> (dialer, cache warm-up,
  mounting every instance), \<open>CheckConnections\<close>, \<open>ConnCount\<close>, \<open>Serve\<close> and \<open>Close\<close>. The dialer, the
  credential libraries, the operating system and the schedule are parameters.
\<close>

section \<open>Printing durations\<close>

text \<open>\<open>time.Duration.String\<close>: nanoseconds as hours, minutes and seconds with a fraction.\<close>

definition frac :: "nat \<Rightarrow> nat \<Rightarrow> string" where
  "frac u p =
     (let d = show_nat (u mod 10 ^ p);
          f = rev (dropWhile (\<lambda>x. x = CHR ''0'') (rev (replicate (p - length d) (CHR ''0'') @ d)))
      in if f = [] then [] else CHR ''.'' # f)"

definition duration_String :: "int \<Rightarrow> string" where
  "duration_String d =
     (let u = nat \<bar>d\<bar>; secs = u div 10 ^ 9;
          s = (if u = 0 then ''0s''
               else if u < 10 ^ 3 then show_nat u @ ''ns''
               else if u < 10 ^ 6 then show_nat (u div 10 ^ 3) @ frac u 3 @ [CHR 0xC2, CHR 0xB5] @ ''s''
               else if u < 10 ^ 9 then show_nat (u div 10 ^ 6) @ frac u 6 @ ''ms''
               else (if 3600 \<le> secs then show_nat (secs div 3600) @ ''h'' else [])
                    @ (if 60 \<le> secs then show_nat (secs div 60 mod 60) @ ''m'' else [])
                    @ show_nat (secs mod 60) @ frac u 9 @ ''s'')
      in if d < 0 then CHR ''-'' # s else s)"

section \<open>Creating a client\<close>

text \<open>\<open>given\<close> says whether the caller passed a dialer; \<open>newDialer\<close> is \<open>cloudsqlconn.NewDialer\<close>.\<close>

definition initDialer ::
  "'t cred_env \<Rightarrow> ('t Option list \<Rightarrow> go_error option) \<Rightarrow> bool \<Rightarrow> Config \<Rightarrow> unit outcome" where
  "initDialer cred newDialer given conf =
     (if given then Ok ()
      else case DialerOptions cred conf of
          Err e \<Rightarrow> Err (ErrorString (''error initializing dialer: '' @ Error e))
        | Panic \<Rightarrow> Panic
        | Ok dialerOpts \<Rightarrow>
            (case newDialer dialerOpts of
               Some e \<Rightarrow> Err (ErrorString (''error initializing dialer: '' @ Error e))
             | None \<Rightarrow> Ok ()))"

text \<open>The instances whose cache is warmed, in the order the goroutines are started.\<close>

definition warmUp :: "Config \<Rightarrow> string list" where
  "warmUp conf = map ic_Name (filter (\<lambda>inst. \<not> sqlDataOn conf inst) (cf_Instances conf))"

text \<open>Closing mounts one by one; the errors are collected, none stops the loop.\<close>

fun closeMounts :: "sys \<Rightarrow> socketMount list \<Rightarrow> os \<Rightarrow> go_error list \<times> os" where
  "closeMounts sys [] s = ([], s)"
| "closeMounts sys (m # ms) s =
     (case socketMount_Close sys m s of (e, s1) \<Rightarrow>
      case closeMounts sys ms s1 of (es, s2) \<Rightarrow>
        ((case e of Some x \<Rightarrow> x # es | None \<Rightarrow> es), s2))"

fun mountAll ::
  "sys \<Rightarrow> Config \<Rightarrow> InstanceConnConfig list \<Rightarrow> portConfig option \<Rightarrow> socketMount list \<Rightarrow> os \<Rightarrow>
     socketMount list outcome \<times> os" where
  "mountAll sys conf [] pc mnts s = (Ok mnts, s)"
| "mountAll sys conf (inst # insts) pc mnts s =
     (case newSocketMount sys conf pc inst s of
        (Ok m, pc', s') \<Rightarrow> mountAll sys conf insts pc' (mnts @ [m]) s'
      | (Err e, pc', s') \<Rightarrow>
          if cf_SkipFailedInstanceConfig conf then mountAll sys conf insts pc' mnts s'
          else (Err (ErrorString (''['' @ ic_Name inst @ ''] Unable to mount socket: '' @ Error e)),
                snd (closeMounts sys mnts s'))
      | (Panic, pc', s') \<Rightarrow> (Panic, s'))"

definition NewClient ::
  "'t cred_env \<Rightarrow> ('t Option list \<Rightarrow> go_error option) \<Rightarrow> sys \<Rightarrow> fuse_env \<Rightarrow> bool \<Rightarrow> bool \<Rightarrow> Config \<Rightarrow> os \<Rightarrow>
     Client outcome \<times> string list \<times> os" where
  "NewClient cred newDialer sys fe given notify conf s =
     (case initDialer cred newDialer given conf of
        Err e \<Rightarrow> (Err e, [], s)
      | Panic \<Rightarrow> (Panic, [], s)
      | Ok _ \<Rightarrow>
         (let c = \<lparr>cl_conf = conf, cl_mnts = [], cl_connRefuseNotify = notify, cl_fuse = zero_fuseMount\<rparr> in
          if cf_FUSEDir conf \<noteq> [] then
            (case configureFUSE sys fe c conf s of (r, s') \<Rightarrow> (r, [], s'))
          else
            (case mountAll sys conf (cf_Instances conf) (Some (newPortConfig (cf_Port conf))) [] s of
               (Ok mnts, s') \<Rightarrow> (Ok (c\<lparr>cl_mnts := mnts\<rparr>), warmUp conf, s')
             | (Err e, s') \<Rightarrow> (Err e, warmUp conf, s')
             | (Panic, s') \<Rightarrow> (Panic, warmUp conf, s'))))"

text \<open>
  The same in steps, between which the rest of the process runs: setting up the dialer; with FUSE,
  \<open>os.Stat\<close> and \<open>os.MkdirAll\<close>; otherwise one instance after the other, with the instances left and the
  mounts so far, and, when one has failed, the mounts to be closed before the error is returned.
  A panic of a library leaves the mounts so far open.
  A mount is one step: before its listener is open it changes nothing that others see, and after
  that it only sets the socket's file mode.
\<close>

datatype new_phase =
    NewCalled
  | StatFUSEDir
  | MakeTempDir
  | MountNext "InstanceConnConfig list" "portConfig option" "socketMount list"
  | Undo go_error "socketMount list"
  | NewDone "Client outcome"
  | Crashed "socketMount list"

definition new_client :: "bool \<Rightarrow> Config \<Rightarrow> Client" where
  "new_client notify conf = \<lparr>cl_conf = conf, cl_mnts = [], cl_connRefuseNotify = notify, cl_fuse = zero_fuseMount\<rparr>"

fun NewClient_next ::
  "'t cred_env \<Rightarrow> ('t Option list \<Rightarrow> go_error option) \<Rightarrow> sys \<Rightarrow> fuse_env \<Rightarrow> bool \<Rightarrow> bool \<Rightarrow> Config \<Rightarrow> new_phase \<Rightarrow> os \<Rightarrow>
     new_phase \<times> os" where
  "NewClient_next cred newDialer sys fe given notify conf NewCalled s =
     ((case initDialer cred newDialer given conf of
         Err e \<Rightarrow> NewDone (Err e)
       | Panic \<Rightarrow> Crashed []
       | Ok _ \<Rightarrow>
           if cf_FUSEDir conf \<noteq> [] then StatFUSEDir
           else MountNext (cf_Instances conf) (Some (newPortConfig (cf_Port conf))) []), s)"
| "NewClient_next cred newDialer sys fe given notify conf StatFUSEDir s =
     ((case stat_err sys s (cf_FUSEDir conf) of Some e \<Rightarrow> NewDone (Err e) | None \<Rightarrow> MakeTempDir), s)"
| "NewClient_next cred newDialer sys fe given notify conf MakeTempDir s =
     (case mkdirAll_err fe s (cf_FUSETempDir conf) of
        Some e \<Rightarrow> (NewDone (Err e), s)
      | None \<Rightarrow>
          (NewDone (Ok ((new_client notify conf)\<lparr>cl_fuse :=
             zero_fuseMount\<lparr>fm_fuseDir := cf_FUSEDir conf, fm_fuseTempDir := cf_FUSETempDir conf\<rparr>\<rparr>)),
           s\<lparr>os_paths := cf_FUSETempDir conf # os_paths s\<rparr>))"
| "NewClient_next cred newDialer sys fe given notify conf (MountNext [] pc mnts) s =
     (NewDone (Ok ((new_client notify conf)\<lparr>cl_mnts := mnts\<rparr>)), s)"
| "NewClient_next cred newDialer sys fe given notify conf (MountNext (inst # insts) pc mnts) s =
     (case newSocketMount sys conf pc inst s of
        (Ok m, pc', s') \<Rightarrow> (MountNext insts pc' (mnts @ [m]), s')
      | (Err e, pc', s') \<Rightarrow>
          (if cf_SkipFailedInstanceConfig conf then MountNext insts pc' mnts
           else Undo (ErrorString (''['' @ ic_Name inst @ ''] Unable to mount socket: '' @ Error e)) mnts, s')
      | (Panic, pc', s') \<Rightarrow> (Crashed mnts, s'))"
| "NewClient_next cred newDialer sys fe given notify conf (Undo e []) s = (NewDone (Err e), s)"
| "NewClient_next cred newDialer sys fe given notify conf (Undo e (m # ms)) s = (Undo e ms, snd (socketMount_Close sys m s))"
| "NewClient_next cred newDialer sys fe given notify conf (NewDone r) s = (NewDone r, s)"
| "NewClient_next cred newDialer sys fe given notify conf (Crashed mnts) s = (Crashed mnts, s)"

section \<open>Checking connections\<close>

text \<open>
  The dials run concurrently; \<open>order\<close> is the order they finish in. A failed dial sends its
  error into a channel of capacity \<open>cap\<close>, which nobody reads before all goroutines are done:
  a send into the full channel blocks its goroutine for good.
\<close>

fun runChecks :: "nat \<Rightarrow> (socketMount \<Rightarrow> go_error option) \<Rightarrow> socketMount list \<Rightarrow> go_error list \<Rightarrow> nat \<Rightarrow> go_error list \<times> nat" where
  "runChecks cap dial [] buf blocked = (buf, blocked)"
| "runChecks cap dial (m # ms) buf blocked =
     (case dial m of
        None \<Rightarrow> runChecks cap dial ms buf blocked
      | Some e \<Rightarrow>
          if length buf < cap then runChecks cap dial ms (buf @ [e]) blocked
          else runChecks cap dial ms buf (Suc blocked))"

text \<open>The non-blocking receives after \<open>wg.Wait()\<close>.\<close>

fun drainErrs :: "nat \<Rightarrow> go_error list \<Rightarrow> go_error list" where
  "drainErrs 0 buf = []"
| "drainErrs (Suc n) [] = drainErrs n []"
| "drainErrs (Suc n) (e # es) = e # drainErrs n es"

text \<open>\<open>None\<close> is a call that never returns.\<close>

definition CheckConnections ::
  "((string \<times> socketSymlink) list \<Rightarrow> (string \<times> socketSymlink) list) \<Rightarrow> (socketMount list \<Rightarrow> socketMount list) \<Rightarrow>
     (socketMount \<Rightarrow> go_error option) \<Rightarrow> Client \<Rightarrow> (nat \<times> go_error option) option" where
  "CheckConnections rng order dial c =
     (let mnts = (if fm_fuseDir (cl_fuse c) \<noteq> [] then fuseMounts rng c else cl_mnts c);
          (buf, blocked) = runChecks (length (cl_mnts c)) dial (order mnts) [] 0
      in if 0 < blocked then None
         else let mErr = drainErrs (length mnts) buf
              in Some (length mnts, if mErr \<noteq> [] then Some (MultiErr mErr) else None))"

definition ConnCount :: "server \<Rightarrow> Client \<Rightarrow> uint64 \<times> uint64" where
  "ConnCount sv c = (sv_connCount sv, cf_MaxConnections (cl_conf c))"

section \<open>Serving\<close>

text \<open>What \<open>Serve\<close> does before it starts the accept loops.\<close>

datatype serve_start = StartFuse | StartFailed go_error | StartBlocked | StartLoops

definition Serve_start ::
  "((string \<times> socketSymlink) list \<Rightarrow> (string \<times> socketSymlink) list) \<Rightarrow> (socketMount list \<Rightarrow> socketMount list) \<Rightarrow>
     (socketMount \<Rightarrow> go_error option) \<Rightarrow> Client \<Rightarrow> serve_start" where
  "Serve_start rng order dial c =
     (if fm_fuseDir (cl_fuse c) \<noteq> [] then StartFuse
      else if cf_RunConnectionTest (cl_conf c) then
        (case CheckConnections rng order dial c of
           None \<Rightarrow> StartBlocked
         | Some (_, Some err) \<Rightarrow> StartFailed err
         | Some (_, None) \<Rightarrow> StartLoops)
      else StartLoops)"

text \<open>
  The accept loops and the goroutine of \<open>Serve\<close>, which calls \<open>notify\<close> and then receives from
  the unbuffered \<open>exitCh\<close>. A loop that ends offers its error: the send succeeds only if the
  receiver is waiting at that moment.
\<close>

datatype serve_main = Starting | Receiving | MainReturned go_error

record serve_state =
  se_main :: serve_main
  se_loops :: "go_error option list"

definition init_serve :: "Client \<Rightarrow> serve_state" where
  "init_serve c = \<lparr>se_main = Starting, se_loops = map (\<lambda>_. None) (cl_mnts c)\<rparr>"

inductive exit_step :: "serve_state \<Rightarrow> serve_state \<Rightarrow> bool" where
  notified: "se_main s = Starting \<Longrightarrow> exit_step s (s\<lparr>se_main := Receiving\<rparr>)"
| loop_sent: "i < length (se_loops s) \<Longrightarrow> se_loops s ! i = None \<Longrightarrow> se_main s = Receiving \<Longrightarrow>
     exit_step s (s\<lparr>se_loops := (se_loops s)[i := Some err], se_main := MainReturned err\<rparr>)"
| loop_dropped: "i < length (se_loops s) \<Longrightarrow> se_loops s ! i = None \<Longrightarrow> se_main s \<noteq> Receiving \<Longrightarrow>
     exit_step s (s\<lparr>se_loops := (se_loops s)[i := Some err]\<rparr>)"

section \<open>Closing\<close>

text \<open>
  The wait loop sees ticks, each with the counter it loads, and at last the timeout. \<open>Some\<close>
  means the loop was left, with whether all connections had drained.
\<close>

datatype close_event = Tick uint64 | Timeout

fun waitLoop :: "close_event list \<Rightarrow> bool option" where
  "waitLoop [] = None"
| "waitLoop (Tick n # es) = (if 0 < n then waitLoop es else Some True)"
| "waitLoop (Timeout # es) = Some False"

definition opt_list :: "'a option \<Rightarrow> 'a list" where
  "opt_list x = (case x of Some e \<Rightarrow> [e] | None \<Rightarrow> [])"

text \<open>
  \<open>events\<close> is what the wait loop sees, \<open>c2\<close> the client when \<open>waitForFUSEMounts\<close> looks at it and
  \<open>n_open\<close> the counter loaded at the end. \<open>None\<close>: the call is still waiting.
\<close>

definition Client_Close ::
  "sys \<Rightarrow> fuse_env \<Rightarrow> go_error option \<Rightarrow> ((string \<times> socketSymlink) list \<Rightarrow> (string \<times> socketSymlink) list) \<Rightarrow>
     close_event list \<Rightarrow> Client \<Rightarrow> uint64 \<Rightarrow> Client \<Rightarrow> os \<Rightarrow> (go_error option \<times> os) option" where
  "Client_Close sys fe dialerClose rng events c2 n_open c s =
     (let fuse = (fm_fuseDir (cl_fuse c) \<noteq> []);
          mErr1 = (if fuse then opt_list (unmountFUSE fe c) else []);
          mnts = (if fuse then fuseMounts rng c else cl_mnts c);
          mErr2 = mErr1 @ opt_list dialerClose
      in if waitLoop events = None then None
         else case closeMounts sys mnts s of (errs, s') \<Rightarrow>
           if fuse \<and> \<not> waitForFUSEMounts c2 then None
           else
             (let wait = cf_WaitOnClose (cl_conf c);
                  mErr = mErr2 @ errs @
                    (if 0 < wait \<and> 0 < n_open
                     then [ErrorString (show_nat (unat n_open) @ '' connection(s) still open after waiting '' @ duration_String wait)]
                     else [])
              in Some (if mErr \<noteq> [] then Some (MultiErr mErr) else None, s')))"

section \<open>Facts about mounting and closing\<close>

lemma closeMounts_listeners:
  "os_listeners (snd (closeMounts sys ms s)) = filter (\<lambda>l. fst l \<notin> sm_listener ` set ms) (os_listeners s)"
proof (induction ms arbitrary: s)
  case (Cons m ms)
  have "os_listeners (snd (socketMount_Close sys m s)) = filter (\<lambda>l. fst l \<noteq> sm_listener m) (os_listeners s)"
    by (force simp: socketMount_Close_def ln_Close_def intro!: filter_True [symmetric])
  with Cons [of "snd (socketMount_Close sys m s)"] show ?case
    by (simp add: case_prod_unfold conj_commute)
qed simp

text \<open>
  The listeners opened on top of the initial ones \<open>ls\<close>, whose handles are below \<open>n\<close>, are
  those of the mounts, in order.
\<close>

definition opened :: "nat \<Rightarrow> (nat \<times> string \<times> string) list \<Rightarrow> socketMount list \<Rightarrow> os \<Rightarrow> bool" where
  "opened n ls mnts s \<longleftrightarrow>
     n \<le> os_next s \<and> (\<forall>l \<in> set ls. fst l < n) \<and> (\<forall>m \<in> set mnts. n \<le> sm_listener m \<and> sm_listener m < os_next s)
     \<and> (\<exists>new. os_listeners s = ls @ new \<and> map fst new = map sm_listener mnts) \<and> distinct (map sm_listener mnts)"

lemma opened_close:
  assumes "opened n ls mnts s"
  shows "os_listeners (snd (closeMounts sys mnts s)) = ls"
proof -
  obtain new where new: "os_listeners s = ls @ new" "map fst new = map sm_listener mnts"
    using assms by (auto simp: opened_def)
  have "fst l \<in> sm_listener ` set mnts" if "l \<in> set new" for l
    using that new(2) by (metis image_eqI list.set_map)
  moreover have "fst l \<notin> sm_listener ` set mnts" if "l \<in> set ls" for l
    using that assms by (fastforce simp: opened_def)
  ultimately show ?thesis
    by (simp add: closeMounts_listeners new(1) filter_id_conv filter_empty_conv)
qed

lemma opened_listening:
  assumes "opened n ls mnts s" and "m \<in> set mnts"
  shows "sm_listener m \<in> fst ` set (os_listeners s)"
proof -
  obtain new where new: "os_listeners s = ls @ new" "map fst new = map sm_listener mnts" using assms(1) by (auto simp: opened_def)
  from arg_cong [where f = set, OF new(2)] assms(2) have "sm_listener m \<in> fst ` set new" by simp
  with new(1) show ?thesis by auto
qed

lemma opened_mount:
  assumes "opened n ls mnts s" and "newSocketMount sys conf pc inst s = (Ok m, pc', s')"
  shows "opened n ls (mnts @ [m]) s'"
proof (cases rule: newSocketMount_cases [of sys conf pc inst s])
  case (mounted m1 pc1 s1 network address)
  with assms show ?thesis by (fastforce simp: opened_def)
qed (use assms in auto)

lemma opened_fail:
  assumes "opened n ls mnts s" and "newSocketMount sys conf pc inst s = (r, pc', s')" and "\<not> is_Ok r"
  shows "opened n ls mnts s'"
proof (cases rule: newSocketMount_cases [of sys conf pc inst s])
  case (failed r1 pc1 s1)
  with assms show ?thesis by (auto simp: opened_def)
qed (use assms in auto)

lemma mountAll_opened:
  assumes "opened n ls mnts s"
  shows "case mountAll sys conf insts pc mnts s of
      (Ok ms, s') \<Rightarrow> opened n ls ms s'
    | (Err e, s') \<Rightarrow> os_listeners s' = ls
    | (Panic, s') \<Rightarrow> True"
  using assms
proof (induction insts arbitrary: pc mnts s)
  case (Cons inst insts)
  obtain r pc' s' where r: "newSocketMount sys conf pc inst s = (r, pc', s')"
    by (cases "newSocketMount sys conf pc inst s")
  show ?case
  proof (cases r)
    case (Ok m)
    with Cons.IH [OF opened_mount [OF Cons.prems]] r show ?thesis by simp
  next
    case (Err e)
    then have "opened n ls mnts s'" using opened_fail [OF Cons.prems r] by simp
    with Cons.IH [OF this, of pc'] opened_close [OF this] r Err show ?thesis by simp
  qed (use r in simp)
qed simp

text \<open>Without skipping, a successful run mounts every instance, in order, with its options.\<close>

lemma mountAll_complete:
  assumes "mountAll sys conf insts pc mnts s = (Ok ms, s')" and "\<not> cf_SkipFailedInstanceConfig conf"
  shows "map (\<lambda>m. (sm_inst m, sm_dialOpts m)) ms =
    map (\<lambda>m. (sm_inst m, sm_dialOpts m)) mnts @ map (\<lambda>i. (ic_Name i, dialOptions conf i)) insts"
  using assms
proof (induction insts arbitrary: pc mnts s)
  case (Cons inst insts)
  show ?case
  proof (cases rule: newSocketMount_cases [of sys conf pc inst s])
    case (mounted m1 pc1 s1 network address)
    with Cons.IH [of pc1 "mnts @ [m1]" s1] Cons.prems show ?thesis by simp
  next
    case (failed r1 pc1 s1)
    with Cons.prems show ?thesis by (cases r1) simp_all
  qed
qed simp


section \<open>\<open>NewClient\<close> in steps\<close>

text \<open>The result from a phase on, in one go.\<close>

fun NewClient_rest ::
  "'t cred_env \<Rightarrow> ('t Option list \<Rightarrow> go_error option) \<Rightarrow> sys \<Rightarrow> fuse_env \<Rightarrow> bool \<Rightarrow> bool \<Rightarrow> Config \<Rightarrow> new_phase \<Rightarrow> os \<Rightarrow>
     Client outcome \<times> os" where
  "NewClient_rest cred newDialer sys fe given notify conf NewCalled s =
     (case NewClient cred newDialer sys fe given notify conf s of (r, warm, s') \<Rightarrow> (r, s'))"
| "NewClient_rest cred newDialer sys fe given notify conf StatFUSEDir s = configureFUSE sys fe (new_client notify conf) conf s"
| "NewClient_rest cred newDialer sys fe given notify conf MakeTempDir s =
     configureFUSE (sys\<lparr>stat_err := (\<lambda>_ _. None)\<rparr>) fe (new_client notify conf) conf s"
| "NewClient_rest cred newDialer sys fe given notify conf (MountNext insts pc mnts) s =
     (case mountAll sys conf insts pc mnts s of
        (Ok ms, s') \<Rightarrow> (Ok ((new_client notify conf)\<lparr>cl_mnts := ms\<rparr>), s')
      | (Err e, s') \<Rightarrow> (Err e, s')
      | (Panic, s') \<Rightarrow> (Panic, s'))"
| "NewClient_rest cred newDialer sys fe given notify conf (Undo e ms) s = (Err e, snd (closeMounts sys ms s))"
| "NewClient_rest cred newDialer sys fe given notify conf (NewDone r) s = (r, s)"
| "NewClient_rest cred newDialer sys fe given notify conf (Crashed mnts) s = (Panic, s)"

lemma NewClient_next_rest:
  "NewClient_next cred newDialer sys fe given notify conf ph s = (ph', s') \<Longrightarrow>
   NewClient_rest cred newDialer sys fe given notify conf ph' s' = NewClient_rest cred newDialer sys fe given notify conf ph s"
  by (cases "(cred, newDialer, sys, fe, given, notify, conf, ph, s)" rule: NewClient_next.cases)
    (auto simp: NewClient_def new_client_def configureFUSE_def Let_def case_prod_unfold
      split: outcome.splits option.splits prod.splits if_splits)

text \<open>It takes at most three steps and two per instance.\<close>

fun new_left :: "Config \<Rightarrow> new_phase \<Rightarrow> nat" where
  "new_left conf NewCalled = 2 * length (cf_Instances conf) + 3"
| "new_left conf StatFUSEDir = 2"
| "new_left conf MakeTempDir = 1"
| "new_left conf (MountNext insts pc mnts) = 2 * length insts + length mnts + 2"
| "new_left conf (Undo e ms) = length ms + 1"
| "new_left conf (NewDone r) = 0"
| "new_left conf (Crashed mnts) = 0"

lemma new_left_next:
  "NewClient_next cred newDialer sys fe given notify conf ph s = (ph', s') \<Longrightarrow> new_left conf ph \<noteq> 0 \<Longrightarrow> new_left conf ph' < new_left conf ph"
  by (cases "(cred, newDialer, sys, fe, given, notify, conf, ph, s)" rule: NewClient_next.cases)
    (auto split: outcome.splits option.splits prod.splits if_splits)

text \<open>The mounts that are open.\<close>

fun new_mounts :: "new_phase \<Rightarrow> socketMount list" where
  "new_mounts (MountNext insts pc mnts) = mnts"
| "new_mounts (Undo e ms) = ms"
| "new_mounts (Crashed mnts) = mnts"
| "new_mounts (NewDone (Ok c)) = cl_mnts c"
| "new_mounts _ = []"

lemma opened_close_first:
  assumes "opened n ls (m # ms) s" and "socketMount_Close sys m s = (e, s')"
  shows "opened n ls ms s'"
proof -
  obtain l new where new: "os_listeners s = ls @ l # new" "fst l = sm_listener m" "map fst new = map sm_listener ms"
    using assms(1) by (auto simp: opened_def Cons_eq_map_conv)
  have l: "sm_listener m \<notin> fst ` set ls" "sm_listener m \<notin> fst ` set new"
    using assms(1) new(3) unfolding opened_def set_map [symmetric] by fastforce+
  have "os_listeners s' = filter (\<lambda>x. fst x \<noteq> sm_listener m) (os_listeners s) \<and> os_next s' = os_next s"
    using assms(2) new(1,2) by (auto simp: socketMount_Close_def ln_Close_def split: if_splits)
  moreover have "filter (\<lambda>x. fst x \<noteq> sm_listener m) ls = ls" "filter (\<lambda>x. fst x \<noteq> sm_listener m) new = new"
    using l by (auto simp: filter_id_conv rev_image_eqI)
  then have "filter (\<lambda>x. fst x \<noteq> sm_listener m) (os_listeners s) = ls @ new" using new(1,2) by simp
  ultimately show ?thesis using assms(1) new(3) by (auto simp: opened_def)
qed

lemma NewClient_next_opened:
  assumes "opened n ls (new_mounts ph) s" and "NewClient_next cred newDialer sys fe given notify conf ph s = (ph', s')"
  shows "opened n ls (new_mounts ph') s'"
proof -
  show ?thesis
  proof (cases ph)
    case (MountNext insts pc mnts)
    show ?thesis
    proof (cases insts)
      case (Cons i rest)
      obtain r pc' s1 where r: "newSocketMount sys conf pc i s = (r, pc', s1)" by (cases "newSocketMount sys conf pc i s")
      show ?thesis
      proof (cases r)
        case (Ok m)
        then show ?thesis using assms r MountNext Cons opened_mount [of n ls mnts s sys conf pc i m pc' s1] by auto
      qed (use assms r MountNext Cons opened_fail [of n ls mnts s sys conf pc i r pc' s1] in auto)
    qed (use assms MountNext in auto)
  next
    case (Undo e ms)
    with assms opened_close_first [OF _ prod.collapse [symmetric]] show ?thesis by (cases ms) auto
  qed (use assms in \<open>auto simp: new_client_def opened_def split: outcome.splits option.splits if_splits\<close>)
qed

section \<open>Ports of the mounts\<close>

text \<open>An instance that listens on TCP and takes its port from the configuration's counter.\<close>

definition plain_tcp :: "Config \<Rightarrow> InstanceConnConfig \<Rightarrow> bool" where
  "plain_tcp conf i \<longleftrightarrow> networkType conf i = ''tcp'' \<and> ic_Port i = 0 \<and> cf_Port conf \<noteq> 0"

definition bind_addr :: "Config \<Rightarrow> InstanceConnConfig \<Rightarrow> string" where
  "bind_addr conf i = (if ic_Addr i \<noteq> [] then ic_Addr i else cf_Addr conf)"

lemma newSocketMount_plain_tcp:
  assumes "plain_tcp conf i" and "newSocketMount sys conf (Some pc) i s = (Ok m, pc', s')"
  shows "pc' = Some (pc\<lparr>pc_global := int64 (pc_global pc + 1)\<rparr>)
    \<and> os_listeners s' = os_listeners s @
        [(sm_listener m, tcpNetwork (bind_addr conf i), joinHostPort (bind_addr conf i) (show_int (pc_global pc)))]"
  using assms
  by (auto simp: plain_tcp_def bind_addr_def newSocketMount_def listenAddress_def listenPort_def nextPort_def net_Listen_def
      os_Chmod_def Let_def split: option.splits if_splits)

lemma mountAll_ports:
  assumes "list_all (plain_tcp conf) insts" and "\<not> cf_SkipFailedInstanceConfig conf"
    and "mountAll sys conf insts (Some pc) mnts s = (Ok ms, s')"
    and "in_int64 (pc_global pc)" and "in_int64 (pc_global pc + int (length insts))"
  shows "map (snd \<circ> snd) (os_listeners s') = map (snd \<circ> snd) (os_listeners s) @
    map (\<lambda>k. joinHostPort (bind_addr conf (insts ! k)) (show_int (pc_global pc + int k))) [0..<length insts]"
  using assms
proof (induction insts arbitrary: pc mnts s)
  case (Cons i insts)
  have up: "map f [0..<Suc n] = f 0 # map (\<lambda>k. f (Suc k)) [0..<n]" for f :: "nat \<Rightarrow> string" and n
    by (simp only: upt_conv_Cons zero_less_Suc list.map map_Suc_upt [symmetric] map_map o_def)
  show ?case
  proof (cases rule: newSocketMount_cases [of sys conf "Some pc" i s])
    case (mounted m pc' s1 network address)
    define q where "q = pc\<lparr>pc_global := int64 (pc_global pc + 1)\<rparr>"
    have "in_int64 (pc_global pc + 1)" using Cons.prems(4,5) by (simp add: in_int64_def)
    then have g: "pc_global q = pc_global pc + 1" by (simp add: q_def)
    have step: "pc' = Some q" "map (snd \<circ> snd) (os_listeners s1) =
        map (snd \<circ> snd) (os_listeners s) @ [joinHostPort (bind_addr conf i) (show_int (pc_global pc))]"
      using newSocketMount_plain_tcp [of conf i sys pc s m pc' s1] Cons.prems(1) mounted(1) by (auto simp: q_def)
    have "map (snd \<circ> snd) (os_listeners s') = map (snd \<circ> snd) (os_listeners s1) @
        map (\<lambda>k. joinHostPort (bind_addr conf (insts ! k)) (show_int (pc_global q + int k))) [0..<length insts]"
    proof (rule Cons.IH)
      show "mountAll sys conf insts (Some q) (mnts @ [m]) s1 = (Ok ms, s')"
        using Cons.prems(3) mounted(1) step(1) by simp
    qed (use Cons.prems g \<open>in_int64 (pc_global pc + 1)\<close> in \<open>simp_all add: algebra_simps\<close>)
    then show ?thesis
      unfolding step g length_Cons up by (simp add: algebra_simps o_def del: upt_Suc)
  next
    case (failed r1 pc1 s1)
    with Cons.prems show ?thesis by (cases r1) simp_all
  qed
qed simp

text \<open>Without \<open>--port\<close>: the port of an instance is that of the engine version the dialer reports.\<close>

definition default_tcp :: "Config \<Rightarrow> InstanceConnConfig \<Rightarrow> bool" where
  "default_tcp conf i \<longleftrightarrow> networkType conf i = ''tcp'' \<and> ic_Port i = 0 \<and> cf_Port conf = 0"

definition version_of :: "Config \<Rightarrow> (string \<Rightarrow> string) \<Rightarrow> InstanceConnConfig \<Rightarrow> string" where
  "version_of conf ver i = (if sqlDataOn conf i then ''POSTGRES'' else ver (ic_Name i))"

lemma newSocketMount_default_tcp:
  assumes "default_tcp conf i" and "\<And>t j. EngineVersion sys t j = Ok (ver j)"
    and "newSocketMount sys conf (Some pc) i s = (Ok m, pc', s')"
  shows "pc' = Some (snd (nextDBPort (version_of conf ver i) pc)) \<and> map (snd \<circ> snd) (os_listeners s') =
    map (snd \<circ> snd) (os_listeners s) @ [joinHostPort (bind_addr conf i) (show_int (fst (nextDBPort (version_of conf ver i) pc)))]"
  using assms
  by (auto simp: default_tcp_def version_of_def bind_addr_def newSocketMount_def listenAddress_def listenPort_def net_Listen_def
      tcpNetwork_def Let_def case_prod_unfold split: option.splits if_splits)

lemma mountAll_dbPorts:
  assumes "list_all (default_tcp conf) insts" and "\<not> cf_SkipFailedInstanceConfig conf" and "\<And>t j. EngineVersion sys t j = Ok (ver j)"
    and "mountAll sys conf insts (Some pc) mnts s = (Ok ms, s')"
  shows "map (snd \<circ> snd) (os_listeners s') = map (snd \<circ> snd) (os_listeners s) @
    map (\<lambda>(i, p). joinHostPort (bind_addr conf i) (show_int p)) (zip insts (fst (dbPorts (map (version_of conf ver) insts) pc)))"
  using assms
proof (induction insts arbitrary: pc mnts s)
  case (Cons i insts)
  show ?case
  proof (cases rule: newSocketMount_cases [of sys conf "Some pc" i s])
    case (mounted m pc' s1 network address)
    note step = newSocketMount_default_tcp [OF _ Cons.prems(3) mounted(1)]
    have "map (snd \<circ> snd) (os_listeners s') = map (snd \<circ> snd) (os_listeners s1) @
        map (\<lambda>(i, p). joinHostPort (bind_addr conf i) (show_int p))
          (zip insts (fst (dbPorts (map (version_of conf ver) insts) (snd (nextDBPort (version_of conf ver i) pc)))))"
      using Cons.prems mounted(1) step by (intro Cons.IH) auto
    then show ?thesis using step Cons.prems(1) by (simp add: dbPorts_Cons o_def del: dbPorts.simps(2))
  next
    case (failed r1 pc1 s1)
    with Cons.prems show ?thesis by (cases r1) simp_all
  qed
qed simp

section \<open>Facts about checking connections and exiting\<close>

lemma runChecks_enough:
  "length buf + length ms \<le> cap \<Longrightarrow>
   runChecks cap dial ms buf blocked = (buf @ List.map_filter dial ms, blocked)"
  by (induction ms arbitrary: buf) (auto simp: List.map_filter_simps split: option.split)

lemma runChecks_zero:
  "runChecks 0 dial ms buf blocked = (buf, blocked + length (List.map_filter dial ms))"
  by (induction ms arbitrary: blocked) (auto simp: List.map_filter_simps split: option.split)

lemma drainErrs_all: "length buf \<le> n \<Longrightarrow> drainErrs n buf = buf"
  by (induction n buf rule: drainErrs.induct) auto

lemma length_map_filter: "length (List.map_filter f xs) \<le> length xs"
  by (simp add: map_filter_def)

definition exit_inv :: "serve_state \<Rightarrow> bool" where
  "exit_inv s \<longleftrightarrow> (\<forall>e. se_main s = MainReturned e \<longrightarrow> Some e \<in> set (se_loops s))"

lemma set_update_keeps: "xs ! i = None \<Longrightarrow> Some e \<in> set xs \<Longrightarrow> i < length xs \<Longrightarrow> Some e \<in> set (xs[i := y])"
  by (metis in_set_conv_nth length_list_update nth_list_update_neq option.distinct(1))

lemma exit_step_inv: "exit_inv s \<Longrightarrow> exit_step s t \<Longrightarrow> exit_inv t"
  by (auto simp: exit_inv_def set_update_memI set_update_keeps elim!: exit_step.cases)

interpretation exit: step_invariant exit_step exit_inv
  by unfold_locales (rule exit_step_inv)

lemma waitLoop_returns: "Timeout \<in> set events \<Longrightarrow> waitLoop events \<noteq> None"
  by (induction events rule: waitLoop.induct) auto

section \<open>Properties\<close>

lemma NewClient_failed:
  assumes "NewClient cred newDialer sys fe given notify conf s = (Err e, warm, s')"
    and "\<forall>l \<in> set (os_listeners s). fst l < os_next s"
  shows "os_listeners s' = os_listeners s"
proof -
  have "opened (os_next s) (os_listeners s) [] s" using assms(2) by (simp add: opened_def)
  from mountAll_opened [OF this, of sys conf "cf_Instances conf" "Some (newPortConfig (cf_Port conf))"] assms(1)
  show ?thesis
    by (auto simp: NewClient_def configureFUSE_def Let_def split: outcome.splits if_splits prod.splits option.splits)
qed

text \<open>
  C19. A failed start leaves nothing behind: when \<open>NewClient\<close> returns an error, whichever
  instance failed, every listener it had opened is closed again and the earlier ones of the
  process are untouched.
\<close>

theorem NewClient_no_leak:
  assumes "NewClient cred newDialer sys fe given notify conf s = (Err e, warm, s')"
    and "\<forall>l \<in> set (os_listeners s). fst l < os_next s"
  shows "os_listeners s' = os_listeners s"
  using assms by (rule NewClient_failed)

text \<open>A system with one busy address.\<close>

definition busy_sys :: sys where
  "busy_sys = (plain_sys (\<lambda>_. ''MYSQL_8_0''))\<lparr>listen_err :=
     (\<lambda>s n a. if a = ''127.0.0.1:3307'' then Some (ErrorString ''address already in use'') else None)\<rparr>"

definition two_inst :: Config where
  "two_inst = zero_Config\<lparr>cf_Addr := ''127.0.0.1'', cf_Instances :=
     [zero_inst\<lparr>ic_Name := ''p:r:a''\<rparr>, zero_inst\<lparr>ic_Name := ''p:r:b'', ic_Port := 3307\<rparr>]\<rparr>"

definition no_fuse :: fuse_env where
  "no_fuse = \<lparr>mkdirAll_err = (\<lambda>_ _. None), fs_Mount_err = (\<lambda>_. None), Unmount_err = None\<rparr>"

lemma two_inst_fails:
  "\<exists>e warm s'. NewClient sample_env (\<lambda>_. None) busy_sys no_fuse True False two_inst (init_os []) = (Err e, warm, s')"
proof -
  have "joinHostPort ''127.0.0.1'' (show_int 3306) = ''127.0.0.1:3306''
      \<and> joinHostPort ''127.0.0.1'' (show_int 3307) = ''127.0.0.1:3307''"
    by (simp add: joinHostPort_def show_eval)
  then show ?thesis
    by (simp add: NewClient_def initDialer_def two_inst_def zero_Config_def zero_inst_def newSocketMount_def
        listenAddress_def networkType_def listenPort_def sqlDataOn_def busy_sys_def plain_sys_def nextDBPort_def
        hasPrefix_def newPortConfig_def net_Listen_def init_os_def Let_def)
qed

theorem NewClient_no_leak_witness:
  "os_listeners (snd (snd (NewClient sample_env (\<lambda>_. None) busy_sys no_fuse True False two_inst (init_os [])))) = []"
proof -
  obtain e warm s' where r:
    "NewClient sample_env (\<lambda>_. None) busy_sys no_fuse True False two_inst (init_os []) = (Err e, warm, s')"
    using two_inst_fails by blast
  from NewClient_no_leak [OF r] show ?thesis unfolding r by (simp add: init_os_def)
qed



text \<open>
  With the \<open>--port\<close> flag, a client whose instances all listen on TCP without a port of
  their own listens on consecutive ports: the k-th instance on the given port plus k, at its
  own or the global address.
\<close>

theorem NewClient_ports:
  assumes "NewClient cred newDialer sys fe given notify conf s = (Ok c, warm, s')"
    and "cf_FUSEDir conf = []" and "\<not> cf_SkipFailedInstanceConfig conf"
    and "list_all (plain_tcp conf) (cf_Instances conf)"
    and "in_int64 (cf_Port conf)" and "in_int64 (cf_Port conf + int (length (cf_Instances conf)))"
  shows "map (snd \<circ> snd) (os_listeners s') = map (snd \<circ> snd) (os_listeners s) @
    map (\<lambda>k. joinHostPort (bind_addr conf (cf_Instances conf ! k)) (show_int (cf_Port conf + int k)))
      [0..<length (cf_Instances conf)]"
proof -
  let ?pc = "newPortConfig (cf_Port conf)"
  obtain ms where m: "mountAll sys conf (cf_Instances conf) (Some ?pc) [] s = (Ok ms, s')"
    using assms(1,2) by (auto simp: NewClient_def Let_def split: outcome.splits prod.splits)
  have "pc_global ?pc = cf_Port conf" by (simp add: newPortConfig_def)
  with mountAll_ports [OF assms(4,3) m] assms(5,6) show ?thesis by simp
qed

definition two_ports :: Config where
  "two_ports = zero_Config\<lparr>cf_Addr := ''127.0.0.1'', cf_Port := 6000, cf_Instances :=
     [zero_inst\<lparr>ic_Name := ''p:r:a''\<rparr>, zero_inst\<lparr>ic_Name := ''p:r:b''\<rparr>]\<rparr>"

lemma two_ports_ok:
  "\<exists>c warm s'. NewClient sample_env (\<lambda>_. None) (plain_sys (\<lambda>_. ''MYSQL_8_0'')) no_fuse True False two_ports (init_os []) = (Ok c, warm, s')"
  by (simp add: NewClient_def initDialer_def two_ports_def zero_Config_def zero_inst_def newSocketMount_def
      listenAddress_def networkType_def listenPort_def plain_sys_def nextPort_def newPortConfig_def
      net_Listen_def init_os_def Let_def)

lemma two_ports_simps:
  "cf_FUSEDir two_ports = []" "\<not> cf_SkipFailedInstanceConfig two_ports" "list_all (plain_tcp two_ports) (cf_Instances two_ports)"
  "cf_Port two_ports = 6000" "length (cf_Instances two_ports) = 2"
  "bind_addr two_ports (cf_Instances two_ports ! 0) = ''127.0.0.1''" "bind_addr two_ports (cf_Instances two_ports ! Suc 0) = ''127.0.0.1''"
  by (simp_all add: two_ports_def zero_Config_def zero_inst_def plain_tcp_def networkType_def bind_addr_def)

theorem NewClient_ports_witness:
  "map (snd \<circ> snd) (os_listeners (snd (snd (NewClient sample_env (\<lambda>_. None) (plain_sys (\<lambda>_. ''MYSQL_8_0'')) no_fuse True False
      two_ports (init_os []))))) = [''127.0.0.1:6000'', ''127.0.0.1:6001'']"
proof -
  obtain c warm s' where r: "NewClient sample_env (\<lambda>_. None) (plain_sys (\<lambda>_. ''MYSQL_8_0'')) no_fuse True False two_ports (init_os []) = (Ok c, warm, s')"
    using two_ports_ok by blast
  have "[0..<2] = [0, 1 :: nat]" by (simp add: upt_rec)
  moreover have "joinHostPort ''127.0.0.1'' (show_int 6000) = ''127.0.0.1:6000'' \<and> joinHostPort ''127.0.0.1'' (show_int 6001) = ''127.0.0.1:6001''"
    by (simp add: joinHostPort_def show_eval)
  ultimately show ?thesis
    using NewClient_ports [OF r] unfolding r by (simp add: two_ports_simps in_int64_def init_os_def)
qed

text \<open>
  C35. Without the \<open>--port\<close> flag, a client whose instances all listen on TCP without a port of their own,
  and all have an engine the proxy knows, listens for each instance on the default port of its engine
  plus the number of earlier instances of that engine (3306, 3307, ... for MySQL, whatever comes
  in between). These ports are distinct as long as there are at most 1873 SQL Server instances, so
  that they end below 3306, and at most 2126 MySQL instances, so that they end below 5432; of
  Postgres there may be any number.
\<close>

theorem NewClient_default_ports:
  assumes "NewClient cred newDialer sys fe given notify conf s = (Ok c, warm, s')"
    and "cf_FUSEDir conf = []" and "\<not> cf_SkipFailedInstanceConfig conf" and "list_all (default_tcp conf) (cf_Instances conf)"
    and "\<And>t i. EngineVersion sys t i = Ok (ver i)" and "length (cf_Instances conf) \<le> 2 ^ 62"
    and "\<forall>i \<in> set (cf_Instances conf). engine_of (version_of conf ver i) \<noteq> Unknown"
    and "engine_count SQLServer (map (version_of conf ver) (cf_Instances conf)) \<le> 1873"
    and "engine_count MySQL (map (version_of conf ver) (cf_Instances conf)) \<le> 2126"
  shows "\<exists>ports. map (snd \<circ> snd) (os_listeners s') = map (snd \<circ> snd) (os_listeners s) @
      map (\<lambda>(i, p). joinHostPort (bind_addr conf i) (show_int p)) (zip (cf_Instances conf) ports)
    \<and> length ports = length (cf_Instances conf) \<and> distinct ports
    \<and> (\<forall>k < length ports. ports ! k =
         (case engine_of (version_of conf ver (cf_Instances conf ! k)) of MySQL \<Rightarrow> 3306 | Postgres \<Rightarrow> 5432 | SQLServer \<Rightarrow> 1433 | Unknown \<Rightarrow> 0)
         + int (earlier (map (version_of conf ver) (cf_Instances conf)) k))"
proof -
  let ?pc = "newPortConfig (cf_Port conf)" and ?vs = "map (version_of conf ver) (cf_Instances conf)"
  obtain ms where m: "mountAll sys conf (cf_Instances conf) (Some ?pc) [] s = (Ok ms, s')"
    using assms(1,2) by (auto simp: NewClient_def Let_def split: outcome.splits prod.splits)
  note ports = mountAll_dbPorts [OF assms(4,3,5) m]
  show ?thesis
  proof (cases "cf_Instances conf = []")
    case True
    with ports show ?thesis by simp
  next
    case False
    then have "cf_Port conf = 0" using assms(4) by (cases "cf_Instances conf") (auto simp: default_tcp_def)
    moreover have "distinct (fst (dbPorts ?vs (newPortConfig 0)))" by (rule dbPorts_distinct) (use assms(6-9) in simp_all)
    moreover have "fst (dbPorts ?vs (newPortConfig 0)) ! k =
        (case engine_of (?vs ! k) of MySQL \<Rightarrow> 3306 | Postgres \<Rightarrow> 5432 | SQLServer \<Rightarrow> 1433 | Unknown \<Rightarrow> 0) + int (earlier ?vs k)"
      if "k < length ?vs" for k
      using dbPorts_new [OF that] assms(6) by (simp split: engine.split)
    ultimately show ?thesis
      using ports dbPorts_length [of ?vs "newPortConfig 0"] by (intro exI [of _ "fst (dbPorts ?vs (newPortConfig 0))"]) simp
  qed
qed

definition mixed_engines :: Config where
  "mixed_engines = zero_Config\<lparr>cf_Addr := ''127.0.0.1'', cf_Instances :=
     [zero_inst\<lparr>ic_Name := ''p:r:my''\<rparr>, zero_inst\<lparr>ic_Name := ''p:r:pg'', ic_SQLDataEnabled := Some True\<rparr>, zero_inst\<lparr>ic_Name := ''p:r:my2''\<rparr>]\<rparr>"

lemma mixed_engines_ok:
  "\<exists>c warm s'. NewClient sample_env (\<lambda>_. None) (plain_sys (\<lambda>_. ''MYSQL_8_0'')) no_fuse True False mixed_engines (init_os []) = (Ok c, warm, s')"
  by (simp add: NewClient_def initDialer_def mixed_engines_def zero_Config_def zero_inst_def newSocketMount_def
      listenAddress_def networkType_def listenPort_def plain_sys_def nextDBPort_def hasPrefix_def sqlDataOn_def newPortConfig_def
      net_Listen_def init_os_def Let_def)

theorem NewClient_default_ports_witness:
  "map (snd \<circ> snd) (os_listeners (snd (snd (NewClient sample_env (\<lambda>_. None) (plain_sys (\<lambda>_. ''MYSQL_8_0'')) no_fuse True False
      mixed_engines (init_os []))))) = [''127.0.0.1:3306'', ''127.0.0.1:5432'', ''127.0.0.1:3307'']"
proof -
  obtain c warm s' where r: "NewClient sample_env (\<lambda>_. None) (plain_sys (\<lambda>_. ''MYSQL_8_0'')) no_fuse True False mixed_engines (init_os []) = (Ok c, warm, s')"
    using mixed_engines_ok by blast
  let ?vs = "[''MYSQL_8_0'', ''POSTGRES'', ''MYSQL_8_0'']" and ?ver = "\<lambda>_ :: string. ''MYSQL_8_0''" and ?is = "cf_Instances mixed_engines"
  have e: "engine_of ''MYSQL_8_0'' = MySQL" "engine_of ''POSTGRES'' = Postgres" by (simp_all add: engine_of_def hasPrefix_def)
  have i: "cf_FUSEDir mixed_engines = []" "\<not> cf_SkipFailedInstanceConfig mixed_engines" "list_all (default_tcp mixed_engines) ?is"
    by (simp_all add: mixed_engines_def zero_Config_def zero_inst_def default_tcp_def networkType_def)
  have vs: "map (version_of mixed_engines ?ver) ?is = ?vs" "map (bind_addr mixed_engines) ?is = replicate 3 ''127.0.0.1''" "length ?is = 3"
    by (simp_all add: mixed_engines_def zero_Config_def zero_inst_def version_of_def sqlDataOn_def bind_addr_def numeral_3_eq_3)
  have v: "\<forall>i \<in> set ?is. engine_of (version_of mixed_engines ?ver i) \<noteq> Unknown" by (simp add: version_of_def e)
  have c: "engine_count SQLServer ?vs \<le> 1873" "engine_count MySQL ?vs \<le> 2126" by (simp_all add: engine_count_def e)
  have ev: "EngineVersion (plain_sys ?ver) t i = Ok (?ver i)" for t i by (simp add: plain_sys_def)
  obtain ports where p: "map (snd \<circ> snd) (os_listeners s') = map (snd \<circ> snd) (os_listeners (init_os [])) @
      map (\<lambda>(i, p). joinHostPort (bind_addr mixed_engines i) (show_int p)) (zip ?is ports)"
    "length ports = length ?is"
    "\<forall>k < length ports. ports ! k = (case engine_of (version_of mixed_engines ?ver (?is ! k)) of MySQL \<Rightarrow> 3306 | Postgres \<Rightarrow> 5432 | SQLServer \<Rightarrow> 1433 | Unknown \<Rightarrow> 0)
       + int (earlier ?vs k)"
    using NewClient_default_ports [OF r i ev _ v, unfolded vs(1), OF _ c] vs(3) by auto
  have engines: "engine_of (version_of mixed_engines ?ver (?is ! k)) = engine_of (?vs ! k)" if "k < 3" for k
    using arg_cong [OF vs(1), of "\<lambda>xs. xs ! k"] that vs(3) by simp
  have "ports ! 0 = 3306" "ports ! 1 = 5432" "ports ! 2 = 3307"
    using p(2,3) engines vs(3) by (simp_all add: e earlier_def)
  moreover obtain a b c' where abc: "ports = [a, b, c']" using p(2) vs(3) by (auto simp: numeral_3_eq_3 length_Suc_conv)
  moreover obtain i1 i2 i3 where three: "?is = [i1, i2, i3]" using vs(3) by (auto simp: numeral_3_eq_3 length_Suc_conv)
  moreover have "bind_addr mixed_engines i1 = ''127.0.0.1''" "bind_addr mixed_engines i2 = ''127.0.0.1''" "bind_addr mixed_engines i3 = ''127.0.0.1''"
    using vs(2) unfolding three by (simp_all add: numeral_3_eq_3)
  moreover have "joinHostPort ''127.0.0.1'' (show_int 3306) = ''127.0.0.1:3306''" "joinHostPort ''127.0.0.1'' (show_int 3307) = ''127.0.0.1:3307''"
    "joinHostPort ''127.0.0.1'' (show_int 5432) = ''127.0.0.1:5432''"
    by (simp_all add: joinHostPort_def show_eval)
  ultimately show ?thesis using p(1) unfolding r by (simp add: init_os_def)
qed

text \<open>Without FUSE, a client is its configuration and the mounts it has opened.\<close>

lemma NewClient_opened:
  assumes "NewClient cred newDialer sys fe given notify conf s = (Ok c, warm, s1)"
    and "cf_FUSEDir conf = []" and "\<forall>l \<in> set (os_listeners s). fst l < os_next s"
  shows "opened (os_next s) (os_listeners s) (cl_mnts c) s1" "fm_fuseDir (cl_fuse c) = []" "cl_conf c = conf"
proof -
  have "opened (os_next s) (os_listeners s) [] s" using assms(3) by (simp add: opened_def)
  from mountAll_opened [OF this, of sys conf "cf_Instances conf" "Some (newPortConfig (cf_Port conf))"] assms(1,2)
  show "opened (os_next s) (os_listeners s) (cl_mnts c) s1" "fm_fuseDir (cl_fuse c) = []" "cl_conf c = conf"
    by (auto simp: NewClient_def Let_def zero_fuseMount_def split: outcome.splits prod.splits)
qed

lemma NewClient_mountAll:
  assumes "NewClient cred newDialer sys fe given ntf conf s = (Ok cl, warm, s')" and "cf_FUSEDir conf = []"
  shows "mountAll sys conf (cf_Instances conf) (Some (newPortConfig (cf_Port conf))) [] s = (Ok (cl_mnts cl), s')"
  using assms by (auto simp: NewClient_def Let_def split: outcome.splits prod.splits)

lemma NewClient_instances:
  assumes "NewClient cred newDialer sys fe given ntf conf s = (Ok cl, warm, s')" and "cf_FUSEDir conf = []"
    and "\<not> cf_SkipFailedInstanceConfig conf"
  shows "map (\<lambda>m. (sm_inst m, sm_dialOpts m)) (cl_mnts cl) = map (\<lambda>i. (ic_Name i, dialOptions conf i)) (cf_Instances conf)"
  using mountAll_complete [OF NewClient_mountAll [OF assms(1,2)] assms(3)] by simp

text \<open>
  \<open>Close\<close> undoes \<open>NewClient\<close>: whatever errors are met on the way, when it returns every
  listener of the client is closed and exactly the listeners from before the client are open.
\<close>

theorem NewClient_Close:
  assumes "NewClient cred newDialer sys fe given notify conf s = (Ok c, warm, s1)"
    and "cf_FUSEDir conf = []" and "\<forall>l \<in> set (os_listeners s). fst l < os_next s"
    and "Client_Close sys' fe' dialerClose rng events c2 n_open c s1 = Some (err, s2)"
  shows "os_listeners s2 = os_listeners s"
proof -
  note c = NewClient_opened [OF assms(1-3)]
  have "s2 = snd (closeMounts sys' (cl_mnts c) s1)"
    using assms(4) c(2) by (auto simp: Client_Close_def Let_def split: if_splits prod.splits)
  with opened_close [OF c(1)] show ?thesis by simp
qed

lemma closed_two_ports:
  assumes "fm_fuseDir (cl_fuse c) = []"
  shows "\<exists>err s2. Client_Close sys fe None rng [Tick 3, Timeout] c2 0 c s1 = Some (err, s2)"
  using assms by (simp add: Client_Close_def case_prod_unfold Let_def)

theorem NewClient_Close_witness:
  "\<exists>c s1 err s2. Client_Close busy_sys no_fuse None id [Tick 3, Timeout] c 0 c s1 = Some (err, s2) \<and> os_listeners s2 = []"
proof -
  obtain c warm s1 where r: "NewClient sample_env (\<lambda>_. None) (plain_sys (\<lambda>_. ''MYSQL_8_0'')) no_fuse True False two_ports (init_os []) = (Ok c, warm, s1)"
    using two_ports_ok by blast
  then have "fm_fuseDir (cl_fuse c) = []"
    by (auto simp: NewClient_def initDialer_def two_ports_simps zero_fuseMount_def Let_def split: outcome.splits prod.splits)
  then obtain err s2 where cl: "Client_Close busy_sys no_fuse None id [Tick 3, Timeout] c 0 c s1 = Some (err, s2)"
    using closed_two_ports by blast
  from NewClient_Close [OF r two_ports_simps(1) _ cl] cl show ?thesis by (auto simp: init_os_def)
qed

text \<open>
  What \<open>Close\<close> reports: once the timer has fired it returns; it returns nil exactly when
  unmounting, the dialer and every listener closed without error and, if a wait was
  configured, no connection was left open at the end.
\<close>

theorem Client_Close_reports:
  assumes "Timeout \<in> set events" and "fm_fuseDir (cl_fuse c) \<noteq> [] \<longrightarrow> waitForFUSEMounts c2"
  shows "\<exists>err s'. Client_Close sys fe dialerClose rng events c2 n_open c s = Some (err, s') \<and>
    (err = None \<longleftrightarrow>
       (fm_fuseDir (cl_fuse c) \<noteq> [] \<longrightarrow> unmountFUSE fe c = None) \<and> dialerClose = None
       \<and> fst (closeMounts sys (if fm_fuseDir (cl_fuse c) \<noteq> [] then fuseMounts rng c else cl_mnts c) s) = []
       \<and> \<not> (0 < cf_WaitOnClose (cl_conf c) \<and> 0 < n_open))"
  using waitLoop_returns [OF assms(1)] assms(2)
  by (auto simp: Client_Close_def Let_def opt_list_def split: option.split prod.split)

theorem Client_Close_reports_witness:
  "\<exists>err s'. Client_Close busy_sys no_fuse None id [Tick 1, Timeout] sample_fuse 1
     (sample_fuse\<lparr>cl_conf := two_inst\<lparr>cf_WaitOnClose := 1500000000\<rparr>\<rparr>) (init_os []) = Some (err, s') \<and> err \<noteq> None"
proof -
  have "fm_fuseDir (cl_fuse sample_fuse) = []"
    by (simp add: sample_fuse_def fuse_client_def zero_Config_def)
  then show ?thesis
    using Client_Close_reports [of "[Tick 1, Timeout]" "sample_fuse\<lparr>cl_conf := two_inst\<lparr>cf_WaitOnClose := 1500000000\<rparr>\<rparr>"
      sample_fuse busy_sys no_fuse None id 1 "init_os []"] by auto
qed

text \<open>
  Without FUSE the connection check always returns: it reports the number of mounts and
  exactly the errors of the failed dials, in the order they finished, and nil if there is none.
\<close>

theorem CheckConnections_reports:
  assumes "fm_fuseDir (cl_fuse c) = []" and "length (order (cl_mnts c)) = length (cl_mnts c)"
  shows "CheckConnections rng order dial c =
    Some (length (cl_mnts c),
      (let errs = List.map_filter dial (order (cl_mnts c)) in if errs = [] then None else Some (MultiErr errs)))"
proof -
  have "drainErrs (length (cl_mnts c)) (List.map_filter dial (order (cl_mnts c))) = List.map_filter dial (order (cl_mnts c))"
    using assms(2) length_map_filter [of dial "order (cl_mnts c)"] by (intro drainErrs_all) simp
  with assms show ?thesis
    by (simp add: CheckConnections_def runChecks_enough Let_def)
qed

theorem CheckConnections_reports_witness:
  "CheckConnections id id (\<lambda>m. if sm_inst m = ''p:r:i'' then Some EOF else None) (sample_fuse\<lparr>cl_mnts := [sample_mount]\<rparr>)
     = Some (1, Some (MultiErr [EOF]))"
  using CheckConnections_reports [of "sample_fuse\<lparr>cl_mnts := [sample_mount]\<rparr>" id id]
  by (simp add: sample_fuse_def fuse_client_def zero_Config_def sample_mount_def List.map_filter_simps)

text \<open>
  In FUSE mode the same check never returns if a dial fails: the error channel has the
  capacity of the list of static mounts, which is empty there, and the failing goroutine
  blocks on it while the caller waits for the goroutine.
\<close>

theorem CheckConnections_fuse_blocks:
  assumes "fm_fuseDir (cl_fuse c) \<noteq> []" and "cl_mnts c = []"
    and "m \<in> set (order (fuseMounts rng c))" and "dial m \<noteq> None"
  shows "CheckConnections rng order dial c = None"
proof -
  have "List.map_filter dial (order (fuseMounts rng c)) \<noteq> []"
    using assms(3,4) by (auto simp: map_filter_def filter_empty_conv)
  with assms(1,2) show ?thesis
    by (simp add: CheckConnections_def runChecks_zero)
qed

theorem CheckConnections_fuse_blocks_witness:
  "CheckConnections id id (\<lambda>m. Some EOF)
     (add_socket ''p:r:i'' \<lparr>ss_socket = sample_mount, ss_symlink = []\<rparr> (fuse_client (zero_Config\<lparr>cf_FUSEDir := ''/fuse''\<rparr>))) = None"
  using CheckConnections_fuse_blocks
    [of "add_socket ''p:r:i'' \<lparr>ss_socket = sample_mount, ss_symlink = []\<rparr> (fuse_client (zero_Config\<lparr>cf_FUSEDir := ''/fuse''\<rparr>))"
        sample_mount id id "\<lambda>m. Some EOF"]
  by (simp add: add_socket_def fuse_client_def zero_fuseMount_def fuseMounts_def)

text \<open>
  When \<open>Serve\<close> returns from its accept loops, it returns the error one of them ended with.
\<close>

theorem Serve_returns_loop_error:
  assumes "exit_step\<^sup>*\<^sup>* (init_serve c) s" and "se_main s = MainReturned e"
  shows "Some e \<in> set (se_loops s)"
proof -
  have "exit_inv (init_serve c)" by (simp add: exit_inv_def init_serve_def)
  from exit.inv_steps [OF assms(1) this] assms(2) show ?thesis by (simp add: exit_inv_def)
qed

lemma exit_sample:
  assumes "cl_mnts c = [m]"
  shows "exit_step\<^sup>*\<^sup>* (init_serve c) \<lparr>se_main = MainReturned EOF, se_loops = [Some EOF]\<rparr>"
proof -
  let ?r = "\<lparr>se_main = Receiving, se_loops = [None]\<rparr>"
  have "exit_step (init_serve c) ?r"
    using notified [of "init_serve c"] assms by (simp add: init_serve_def)
  moreover have "exit_step ?r \<lparr>se_main = MainReturned EOF, se_loops = [Some EOF]\<rparr>"
    using loop_sent [of 0 ?r EOF] by simp
  ultimately show ?thesis by (meson converse_rtranclp_into_rtranclp rtranclp.rtrancl_refl)
qed

theorem Serve_returns_loop_error_witness:
  "Some EOF \<in> set (se_loops \<lparr>se_main = MainReturned EOF, se_loops = [Some EOF]\<rparr>)"
  by (rule Serve_returns_loop_error [OF exit_sample [of "sample_fuse\<lparr>cl_mnts := [sample_mount]\<rparr>" sample_mount]]) simp_all

text \<open>
  C36. The error of an accept loop can be lost: a loop that ends before \<open>Serve\<close> has reached its
  receive drops the error, so there are runs in which every loop has ended and \<open>Serve\<close> waits
  on \<open>exitCh\<close> for good, with nothing left that could send.
\<close>

theorem Serve_can_miss_errors:
  "\<exists>s. exit_step\<^sup>*\<^sup>* (init_serve c) s \<and> se_main s = Receiving \<and> list_all (\<lambda>l. l = Some err) (se_loops s)
     \<and> (\<nexists>t. exit_step s t)"
proof -
  let ?n = "length (cl_mnts c)"
  let ?f = "\<lambda>k. \<lparr>se_main = Starting, se_loops = replicate k (Some err) @ replicate (?n - k) None\<rparr>"
  have run: "exit_step\<^sup>*\<^sup>* (init_serve c) (?f k)" if "k \<le> ?n" for k
    using that
  proof (induction k)
    case 0
    then show ?case by (simp add: init_serve_def map_replicate_const)
  next
    case (Suc k)
    have "exit_step (?f k) (?f (Suc k))"
      using loop_dropped [of k "?f k" err] Suc.prems
      by (simp add: nth_append list_update_append replicate_append_same [symmetric] Suc_diff_le
          flip: replicate_Suc) (simp add: Suc_diff_Suc [symmetric] replicate_app_Cons_same)
    with Suc show ?case by (meson Suc_leD rtranclp.rtrancl_into_rtrancl)
  qed
  let ?t = "(?f ?n)\<lparr>se_main := Receiving\<rparr>"
  have "exit_step (?f ?n) ?t" by (rule notified) simp
  with run [of ?n] have "exit_step\<^sup>*\<^sup>* (init_serve c) ?t" by (meson order_refl rtranclp.rtrancl_into_rtrancl)
  moreover have "\<nexists>u. exit_step ?t u" by (auto elim!: exit_step.cases)
  ultimately show ?thesis by (intro exI [of _ ?t]) (simp add: list_all_iff)
qed

end
