(* ===== verification/Fuse_Process.thy ===== *)
theory Fuse_Process
  imports Client
begin

text \<open>
  Serving and closing with FUSE (internal/proxy/proxy_other.go and \<open>Close\<close> in proxy.go): lookups
  arrive as long as the directory is mounted, each socket has its own goroutine, and \<open>Close\<close> runs
  between them. \<open>Unmount\<close> may fail; when it succeeds, no lookup arrives any more, which is what the
  FUSE library documents. The connections are those of \<open>Server\<close> and only give the counter.
\<close>

section \<open>State and steps\<close>

text \<open>
  \<open>Close\<close>: not called; unmounted or failed to; waiting for connections, with the mounts of its
  snapshot; closing the listeners that are left and then waiting for the goroutines; past that
  wait, before the last load of the counter; returned.
\<close>

datatype fuse_close =
    FuseOpen
  | FuseUnmounted "go_error list"
  | FuseWaiting "go_error list" "socketMount list"
  | FuseListeners "go_error list" "socketMount list"
  | FuseDrained "go_error list"
  | FuseReturned "go_error option"

record fuse_proc =
  fp_client :: Client
  fp_os :: os
  fp_mounted :: bool
  fp_close :: fuse_close

abbreviation registry :: "fuse_proc \<Rightarrow> (string \<times> socketSymlink) list" where
  "registry s \<equiv> fm_fuseSockets (cl_fuse (fp_client s))"

abbreviation socket_open :: "fuse_proc \<Rightarrow> socketSymlink \<Rightarrow> bool" where
  "socket_open s ss \<equiv> sm_listener (ss_socket ss) \<in> fst ` set (os_listeners (fp_os s))"

text \<open>
  The goroutine of \<open>Serve\<close>, the lookups, and the goroutines of sockets whose listener has been closed.
  Lookups arrive from the mount on, before \<open>fs.Mount\<close> has returned and the server is recorded.
\<close>

inductive calm_step :: "sys \<Rightarrow> fuse_env \<Rightarrow> fuse_proc \<Rightarrow> fuse_proc \<Rightarrow> bool" for sys :: sys and fe :: fuse_env where
  mounting: "fm_serving (cl_fuse (fp_client s)) = NotServing \<Longrightarrow> mount_error fe (fp_client s) = None \<Longrightarrow>
     calm_step sys fe s (s\<lparr>fp_client := set_serving Mounted (fp_client s), fp_mounted := True\<rparr>)"
| mount_failed: "fm_serving (cl_fuse (fp_client s)) = NotServing \<Longrightarrow> mount_error fe (fp_client s) = Some e \<Longrightarrow>
     calm_step sys fe s (s\<lparr>fp_client := set_serving (ServeReturned e) (fp_client s)\<rparr>)"
| server_recorded: "fm_serving (cl_fuse (fp_client s)) = Mounted \<Longrightarrow>
     calm_step sys fe s (s\<lparr>fp_client := record_server (fp_client s)\<rparr>)"
| notify_returned: "fm_serving (cl_fuse (fp_client s)) = Recorded \<Longrightarrow>
     calm_step sys fe s (s\<lparr>fp_client := set_serving Notified (fp_client s)\<rparr>)"
| selecting: "fm_serving (cl_fuse (fp_client s)) = Notified \<Longrightarrow>
     calm_step sys fe s (s\<lparr>fp_client := set_serving Waiting (fp_client s)\<rparr>)"
| context_done: "calm_step sys fe s (s\<lparr>fp_client := serveFuse_done (fp_client s)\<rparr>)"
| looked_up: "fp_mounted s \<Longrightarrow> Lookup sys inst (fp_client s) (fp_os s) = (r, c, s1) \<Longrightarrow>
     calm_step sys fe s (s\<lparr>fp_client := c, fp_os := s1\<rparr>)"
| socket_closed: "map_of (registry s) inst = Some ss \<Longrightarrow> \<not> socket_open s ss \<Longrightarrow>
     calm_step sys fe s (s\<lparr>fp_client := remove_socket inst e (fp_client s)\<rparr>)"
| goroutine_left: "0 < fm_leaving (cl_fuse (fp_client s)) \<Longrightarrow>
     calm_step sys fe s (s\<lparr>fp_client := fuseWg_Done (fp_client s)\<rparr>)"

text \<open>The steps of \<open>Close\<close>; \<open>uErr\<close> is what \<open>Unmount\<close> returns, \<open>dErr\<close> what the dialer does, \<open>n\<close> the counter.\<close>

inductive fuse_close_step :: "sys \<Rightarrow> Config \<Rightarrow> fuse_proc \<Rightarrow> fuse_proc \<Rightarrow> bool" for sys :: sys and conf :: Config where
  unmounted: "fp_close s = FuseOpen \<Longrightarrow> unmountFUSE (fe\<lparr>Unmount_err := uErr\<rparr>) (fp_client s) = err \<Longrightarrow>
     fuse_close_step sys conf s
       (s\<lparr>fp_close := FuseUnmounted (opt_list err),
          fp_mounted := (if fm_fuseServer (cl_fuse (fp_client s)) \<and> uErr = None then False else fp_mounted s)\<rparr>)"
| snapshot: "fp_close s = FuseUnmounted mErr \<Longrightarrow> (\<And>xs. mset (rng xs) = mset xs) \<Longrightarrow>
     fuse_close_step sys conf s (s\<lparr>fp_close := FuseWaiting (mErr @ opt_list dErr) (fuseMounts rng (fp_client s))\<rparr>)"
| waited: "fp_close s = FuseWaiting mErr mnts \<Longrightarrow> fuse_close_step sys conf s (s\<lparr>fp_close := FuseListeners mErr mnts\<rparr>)"
| listener_closed: "fp_close s = FuseListeners mErr (m # ms) \<Longrightarrow> socketMount_Close sys m (fp_os s) = (e, s1) \<Longrightarrow>
     fuse_close_step sys conf s (s\<lparr>fp_os := s1, fp_close := FuseListeners (mErr @ opt_list e) ms\<rparr>)"
| drained: "fp_close s = FuseListeners mErr [] \<Longrightarrow> waitForFUSEMounts (fp_client s) \<Longrightarrow>
     fuse_close_step sys conf s (s\<lparr>fp_close := FuseDrained mErr\<rparr>)"
| returned: "fp_close s = FuseDrained mErr \<Longrightarrow>
     errs = mErr @ (if 0 < cf_WaitOnClose conf \<and> 0 < (n :: uint64)
       then [ErrorString (show_nat (unat n) @ '' connection(s) still open after waiting '' @ duration_String (cf_WaitOnClose conf))] else []) \<Longrightarrow>
     fuse_close_step sys conf s (s\<lparr>fp_close := FuseReturned (if errs \<noteq> [] then Some (MultiErr errs) else None)\<rparr>)"

text \<open>Besides, an accept loop may fail with its listener open.\<close>

inductive fuse_proc_step :: "sys \<Rightarrow> fuse_env \<Rightarrow> Config \<Rightarrow> fuse_proc \<Rightarrow> fuse_proc \<Rightarrow> bool"
  for sys :: sys and fe :: fuse_env and conf :: Config where
  calm: "calm_step sys fe s t \<Longrightarrow> fuse_proc_step sys fe conf s t"
| closing: "fuse_close_step sys conf s t \<Longrightarrow> fuse_proc_step sys fe conf s t"
| accept_failed: "map_of (registry s) inst \<noteq> None \<Longrightarrow>
     fuse_proc_step sys fe conf s (s\<lparr>fp_client := remove_socket inst e (fp_client s)\<rparr>)"

definition init_fuse_proc :: "Client \<Rightarrow> os \<Rightarrow> fuse_proc" where
  "init_fuse_proc c s = \<lparr>fp_client = c, fp_os = s, fp_mounted = False, fp_close = FuseOpen\<rparr>"

section \<open>Invariants\<close>

text \<open>After an unmount that succeeded, and with \<open>Serve\<close> past its mount, the directory stays unmounted.\<close>

definition offline :: "fuse_proc \<Rightarrow> bool" where
  "offline s \<longleftrightarrow> \<not> fp_mounted s \<and> fm_serving (cl_fuse (fp_client s)) \<noteq> NotServing"

text \<open>Then \<open>Close\<close> knows every socket that is left, or has closed its listener.\<close>

fun known :: "fuse_close \<Rightarrow> fuse_proc \<Rightarrow> bool" where
  "known (FuseWaiting mErr mnts) s \<longleftrightarrow> (\<forall>e \<in> set (registry s). ss_socket (snd e) \<in> set mnts)"
| "known (FuseListeners mErr rest) s \<longleftrightarrow> (\<forall>e \<in> set (registry s). ss_socket (snd e) \<in> set rest \<or> \<not> socket_open s (snd e))"
| "known (FuseDrained mErr) s \<longleftrightarrow> registry s = []"
| "known _ s \<longleftrightarrow> True"

definition fuse_proc_inv :: "fuse_proc \<Rightarrow> bool" where
  "fuse_proc_inv s \<longleftrightarrow> fuse_inv (fp_client s, fp_os s) \<and> (offline s \<longrightarrow> known (fp_close s) s)
     \<and> (fm_serving (cl_fuse (fp_client s)) = NotServing \<longrightarrow> registry s = [] \<and> \<not> fp_mounted s)
     \<and> (fm_serving (cl_fuse (fp_client s)) \<in> {Mounted, Recorded, Notified} \<longrightarrow> fp_mounted s \<or> fp_close s \<noteq> FuseOpen)"

lemma serving_keeps [simp]:
  "fm_fuseSockets (cl_fuse (set_serving v c)) = fm_fuseSockets (cl_fuse c)" "fm_fuseWg (cl_fuse (set_serving v c)) = fm_fuseWg (cl_fuse c)"
  "fm_leaving (cl_fuse (set_serving v c)) = fm_leaving (cl_fuse c)" "fm_serving (cl_fuse (set_serving v c)) = v"
  "fm_fuseSockets (cl_fuse (record_server c)) = fm_fuseSockets (cl_fuse c)" "fm_fuseWg (cl_fuse (record_server c)) = fm_fuseWg (cl_fuse c)"
  "fm_leaving (cl_fuse (record_server c)) = fm_leaving (cl_fuse c)" "fm_serving (cl_fuse (record_server c)) = Recorded"
  "fm_fuseServer (cl_fuse (set_serving v c)) = fm_fuseServer (cl_fuse c)" "fm_fuseServer (cl_fuse (record_server c))"
  by (simp_all add: set_serving_def record_server_def)

lemma serveFuse_keeps:
  assumes "serveFuse fe c = (None, c')"
  shows "fm_fuseSockets (cl_fuse c') = fm_fuseSockets (cl_fuse c)" "fm_fuseWg (cl_fuse c') = fm_fuseWg (cl_fuse c)"
    "fm_leaving (cl_fuse c') = fm_leaving (cl_fuse c)" "fm_serving (cl_fuse c') = Waiting" "fm_fuseServer (cl_fuse c')"
  using assms by (auto simp: serveFuse_def split: option.splits)

lemma fuse_inv_cong:
  "fm_fuseSockets (cl_fuse c') = fm_fuseSockets (cl_fuse c) \<Longrightarrow> fm_fuseWg (cl_fuse c') = fm_fuseWg (cl_fuse c) \<Longrightarrow>
   fm_leaving (cl_fuse c') = fm_leaving (cl_fuse c) \<Longrightarrow>
   entry_ok c' = entry_ok c \<Longrightarrow> os_next s' = os_next s \<Longrightarrow> fuse_inv (c', s') = fuse_inv (c, s)"
  by (simp add: fuse_inv_def)

lemma fuse_inv_serving [simp]: "fuse_inv (set_serving v c, s) = fuse_inv (c, s)" "fuse_inv (record_server c, s) = fuse_inv (c, s)"
  by (rule fuse_inv_cong; simp)+

lemma socketMount_Close_next: "socketMount_Close sys m s = (e, s') \<Longrightarrow> os_next s' = os_next s"
  by (auto simp: socketMount_Close_def ln_Close_def split: if_splits)

lemma fuse_proc_fuse_inv:
  assumes "fuse_inv (fp_client s, fp_os s)" and "fuse_proc_step sys fe conf s t"
  shows "fuse_inv (fp_client t, fp_os t)"
  using assms(2)
proof (cases rule: fuse_proc_step.cases)
  case calm
  then show ?thesis
  proof (cases rule: calm_step.cases)
    case (looked_up inst r c s1)
    with assms(1) show ?thesis by (auto intro: fuse_inv_lookup)
  qed (use assms(1) in \<open>auto intro: fuse_inv_stop fuse_inv_removed fuse_inv_left\<close>)
next
  case closing
  then have "fp_client t = fp_client s" "os_next (fp_os t) = os_next (fp_os s)"
    by (cases rule: fuse_close_step.cases; simp add: socketMount_Close_next)+
  with assms(1) show ?thesis by (simp add: fuse_inv_def)
next
  case (accept_failed inst e)
  with assms(1) show ?thesis by (auto intro: fuse_inv_removed)
qed

text \<open>Removing sockets, or a step that keeps them, keeps what \<open>Close\<close> knows.\<close>

lemma known_subset:
  assumes "known ph s" and "set (registry t) \<subseteq> set (registry s)" and "fp_os t = fp_os s"
  shows "known ph t"
  using assms by (cases ph) auto

lemma remove_socket_registry [simp]:
  "fm_fuseSockets (cl_fuse (remove_socket inst e c)) = AList.delete inst (fm_fuseSockets (cl_fuse c))"
  "fm_leaving (cl_fuse (remove_socket inst e c)) = Suc (fm_leaving (cl_fuse c))"
  "fm_serving (cl_fuse (remove_socket inst e c)) = v \<longleftrightarrow>
     (if fm_serving (cl_fuse c) = Waiting then ServeReturned e = v else fm_serving (cl_fuse c) = v)"
  by (simp_all add: remove_socket_def)

lemma fuseWg_Done_registry [simp]:
  "fm_fuseSockets (cl_fuse (fuseWg_Done c)) = fm_fuseSockets (cl_fuse c)" "fm_serving (cl_fuse (fuseWg_Done c)) = fm_serving (cl_fuse c)"
  "fm_leaving (cl_fuse (fuseWg_Done c)) = fm_leaving (cl_fuse c) - 1"
  by (simp_all add: fuseWg_Done_def)

lemma serveFuse_done_registry [simp]:
  "fm_fuseSockets (cl_fuse (serveFuse_done c)) = fm_fuseSockets (cl_fuse c)" "fm_leaving (cl_fuse (serveFuse_done c)) = fm_leaving (cl_fuse c)"
  "fm_serving (cl_fuse (serveFuse_done c)) = v \<longleftrightarrow>
     (if fm_serving (cl_fuse c) = Waiting then ServeReturned Canceled = v else fm_serving (cl_fuse c) = v)"
  by (simp_all add: serveFuse_done_def)

lemma delete_subset: "set (AList.delete k xs) \<subseteq> set xs"
  by (auto simp: AList.delete_eq)

lemma known_removed:
  "known ph s \<Longrightarrow> known ph (s\<lparr>fp_client := remove_socket inst e (fp_client s)\<rparr>)"
  by (rule known_subset [of ph s]) (simp_all add: delete_subset)

lemma known_closed:
  assumes "known (FuseListeners mErr (m # ms)) s" and "socketMount_Close sys m (fp_os s) = (e, s1)"
  shows "known (FuseListeners mErr' ms) (s\<lparr>fp_os := s1, fp_close := ph\<rparr>)"
proof -
  have "fst ` set (os_listeners s1) = fst ` set (os_listeners (fp_os s)) - {sm_listener m}"
    using assms(2) by (auto simp: socketMount_Close_def ln_Close_def split: if_splits)
  with assms(1) show ?thesis by auto
qed

lemma Lookup_serving: "Lookup sys inst c s = (r, c', s1) \<Longrightarrow> fm_serving (cl_fuse c') = fm_serving (cl_fuse c)"
  by (auto simp: Lookup_def add_socket_def Let_def split: if_splits option.splits outcome.splits prod.splits)

definition serving_ok :: "fuse_proc \<Rightarrow> bool" where
  "serving_ok s \<longleftrightarrow> (fm_serving (cl_fuse (fp_client s)) = NotServing \<longrightarrow> registry s = [] \<and> \<not> fp_mounted s)
     \<and> (fm_serving (cl_fuse (fp_client s)) \<in> {Mounted, Recorded, Notified} \<longrightarrow> fp_mounted s \<or> fp_close s \<noteq> FuseOpen)"

lemma fuse_proc_invD:
  assumes "fuse_proc_inv s"
  shows "fuse_inv (fp_client s, fp_os s)" "offline s \<Longrightarrow> known (fp_close s) s" "serving_ok s"
  using assms by (auto simp: fuse_proc_inv_def serving_ok_def)

lemma fuse_proc_invI:
  "fuse_inv (fp_client s, fp_os s) \<Longrightarrow> (offline s \<Longrightarrow> known (fp_close s) s) \<Longrightarrow> serving_ok s \<Longrightarrow> fuse_proc_inv s"
  by (auto simp: fuse_proc_inv_def serving_ok_def)

lemma known_empty: "registry s = [] \<Longrightarrow> known ph s"
  by (cases ph) auto

lemma calm_step_inv:
  assumes "fuse_proc_inv s" and "calm_step sys fe s t"
  shows "(offline t \<longrightarrow> known (fp_close t) t) \<and> serving_ok t"
proof -
  note inv = fuse_proc_invD [OF assms(1)]
  show ?thesis using assms(2)
  proof (cases rule: calm_step.cases)
    case mounting
    then show ?thesis by (simp add: offline_def serving_ok_def)
  next
    case (mount_failed e)
    then have "registry t = []" using inv(3) by (simp add: serving_ok_def)
    then show ?thesis using known_empty mount_failed by (simp add: serving_ok_def)
  next
    case (looked_up inst r c s1)
    then show ?thesis using inv Lookup_serving [OF looked_up(3)] by (auto simp: offline_def serving_ok_def)
  next
    case (socket_closed inst ss e)
    then show ?thesis using inv known_removed [of "fp_close s" s] by (auto simp: offline_def serving_ok_def)
  next
    case context_done
    then show ?thesis using inv known_subset [of "fp_close s" s t] by (auto simp: offline_def serving_ok_def)
  qed (use inv known_subset [of "fp_close s" s t] in \<open>auto simp: offline_def serving_ok_def\<close>)
qed

lemma drained_empty: "fuse_inv (c, s) \<Longrightarrow> waitForFUSEMounts c \<Longrightarrow> fm_fuseSockets (cl_fuse c) = []"
  by (simp add: fuse_inv_def waitForFUSEMounts_def)

lemma closing_step_known:
  assumes "fuse_proc_inv s" and "fuse_close_step sys conf s t"
  shows "(offline t \<longrightarrow> known (fp_close t) t) \<and> serving_ok t"
proof -
  note inv = fuse_proc_invD [OF assms(1)]
  show ?thesis using assms(2)
  proof (cases rule: fuse_close_step.cases)
    case (snapshot mErr rng dErr)
    then have "set (rng (registry s)) = set (registry s)" by (metis set_mset_mset)
    then have "known (fp_close t) t" using snapshot by (auto simp: fuseMounts_def case_prod_unfold)
    then show ?thesis using inv(3) snapshot by (simp add: serving_ok_def)
  next
    case (listener_closed mErr m ms e s1)
    then show ?thesis using inv(2,3) known_closed [OF _ listener_closed(3)]
      by (auto simp: serving_ok_def offline_def simp del: known.simps)
  next
    case (drained mErr)
    then show ?thesis using inv(3) drained_empty [OF inv(1)] by (simp add: serving_ok_def)
  qed (use inv in \<open>auto simp: serving_ok_def offline_def\<close>)
qed

lemma fuse_proc_step_inv:
  assumes "fuse_proc_inv s" and "fuse_proc_step sys fe conf s t"
  shows "fuse_proc_inv t"
proof (rule fuse_proc_invI)
  note inv = fuse_proc_invD [OF assms(1)]
  show "fuse_inv (fp_client t, fp_os t)" using fuse_proc_fuse_inv [OF inv(1) assms(2)] .
  have "(offline t \<longrightarrow> known (fp_close t) t) \<and> serving_ok t"
    using assms(2)
  proof (cases rule: fuse_proc_step.cases)
    case (accept_failed inst e)
    then show ?thesis using inv known_removed [of "fp_close s" s] by (auto simp: serving_ok_def offline_def)
  qed (use calm_step_inv [OF assms(1)] closing_step_known [OF assms(1)] in blast)+
  then show "offline t \<Longrightarrow> known (fp_close t) t" "serving_ok t" by blast+
qed

interpretation fuse_whole: step_invariant "fuse_proc_step sys fe conf" fuse_proc_inv for sys fe conf
  by unfold_locales (rule fuse_proc_step_inv)

lemma fuse_proc_inv_init:
  assumes "configureFUSE sys fe c0 conf s0 = (Ok c, s)"
  shows "fuse_proc_inv (init_fuse_proc c s)"
proof -
  have "fm_fuseSockets (cl_fuse c) = []" "fm_serving (cl_fuse c) = NotServing"
    using assms by (auto simp: configureFUSE_def zero_fuseMount_def split: option.splits)
  with fuse_inv_configured [OF assms] show ?thesis by (simp add: fuse_proc_inv_def init_fuse_proc_def offline_def)
qed

section \<open>Closing\<close>

text \<open>
  The steps left until \<open>Close\<close> has returned, with \<open>n\<close> sockets in the registry, each to be closed, taken
  out and left by its goroutine, and \<open>m\<close> goroutines that have only the last of these to do.
\<close>

fun fuse_left :: "fuse_close \<Rightarrow> nat \<Rightarrow> nat \<Rightarrow> nat" where
  "fuse_left FuseOpen n m = 3 * n + m + 5"
| "fuse_left (FuseUnmounted _) n m = 3 * n + m + 4"
| "fuse_left (FuseWaiting _ mnts) n m = length mnts + 2 * n + m + 3"
| "fuse_left (FuseListeners _ rest) n m = length rest + 2 * n + m + 2"
| "fuse_left (FuseDrained _) n m = 1"
| "fuse_left (FuseReturned _) n m = 0"

text \<open>
  What cannot be held up: the steps of \<open>Close\<close>, and of a goroutine whose listener is closed or that has
  taken its socket out.
\<close>

definition forced_step :: "sys \<Rightarrow> Config \<Rightarrow> fuse_proc \<Rightarrow> fuse_proc \<Rightarrow> bool" where
  "forced_step sys conf s t \<longleftrightarrow> fuse_close_step sys conf s t
     \<or> (\<exists>inst ss e. map_of (registry s) inst = Some ss \<and> \<not> socket_open s ss \<and> t = s\<lparr>fp_client := remove_socket inst e (fp_client s)\<rparr>)
     \<or> 0 < fm_leaving (cl_fuse (fp_client s)) \<and> t = s\<lparr>fp_client := fuseWg_Done (fp_client s)\<rparr>"

abbreviation fuse_remaining :: "fuse_proc \<Rightarrow> nat" where
  "fuse_remaining s \<equiv> fuse_left (fp_close s) (length (registry s)) (fm_leaving (cl_fuse (fp_client s)))"

text \<open>The phases in which goroutines of sockets count.\<close>

definition still_waiting :: "fuse_close \<Rightarrow> bool" where
  "still_waiting ph \<longleftrightarrow> (case ph of FuseDrained _ \<Rightarrow> False | FuseReturned _ \<Rightarrow> False | _ \<Rightarrow> True)"

lemma removed_length:
  assumes "fuse_proc_inv s" and "map_of (registry s) inst \<noteq> None"
  shows "Suc (length (AList.delete inst (registry s))) = length (registry s)"
proof -
  have "registry s \<noteq> []" using assms(2) by auto
  then show ?thesis
    using fuseSockets.remove_count [of "registry s" inst] assms by (simp add: fuse_proc_inv_def fuse_inv_def)
qed

lemma removed_left:
  assumes "fuse_proc_inv s" and "map_of (registry s) inst \<noteq> None"
  shows "fuse_remaining (s\<lparr>fp_client := remove_socket inst e (fp_client s)\<rparr>) \<le> fuse_remaining s"
    "still_waiting (fp_close s) \<Longrightarrow> fuse_remaining (s\<lparr>fp_client := remove_socket inst e (fp_client s)\<rparr>) < fuse_remaining s"
  using removed_length [OF assms] by (cases "fp_close s"; simp add: still_waiting_def)+

lemma done_left:
  assumes "0 < fm_leaving (cl_fuse (fp_client s))"
  shows "fuse_remaining (s\<lparr>fp_client := fuseWg_Done (fp_client s)\<rparr>) \<le> fuse_remaining s"
    "still_waiting (fp_close s) \<Longrightarrow> fuse_remaining (s\<lparr>fp_client := fuseWg_Done (fp_client s)\<rparr>) < fuse_remaining s"
  using assms by (cases "fp_close s"; simp add: still_waiting_def)+

lemma close_step_left:
  assumes "fuse_close_step sys conf s t"
  shows "fuse_remaining t < fuse_remaining s" and "offline s \<Longrightarrow> offline t"
proof -
  show "fuse_remaining t < fuse_remaining s"
    using assms
  proof (cases rule: fuse_close_step.cases)
    case (snapshot mErr rng dErr)
    then have "length (rng (registry s)) = length (registry s)" by (metis size_mset)
    with snapshot show ?thesis by (simp add: fuseMounts_def)
  qed auto
  show "offline t" if "offline s" using assms that by (cases rule: fuse_close_step.cases) (auto simp: offline_def)
qed

lemma offline_step:
  assumes "fuse_proc_inv s" and "offline s" and "fuse_proc_step sys fe conf s t"
  shows "fuse_remaining t \<le> fuse_remaining s \<and> offline t"
  using assms(3)
proof (cases rule: fuse_proc_step.cases)
  case calm
  then show ?thesis
  proof (cases rule: calm_step.cases)
    case (socket_closed inst ss e)
    then show ?thesis using removed_left(1) [OF assms(1), of inst e] assms(2) by (auto simp: offline_def)
  next
    case goroutine_left
    then show ?thesis using done_left(1) [of s] assms(2) by (simp add: offline_def)
  qed (use assms(2) in \<open>auto simp: offline_def\<close>)
next
  case closing
  then show ?thesis using close_step_left [OF closing] assms(2) by (simp add: less_imp_le)
next
  case (accept_failed inst e)
  then show ?thesis using removed_left(1) [OF assms(1), of inst e] assms(2) by (auto simp: offline_def)
qed

lemma offline_progress:
  assumes "fuse_proc_inv s" and "offline s" and "fuse_remaining s \<noteq> 0"
  shows "\<exists>t. forced_step sys conf s t \<and> fuse_remaining t < fuse_remaining s"
proof -
  note inv = fuse_proc_invD [OF assms(1)]
  have step: ?thesis if "fuse_close_step sys conf s t" for t
    using that close_step_left(1) [OF that] by (auto simp: forced_step_def)
  show ?thesis
  proof (cases "fp_close s")
    case FuseOpen
    then show ?thesis using step [OF unmounted [OF _ refl]] by blast
  next
    case (FuseUnmounted mErr)
    then show ?thesis using step [OF snapshot [of s mErr id sys conf None]] by simp
  next
    case (FuseWaiting mErr mnts)
    then show ?thesis using step [OF waited] by blast
  next
    case (FuseDrained mErr)
    then show ?thesis using step [OF returned [OF _ refl]] by blast
  next
    case (FuseListeners mErr rest)
    then have wait: "still_waiting (fp_close s)" by (simp add: still_waiting_def)
    show ?thesis
    proof (cases rest)
      case (Cons m ms)
      obtain e s1 where "socketMount_Close sys m (fp_os s) = (e, s1)" by (cases "socketMount_Close sys m (fp_os s)")
      then show ?thesis using step [OF listener_closed] FuseListeners Cons by blast
    next
      case Nil
      consider "waitForFUSEMounts (fp_client s)" | x xs where "registry s = x # xs" | "0 < fm_leaving (cl_fuse (fp_client s))"
        using inv(1) by (cases "registry s") (auto simp: fuse_inv_def waitForFUSEMounts_def)
      then show ?thesis
      proof cases
        case 1
        then show ?thesis using step [OF drained] FuseListeners Nil by blast
      next
        case (2 x xs)
        obtain k ss where x: "x = (k, ss)" by (cases x)
        have k: "map_of (registry s) k = Some ss" using 2 x by simp
        have "known (FuseListeners mErr []) s" using inv(2) [OF assms(2)] FuseListeners Nil by simp
        then have "\<not> socket_open s ss" using 2 x by simp
        with k have "forced_step sys conf s (s\<lparr>fp_client := remove_socket k EOF (fp_client s)\<rparr>)" unfolding forced_step_def by blast
        with removed_left(2) [OF assms(1) _ wait, of k EOF] k show ?thesis by blast
      next
        case 3
        then have "forced_step sys conf s (s\<lparr>fp_client := fuseWg_Done (fp_client s)\<rparr>)" by (simp add: forced_step_def)
        with done_left(2) [OF 3 wait] show ?thesis by blast
      qed
    qed
  qed (use assms(3) in simp)
qed

section \<open>Properties\<close>

text \<open>
  With FUSE, \<open>Close\<close> returns once the directory is unmounted: \<open>fuse_left\<close> bounds the steps to its
  return, \<open>3 n + m + 4\<close> for \<open>n\<close> active sockets and \<open>m\<close> leaving goroutines after the unmount; they are
  steps of \<open>Close\<close> itself and of goroutines whose listeners it has closed; the next is always available, and
  nothing that happens meanwhile adds to them.
\<close>

theorem fuse_close_returns:
  assumes "configureFUSE sys fe c0 conf s0 = (Ok c, s1)" and "(fuse_proc_step sys fe conf)\<^sup>*\<^sup>* (init_fuse_proc c s1) s" and "offline s"
  shows "(if fuse_remaining s = 0 then \<exists>x. fp_close s = FuseReturned x
      else \<exists>t. forced_step sys conf s t \<and> fuse_remaining t < fuse_remaining s)
    \<and> (\<forall>t. fuse_proc_step sys fe conf s t \<longrightarrow> fuse_remaining t \<le> fuse_remaining s \<and> offline t)"
proof -
  have inv: "fuse_proc_inv s" using fuse_whole.inv_steps [OF assms(2) fuse_proc_inv_init [OF assms(1)]] .
  have "\<exists>x. fp_close s = FuseReturned x" if "fuse_remaining s = 0" using that by (cases "fp_close s") auto
  with offline_progress [OF inv assms(3)] offline_step [OF inv assms(3)] show ?thesis by auto
qed

text \<open>\<open>serveFuse\<close> up to its \<open>select\<close>.\<close>

lemma serveFuse_runs:
  assumes "serveFuse fe (fp_client s) = (None, cm)" and "fm_serving (cl_fuse (fp_client s)) = NotServing"
  shows "(calm_step sys fe)\<^sup>*\<^sup>* s (s\<lparr>fp_client := cm, fp_mounted := True\<rparr>)"
proof -
  have e: "mount_error fe (fp_client s) = None"
    "cm = set_serving Waiting (set_serving Notified (record_server (set_serving Mounted (fp_client s))))"
    using assms(1) by (auto simp: serveFuse_def split: option.splits)
  let ?a = "s\<lparr>fp_client := set_serving Mounted (fp_client s), fp_mounted := True\<rparr>"
  let ?b = "?a\<lparr>fp_client := record_server (fp_client ?a)\<rparr>"
  let ?c = "?b\<lparr>fp_client := set_serving Notified (fp_client ?b)\<rparr>"
  have "calm_step sys fe s ?a" by (rule mounting [OF assms(2) e(1)])
  moreover have "calm_step sys fe ?a ?b" by (rule server_recorded) simp
  moreover have "calm_step sys fe ?b ?c" by (rule notify_returned) simp
  moreover have "calm_step sys fe ?c (?c\<lparr>fp_client := set_serving Waiting (fp_client ?c)\<rparr>)" by (rule selecting) simp
  moreover have "?c\<lparr>fp_client := set_serving Waiting (fp_client ?c)\<rparr> = s\<lparr>fp_client := cm, fp_mounted := True\<rparr>" by (simp add: e(2))
  ultimately show ?thesis by (metis (no_types, lifting) converse_rtranclp_into_rtranclp rtranclp.rtrancl_refl)
qed

lemma calm_steps: "(calm_step sys fe)\<^sup>*\<^sup>* s t \<Longrightarrow> (fuse_proc_step sys fe conf)\<^sup>*\<^sup>* s t"
  by (erule rtranclp_mono [THEN predicate2D, rotated]) (auto intro: calm)

text \<open>A client whose directory is mounted and, with \<open>Close\<close> called, unmounted again.\<close>

lemma offline_reached:
  assumes "serveFuse fe c = (None, cm)" and "fm_serving (cl_fuse c) = NotServing"
  shows "\<exists>s. (fuse_proc_step sys fe conf)\<^sup>*\<^sup>* (init_fuse_proc c s1) s \<and> offline s \<and> fp_close s = FuseUnmounted []"
proof -
  let ?a = "\<lparr>fp_client = cm, fp_os = s1, fp_mounted = True, fp_close = FuseOpen\<rparr>"
  let ?b = "\<lparr>fp_client = cm, fp_os = s1, fp_mounted = False, fp_close = FuseUnmounted []\<rparr>"
  note cm = serveFuse_keeps(5,4) [OF assms(1)]
  have "(fuse_proc_step sys fe conf)\<^sup>*\<^sup>* (init_fuse_proc c s1) ?a"
    using calm_steps [OF serveFuse_runs [of fe "init_fuse_proc c s1" cm sys]] assms by (simp add: init_fuse_proc_def)
  moreover have "fuse_close_step sys conf ?a ?b"
    using unmounted [of ?a None fe None sys conf] cm by (simp add: unmountFUSE_def opt_list_def)
  ultimately have "(fuse_proc_step sys fe conf)\<^sup>*\<^sup>* (init_fuse_proc c s1) ?b"
    by (meson closing rtranclp.rtrancl_into_rtrancl)
  with cm(2) show ?thesis by (intro exI [of _ ?b]) (simp add: offline_def)
qed

abbreviation sample_fuse_env :: fuse_env where
  "sample_fuse_env \<equiv> \<lparr>mkdirAll_err = (\<lambda>_ _. None), fs_Mount_err = (\<lambda>_. None), Unmount_err = None\<rparr>"

abbreviation sample_fuse_sys :: sys where
  "sample_fuse_sys \<equiv> plain_sys (\<lambda>_. ''MYSQL_8_0'')"

definition fuse_conf :: Config where
  "fuse_conf = zero_Config\<lparr>cf_FUSEDir := ''/f'', cf_FUSETempDir := ''/tmp''\<rparr>"

lemma fuse_conf_configured:
  "configureFUSE sample_fuse_sys sample_fuse_env (fuse_client zero_Config\<lparr>cl_conf := fuse_conf\<rparr>) fuse_conf (init_os [''/f'']) =
     (Ok (fuse_client fuse_conf), init_os [''/tmp'', ''/f''])"
  by (simp add: configureFUSE_def plain_sys_def init_os_def zero_Config_def fuse_conf_def fuse_client_def)

lemma fuse_conf_mounted: "\<exists>cm. serveFuse sample_fuse_env (fuse_client fuse_conf) = (None, cm)"
  by (simp add: serveFuse_def mount_error_def)

theorem fuse_close_returns_witness:
  "\<exists>s t. offline s \<and> forced_step sample_fuse_sys fuse_conf s t \<and> fuse_remaining t < fuse_remaining s"
proof -
  obtain cm where cm: "serveFuse sample_fuse_env (fuse_client fuse_conf) = (None, cm)" using fuse_conf_mounted by blast
  have "fm_serving (cl_fuse (fuse_client fuse_conf)) = NotServing" by (simp add: fuse_client_def zero_fuseMount_def)
  from offline_reached [OF cm this] obtain s where
    s: "(fuse_proc_step sample_fuse_sys sample_fuse_env fuse_conf)\<^sup>*\<^sup>* (init_fuse_proc (fuse_client fuse_conf) (init_os [''/tmp'', ''/f''])) s"
      "offline s" "fp_close s = FuseUnmounted []" by blast
  from fuse_close_returns [OF fuse_conf_configured s(1,2)] s(3)
  obtain t where "forced_step sample_fuse_sys fuse_conf s t" "fuse_remaining t < fuse_remaining s" by (auto split: if_splits)
  with s(2) show ?thesis by (intro exI [of _ s] exI [of _ t] conjI)
qed

text \<open>A socket that \<open>Close\<close> does not know holds it up.\<close>

definition held_up :: "string \<Rightarrow> socketSymlink \<Rightarrow> go_error list \<Rightarrow> fuse_proc \<Rightarrow> bool" where
  "held_up inst ss mErr s \<longleftrightarrow> fp_close s = FuseListeners mErr [] \<and> map_of (registry s) inst = Some ss \<and> socket_open s ss
     \<and> fuse_inv (fp_client s, fp_os s)"

lemma held_up_lookup:
  assumes "held_up inst ss mErr s" and "Lookup sys k (fp_client s) (fp_os s) = (r, c, s1)"
  shows "held_up inst ss mErr (s\<lparr>fp_client := c, fp_os := s1\<rparr>)"
proof -
  have inv: "fuse_inv (c, s1)" using assms fuse_inv_lookup by (auto simp: held_up_def)
  show ?thesis
  proof (cases rule: Lookup_cases [of k sys "fp_client s" "fp_os s"])
    case (created m s' network address)
    with assms inv show ?thesis by (auto simp: held_up_def fuseSockets.find_store image_Un)
  qed (use assms inv in \<open>auto simp: held_up_def\<close>)
qed

lemma held_up_stays:
  assumes "held_up inst ss mErr s" and "calm_step sys fe s t \<or> fuse_close_step sys conf s t"
  shows "held_up inst ss mErr t"
proof -
  have "fuse_proc_step sys fe conf s t" using assms(2) calm closing by blast
  then have inv: "fuse_inv (fp_client t, fp_os t)" using assms(1) fuse_proc_fuse_inv by (auto simp: held_up_def)
  have wg: "\<not> waitForFUSEMounts (fp_client s)"
    using assms(1) drained_empty by (auto simp: held_up_def)
  from assms(2) show ?thesis
  proof
    assume "calm_step sys fe s t"
    then show ?thesis
    proof (cases rule: calm_step.cases)
      case (looked_up k r c s1)
      then show ?thesis using held_up_lookup [OF assms(1)] by simp
    next
      case (socket_closed k ss' e)
      then have "k \<noteq> inst" using assms(1) unfolding held_up_def by (metis option.inject)
      then show ?thesis using socket_closed assms(1) inv by (simp add: held_up_def fuseSockets.find_remove)
    qed (use assms(1) inv in \<open>auto simp: held_up_def\<close>)
  next
    assume "fuse_close_step sys conf s t"
    then show ?thesis by (cases rule: fuse_close_step.cases) (use assms(1) wg in \<open>auto simp: held_up_def\<close>)
  qed
qed

text \<open>
  C27. If \<open>Unmount\<close> fails, for example because the directory is in use, \<open>Close\<close> may wait for ever: a
  lookup that arrives after its snapshot of the sockets opens one that \<open>Close\<close> never closes,
  while it waits for that socket's goroutine. From there on, as long as no accept loop fails by
  itself, \<open>Close\<close> does not return, whatever the goroutines do.
\<close>

theorem fuse_close_hangs:
  assumes "configureFUSE sys fe c0 conf s0 = (Ok c, s1)" and "serveFuse fe c = (None, cm)"
    and "Lookup sys inst cm s1 = (Inode (Symlink p), c', s2)"
  shows "\<exists>s. (fuse_proc_step sys fe conf)\<^sup>*\<^sup>* (init_fuse_proc c s1) s \<and> fp_close s = FuseListeners [e] []
    \<and> (\<forall>t. (\<lambda>a b. calm_step sys fe a b \<or> fuse_close_step sys conf a b)\<^sup>*\<^sup>* s t \<longrightarrow> fp_close t = FuseListeners [e] [])"
proof -
  let ?p = "\<lambda>cl o' m ph. \<lparr>fp_client = cl, fp_os = o', fp_mounted = m, fp_close = ph\<rparr>"
  let ?s = "?p c' s2 True (FuseListeners [e] [])"
  have c: "fm_serving (cl_fuse c) = NotServing" "fm_fuseSockets (cl_fuse c) = []"
    using assms(1) by (auto simp: configureFUSE_def zero_fuseMount_def split: option.splits)
  have cm: "fm_fuseSockets (cl_fuse cm) = []" "fm_fuseServer (cl_fuse cm)"
    using serveFuse_keeps [OF assms(2)] c(2) by simp_all
  have "(fuse_proc_step sys fe conf)\<^sup>*\<^sup>* (init_fuse_proc c s1) (?p cm s1 True FuseOpen)"
    using calm_steps [OF serveFuse_runs [of fe "init_fuse_proc c s1" cm sys]] assms(2) c(1) by (simp add: init_fuse_proc_def)
  moreover have "fuse_close_step sys conf (?p cm s1 True FuseOpen) (?p cm s1 True (FuseUnmounted [e]))"
    using unmounted [of "?p cm s1 True FuseOpen" "Some e" fe "Some e" sys conf] cm(2) by (simp add: unmountFUSE_def opt_list_def)
  moreover have "fuse_close_step sys conf (?p cm s1 True (FuseUnmounted [e])) (?p cm s1 True (FuseWaiting [e] []))"
    using snapshot [of "?p cm s1 True (FuseUnmounted [e])" "[e]" id sys conf None] cm(1) by (simp add: opt_list_def fuseMounts_def)
  moreover have "fuse_close_step sys conf (?p cm s1 True (FuseWaiting [e] [])) (?p cm s1 True (FuseListeners [e] []))"
    using waited [of "?p cm s1 True (FuseWaiting [e] [])" "[e]" "[]" sys conf] by simp
  moreover have "calm_step sys fe (?p cm s1 True (FuseListeners [e] [])) ?s"
    using looked_up [of "?p cm s1 True (FuseListeners [e] [])" sys inst] assms(3) by simp
  ultimately have r: "(fuse_proc_step sys fe conf)\<^sup>*\<^sup>* (init_fuse_proc c s1) ?s"
    by (meson calm closing rtranclp.rtrancl_into_rtrancl)
  have "fuse_inv (c', s2)" using fuse_whole.inv_steps [OF r fuse_proc_inv_init [OF assms(1)]] by (simp add: fuse_proc_inv_def)
  moreover have "\<exists>ss. map_of (fm_fuseSockets (cl_fuse c')) inst = Some ss \<and> socket_open ?s ss"
  proof (cases rule: Lookup_cases [of inst sys cm s1])
    case (created m s' network address)
    with assms(3) show ?thesis by (auto simp: fuseSockets.find_store image_Un)
  qed (use assms(3) cm(1) in auto)
  ultimately obtain ss where held: "held_up inst ss [e] ?s" by (auto simp: held_up_def)
  have "held_up inst ss [e] t" if "(\<lambda>a b. calm_step sys fe a b \<or> fuse_close_step sys conf a b)\<^sup>*\<^sup>* ?s t" for t
    using that by (induction rule: rtranclp_induct) (use held held_up_stays in blast)+
  with r show ?thesis by (intro exI [of _ ?s]) (auto simp: held_up_def)
qed

lemma fuse_conf_lookup:
  assumes "serveFuse sample_fuse_env (fuse_client fuse_conf) = (None, cm)"
  shows "\<exists>p c' s2. Lookup sample_fuse_sys ''p:r:i'' cm (init_os [''/tmp'', ''/f'']) = (Inode (Symlink p), c', s2)"
proof -
  have "join2 ''/tmp'' ''p:r:i'' = ''/tmp/p:r:i''" "is_Ok (parseConnName ''p:r:i'')" by code_simp+
  with assms show ?thesis
    by (auto simp: Lookup_def serveFuse_def mount_error_def set_serving_def record_server_def fuse_client_def fuse_conf_def zero_Config_def zero_fuseMount_def newSocketMount_def
        listenAddress_def networkType_def withUnixSocket_def zero_inst_def sqlDataOn_def plain_sys_def
        init_os_def newUnixSocketMount_def hasPrefix_def net_Listen_def os_Chmod_def UnixAddress_def Let_def)
qed

theorem fuse_close_hangs_witness:
  "\<exists>s. fp_close s = FuseListeners [EOF] []
     \<and> (\<forall>t. (\<lambda>a b. calm_step sample_fuse_sys sample_fuse_env a b \<or> fuse_close_step sample_fuse_sys fuse_conf a b)\<^sup>*\<^sup>* s t \<longrightarrow>
         fp_close t = FuseListeners [EOF] [])"
proof -
  obtain cm where cm: "serveFuse sample_fuse_env (fuse_client fuse_conf) = (None, cm)" using fuse_conf_mounted by blast
  from fuse_conf_lookup [OF this] obtain p c' s2 where
    "Lookup sample_fuse_sys ''p:r:i'' cm (init_os [''/tmp'', ''/f'']) = (Inode (Symlink p), c', s2)" by blast
  from fuse_close_hangs [OF fuse_conf_configured cm this, of EOF] show ?thesis by blast
qed

end
