(* ===== verification/Go_Url.thy ===== *)
theory Go_Url
  imports Go_Strings
begin

text \<open>
  The part of Go's package \<open>net/url\<close> the command line uses: \<open>url.ParseQuery\<close>, with the
  decoding of query components. The parameters are a list of pairs in the order of the
  text, and a lookup collects the values of one key in that order. \<open>queryEscape\<close> and
  \<open>encodeQuery\<close> are \<open>url.QueryEscape\<close> and the text a client would write.
\<close>

section \<open>Query components\<close>

definition hex_val :: "char \<Rightarrow> nat option" where
  "hex_val c =
     (let n = of_char c :: nat in
      if 48 \<le> n \<and> n \<le> 57 then Some (n - 48)
      else if 97 \<le> n \<and> n \<le> 102 then Some (n - 87)
      else if 65 \<le> n \<and> n \<le> 70 then Some (n - 55) else None)"

fun queryUnescape :: "string \<Rightarrow> string option" where
  "queryUnescape [] = Some []"
| "queryUnescape (c # cs) =
     (if c = CHR ''%'' then
        (case cs of
           a # b # rest \<Rightarrow>
             (case (hex_val a, hex_val b) of
                (Some x, Some y) \<Rightarrow> map_option (\<lambda>r. char_of (16 * x + y) # r) (queryUnescape rest)
              | _ \<Rightarrow> None)
         | _ \<Rightarrow> None)
      else map_option (\<lambda>r. (if c = CHR ''+'' then CHR '' '' else c) # r) (queryUnescape cs))"

definition keep_char :: "char \<Rightarrow> bool" where
  "keep_char c \<longleftrightarrow>
     (let n = of_char c :: nat in 48 \<le> n \<and> n \<le> 57 \<or> 65 \<le> n \<and> n \<le> 90 \<or> 97 \<le> n \<and> n \<le> 122)
     \<or> c \<in> set ''-_.~''"

definition hex_digit :: "nat \<Rightarrow> char" where
  "hex_digit n = ''0123456789ABCDEF'' ! n"

definition escape_char :: "char \<Rightarrow> string" where
  "escape_char c =
     (let n = of_char c :: nat in
      if keep_char c then [c]
      else if c = CHR '' '' then [CHR ''+'']
      else [CHR ''%'', hex_digit (n div 16), hex_digit (n mod 16)])"

definition queryEscape :: "string \<Rightarrow> string" where
  "queryEscape s = concat (map escape_char s)"

lemma hex_digit_facts: "n < 16 \<Longrightarrow> hex_val (hex_digit n) = Some n \<and> keep_char (hex_digit n)"
proof -
  have "list_all (\<lambda>n. hex_val (hex_digit n) = Some n \<and> keep_char (hex_digit n)) [0..<16]" by code_simp
  then show "n < 16 \<Longrightarrow> ?thesis" by (simp add: list_all_iff)
qed

lemma keep_char_plain: "keep_char c \<Longrightarrow> c \<noteq> CHR ''%'' \<and> c \<noteq> CHR ''+''"
  by (auto simp: keep_char_def)

lemma queryUnescape_escape_char: "queryUnescape (escape_char c @ s) = map_option (\<lambda>r. c # r) (queryUnescape s)"
proof (cases "keep_char c \<or> c = CHR '' ''")
  case True
  then show ?thesis using keep_char_plain [of c] by (auto simp: escape_char_def)
next
  case False
  have n: "(of_char c :: nat) < 256" by simp
  have "char_of (16 * (of_char c div 16) + of_char c mod 16 :: nat) = c" by simp
  moreover have "(of_char c :: nat) div 16 < 16" using n by (simp add: less_mult_imp_div_less)
  ultimately show ?thesis using False hex_digit_facts by (simp add: escape_char_def Let_def)
qed

lemma queryUnescape_queryEscape [simp]: "queryUnescape (queryEscape s) = Some s"
  by (induction s) (simp_all add: queryEscape_def queryUnescape_escape_char)

definition safe_char :: "char \<Rightarrow> bool" where
  "safe_char c \<longleftrightarrow> keep_char c \<or> c = CHR ''%'' \<or> c = CHR ''+''"

lemma queryEscape_safe: "list_all safe_char (queryEscape s)"
proof -
  have "list_all safe_char (escape_char c)" for c
  proof -
    have "(of_char c :: nat) div 16 < 16" using nat_of_char_less_256 [of c] by linarith
    then show ?thesis using hex_digit_facts by (simp add: escape_char_def safe_char_def Let_def)
  qed
  then show ?thesis by (induction s) (simp_all add: queryEscape_def)
qed

lemma queryEscape_free [simp]:
  "CHR ''&'' \<notin> set (queryEscape s)" "CHR '';'' \<notin> set (queryEscape s)" "CHR ''='' \<notin> set (queryEscape s)"
  using queryEscape_safe [of s] by (auto simp: list_all_iff safe_char_def keep_char_def)

section \<open>Queries\<close>

fun parsePairs :: "string list \<Rightarrow> (string \<times> string) list option" where
  "parsePairs [] = Some []"
| "parsePairs (p # ps) =
     (if CHR '';'' \<in> set p then None
      else if p = [] then parsePairs ps
      else case cutc (CHR ''='') p of (k, v) \<Rightarrow>
        (case (queryUnescape k, queryUnescape (case v of None \<Rightarrow> [] | Some v' \<Rightarrow> v'), parsePairs ps) of
           (Some k', Some v', Some r) \<Rightarrow> Some ((k', v') # r)
         | _ \<Rightarrow> None))"

definition parseQuery :: "string \<Rightarrow> (string \<times> string) list option" where
  "parseQuery s = parsePairs (splitc (CHR ''&'') s)"

definition qget :: "(string \<times> string) list \<Rightarrow> string \<Rightarrow> string list option" where
  "qget q k = (let vs = map snd (filter (\<lambda>p. fst p = k) q) in if vs = [] then None else Some vs)"

definition encodePair :: "string \<times> string \<Rightarrow> string" where
  "encodePair p = queryEscape (fst p) @ ''='' @ queryEscape (snd p)"

definition encodeQuery :: "(string \<times> string) list \<Rightarrow> string" where
  "encodeQuery ps = joins ''&'' (map encodePair ps)"

lemma parsePairs_encode: "parsePairs (map encodePair ps) = Some ps"
proof (induction ps)
  case (Cons p ps)
  then show ?case using cutc_append [of "CHR ''=''" "queryEscape (fst p)" "queryEscape (snd p)"]
    by (simp add: encodePair_def)
qed simp

lemma parseQuery_encodeQuery [simp]: "parseQuery (encodeQuery ps) = Some ps"
proof (cases ps)
  case (Cons p qs)
  have "\<forall>x \<in> set (map encodePair ps). CHR ''&'' \<notin> set x"
    by (auto simp: encodePair_def)
  then have "splitc (CHR ''&'') (joins ''&'' (map encodePair ps)) = map encodePair ps"
    using Cons by (intro splitc_joins) auto
  then show ?thesis by (simp add: parseQuery_def encodeQuery_def parsePairs_encode)
qed (simp add: parseQuery_def encodeQuery_def)

end
