(* ===== verification/Cmd_Instance.thy ===== *)
theory Cmd_Instance
  imports Config Errors Go_Net Go_Url
begin

text \<open>
  Instance arguments of the command line (cmd/root.go, \<open>parseBoolOpt\<close> and the loop over the
  arguments in \<open>parseConfig\<close>, lines 910-1039): a connection name, optionally followed by \<open>?\<close>
  and query parameters. Every rejection is a bad-command error with its message.
\<close>

section \<open>Rules and rejections\<close>

text \<open>A chain of \<open>if cond { return newBadCommandError(msg) }\<close> statements.\<close>

fun first_error :: "(bool \<times> string) list \<Rightarrow> unit outcome" where
  "first_error [] = Ok ()"
| "first_error ((bad, msg) # rules) = (if bad then Err (newBadCommandError msg) else first_error rules)"

lemma first_error_Ok [simp]: "first_error rules = Ok () \<longleftrightarrow> (\<forall>r \<in> set rules. \<not> fst r)"
  by (induction rules rule: first_error.induct) auto

declare first_error.simps(2) [simp del]

text \<open>Outcomes that are a value or a bad-command error, which is all the parser returns.\<close>

definition bad_cmd :: "'a outcome \<Rightarrow> bool" where
  "bad_cmd r \<longleftrightarrow> (\<exists>x. r = Ok x) \<or> (\<exists>m. r = Err (newBadCommandError m))"

named_theorems bad_cmd_rules \<open>operations whose only error is a bad command\<close>

lemma bad_cmd_basic [bad_cmd_rules]: "bad_cmd (Ok x)" "bad_cmd (Err (newBadCommandError m))"
  by (auto simp: bad_cmd_def)

lemma bad_cmd_first_error [bad_cmd_rules]: "bad_cmd (first_error rules)"
  by (induction rules rule: first_error.induct) (auto simp: first_error.simps(2) intro: bad_cmd_basic)

lemma bad_cmd_bind [bad_cmd_rules]: "bad_cmd r \<Longrightarrow> (\<And>x. bad_cmd (f x)) \<Longrightarrow> bad_cmd (bind_outcome r f)"
  unfolding bad_cmd_def by (metis bind_outcome.simps(1,2))

text \<open>\<open>%q\<close> of a list of strings.\<close>

definition quote_list :: "string list \<Rightarrow> string" where
  "quote_list vs = ''['' @ joins '' '' (map quote vs) @ '']''"

section \<open>Query parameters\<close>

definition parseBoolOpt :: "(string \<times> string) list \<Rightarrow> string \<Rightarrow> bool option outcome" where
  "parseBoolOpt q name =
     (case qget q name of
        None \<Rightarrow> Ok None
      | Some [v] \<Rightarrow>
          if toLower v \<in> set [''true'', ''t'', []] then Ok (Some True)
          else if toLower v \<in> set [''false'', ''f''] then Ok (Some False)
          else Err (newBadCommandError (name @ '' query param should be true or false, got: '' @ quote v))
      | Some v \<Rightarrow> Err (newBadCommandError (name @ '' param should be only one value: '' @ quote_list v)))"

definition addressParam :: "string list option \<Rightarrow> string outcome" where
  "addressParam a =
     (case a of
        None \<Rightarrow> Ok []
      | Some [v] \<Rightarrow>
          if parseIP v = None then Err (newBadCommandError (''address query param is not a valid IP address: '' @ quote v))
          else Ok v
      | Some vs \<Rightarrow> Err (newBadCommandError (''address query param should be only one value: '' @ quote_list vs)))"

text \<open>The messages below quote \<open>a\<close>, the values of the address parameter, as the source does.\<close>

definition portParam :: "string list \<Rightarrow> string list option \<Rightarrow> int outcome" where
  "portParam a p =
     (case p of
        None \<Rightarrow> Ok 0
      | Some [v] \<Rightarrow>
          (case atoi v of
             None \<Rightarrow> Err (newBadCommandError (''port query param is not a valid integer: '' @ quote v))
           | Some pp \<Rightarrow> Ok pp)
      | Some vs \<Rightarrow> Err (newBadCommandError (''port query param should be only one value: '' @ quote_list a)))"

definition pathParam :: "string \<Rightarrow> string list \<Rightarrow> string list option \<Rightarrow> string outcome" where
  "pathParam name a u =
     (case u of
        None \<Rightarrow> Ok []
      | Some [v] \<Rightarrow> Ok v
      | Some vs \<Rightarrow> Err (newBadCommandError (name @ '' query param should be only one value: '' @ quote_list a)))"

definition sqlDataParam :: "string list \<Rightarrow> string list option \<Rightarrow> bool option outcome" where
  "sqlDataParam a sd =
     (case sd of
        None \<Rightarrow> Ok None
      | Some [v] \<Rightarrow>
          if v \<noteq> ''true'' \<and> v \<noteq> ''false''
          then Err (newBadCommandError (''sql-data query param should be '' @ quote ''true'' @ '' or '' @ quote ''false''
                 @ '' '' @ quote_list a))
          else Ok (Some (v = ''true''))
      | Some vs \<Rightarrow> Err (newBadCommandError (''sql-data query param should be only one value '' @ quote_list a)))"

definition conflictRules :: "(string \<times> string) list \<Rightarrow> (bool \<times> string) list" where
  "conflictRules q =
     (let has = (\<lambda>k. qget q k \<noteq> None);
          aok = has ''address''; pok = has ''port''; uok = has ''unix-socket''; upok = has ''unix-socket-path''
      in [(aok \<and> uok, ''cannot specify both address and unix-socket query params''),
          (pok \<and> uok, ''cannot specify both port and unix-socket query params''),
          (aok \<and> upok, ''cannot specify both address and unix-socket-path query params''),
          (pok \<and> upok, ''cannot specify both port and unix-socket-path query params''),
          (uok \<and> upok, ''cannot specify both unix-socket-path and unix-socket query params'')])"

definition parseParams :: "Config \<Rightarrow> string \<Rightarrow> (string \<times> string) list \<Rightarrow> InstanceConnConfig outcome" where
  "parseParams conf name q =
     (let a = (case qget q ''address'' of None \<Rightarrow> [] | Some vs \<Rightarrow> vs) in
      bind_outcome (first_error (conflictRules q)) (\<lambda>_.
      bind_outcome (addressParam (qget q ''address'')) (\<lambda>addr.
      bind_outcome (portParam a (qget q ''port'')) (\<lambda>port.
      bind_outcome (pathParam ''unix'' a (qget q ''unix-socket'')) (\<lambda>u.
      bind_outcome (pathParam ''unix-socket-path'' a (qget q ''unix-socket-path'')) (\<lambda>up.
      bind_outcome (sqlDataParam a (qget q ''sql-data'')) (\<lambda>sd.
      bind_outcome (parseBoolOpt q ''auto-iam-authn'') (\<lambda>iam.
      bind_outcome (parseBoolOpt q ''private-ip'') (\<lambda>pip.
      bind_outcome (first_error [(pip = Some True \<and> cf_AutoIP conf, ''cannot use --auto-ip with private-ip'')]) (\<lambda>_.
      bind_outcome (parseBoolOpt q ''psc'') (\<lambda>psc.
      bind_outcome (first_error [(pip \<noteq> None \<and> psc \<noteq> None, ''cannot specify both private-ip and psc query params'')]) (\<lambda>_.
        Ok \<lparr>ic_Name = name, ic_Addr = addr, ic_Port = port, ic_UnixSocket = u, ic_UnixSocketPath = up,
            ic_SQLDataEnabled = sd, ic_IAMAuthN = iam, ic_PrivateIP = pip, ic_PSC = psc\<rparr>))))))))))))"

definition parseInstance :: "Config \<Rightarrow> string \<Rightarrow> InstanceConnConfig outcome" where
  "parseInstance conf a =
     (case cutc (CHR ''?'') a of
        (_, None) \<Rightarrow> Ok (zero_inst\<lparr>ic_Name := a\<rparr>)
      | (name, Some query) \<Rightarrow>
         (case parseQuery query of
            None \<Rightarrow> Err (newBadCommandError (''could not parse query: '' @ quote query))
          | Some q \<Rightarrow> parseParams conf name q))"

fun parseInstances :: "Config \<Rightarrow> string list \<Rightarrow> InstanceConnConfig list outcome" where
  "parseInstances conf [] = Ok []"
| "parseInstances conf (a # args) =
     bind_outcome (parseInstance conf a) (\<lambda>ic. bind_outcome (parseInstances conf args) (\<lambda>ics. Ok (ic # ics)))"

section \<open>Only bad-command errors\<close>

lemma bad_cmd_params [bad_cmd_rules]:
  "bad_cmd (parseBoolOpt q k)" "bad_cmd (addressParam a)" "bad_cmd (portParam al p)"
  "bad_cmd (pathParam n al u)" "bad_cmd (sqlDataParam al sd)"
  by (auto simp: parseBoolOpt_def addressParam_def portParam_def pathParam_def sqlDataParam_def bad_cmd_basic
      split: option.split list.split)

lemma bad_cmd_parseParams [bad_cmd_rules]: "bad_cmd (parseParams conf name q)"
  unfolding parseParams_def Let_def by (intro bad_cmd_rules)

lemma bad_cmd_parseInstance [bad_cmd_rules]: "bad_cmd (parseInstance conf a)"
  unfolding parseInstance_def by (auto intro: bad_cmd_rules split: option.split prod.split)

lemma bad_cmd_parseInstances [bad_cmd_rules]: "bad_cmd (parseInstances conf args)"
  by (induction args) (auto intro: bad_cmd_rules)

section \<open>Printing an instance\<close>

text \<open>The parameters that describe an instance, those with the zero value left out.\<close>

definition optp :: "string \<Rightarrow> string option \<Rightarrow> (string \<times> string) list" where
  "optp k v = (case v of None \<Rightarrow> [] | Some x \<Rightarrow> [(k, x)])"

definition nonempty :: "string \<Rightarrow> string option" where
  "nonempty s = (if s = [] then None else Some s)"

definition show_bool :: "bool \<Rightarrow> string" where
  "show_bool b = (if b then ''true'' else ''false'')"

definition instanceParams :: "InstanceConnConfig \<Rightarrow> (string \<times> string) list" where
  "instanceParams ic =
     optp ''address'' (nonempty (ic_Addr ic))
     @ optp ''port'' (if ic_Port ic = 0 then None else Some (show_int (ic_Port ic)))
     @ optp ''unix-socket'' (nonempty (ic_UnixSocket ic))
     @ optp ''unix-socket-path'' (nonempty (ic_UnixSocketPath ic))
     @ optp ''sql-data'' (map_option show_bool (ic_SQLDataEnabled ic))
     @ optp ''auto-iam-authn'' (map_option show_bool (ic_IAMAuthN ic))
     @ optp ''private-ip'' (map_option show_bool (ic_PrivateIP ic))
     @ optp ''psc'' (map_option show_bool (ic_PSC ic))"

definition printInstance :: "InstanceConnConfig \<Rightarrow> string" where
  "printInstance ic = ic_Name ic @ CHR ''?'' # encodeQuery (instanceParams ic)"

text \<open>The instances the command line can express.\<close>

definition valid_inst :: "Config \<Rightarrow> InstanceConnConfig \<Rightarrow> bool" where
  "valid_inst conf ic \<longleftrightarrow>
     CHR ''?'' \<notin> set (ic_Name ic)
     \<and> (ic_Addr ic = [] \<or> parseIP (ic_Addr ic) \<noteq> None) \<and> in_int64 (ic_Port ic)
     \<and> (ic_UnixSocket ic \<noteq> [] \<or> ic_UnixSocketPath ic \<noteq> [] \<longrightarrow> ic_Addr ic = [] \<and> ic_Port ic = 0)
     \<and> (ic_UnixSocket ic = [] \<or> ic_UnixSocketPath ic = [])
     \<and> (ic_PrivateIP ic = None \<or> ic_PSC ic = None)
     \<and> \<not> (ic_PrivateIP ic = Some True \<and> cf_AutoIP conf)"

lemma qget_append:
  "qget (p @ q) k =
     (case qget p k of None \<Rightarrow> qget q k | Some v \<Rightarrow> Some (v @ (case qget q k of None \<Rightarrow> [] | Some w \<Rightarrow> w)))"
  by (auto simp: qget_def Let_def)

lemma qget_optp: "qget (optp k v) k' = (if k' = k then map_option (\<lambda>x. [x]) v else None)"
  by (auto simp: qget_def optp_def split: option.split)

lemma qget_instanceParams:
  "qget (instanceParams ic) ''address'' = map_option (\<lambda>x. [x]) (nonempty (ic_Addr ic))"
  "qget (instanceParams ic) ''port'' = (if ic_Port ic = 0 then None else Some [show_int (ic_Port ic)])"
  "qget (instanceParams ic) ''unix-socket'' = map_option (\<lambda>x. [x]) (nonempty (ic_UnixSocket ic))"
  "qget (instanceParams ic) ''unix-socket-path'' = map_option (\<lambda>x. [x]) (nonempty (ic_UnixSocketPath ic))"
  "qget (instanceParams ic) ''sql-data'' = map_option (\<lambda>b. [show_bool b]) (ic_SQLDataEnabled ic)"
  "qget (instanceParams ic) ''auto-iam-authn'' = map_option (\<lambda>b. [show_bool b]) (ic_IAMAuthN ic)"
  "qget (instanceParams ic) ''private-ip'' = map_option (\<lambda>b. [show_bool b]) (ic_PrivateIP ic)"
  "qget (instanceParams ic) ''psc'' = map_option (\<lambda>b. [show_bool b]) (ic_PSC ic)"
  by (simp_all add: instanceParams_def qget_append qget_optp option.map_comp o_def split: option.split)

lemma toLower_show_bool: "toLower (show_bool b) = show_bool b"
  by (cases b) (simp_all add: show_bool_def lower_char_def)

lemma parseBoolOpt_show:
  "qget q k = map_option (\<lambda>b. [show_bool b]) v \<Longrightarrow> parseBoolOpt q k = Ok v"
  by (cases v; cases "the v") (simp_all add: parseBoolOpt_def toLower_show_bool, simp_all add: show_bool_def)

lemmas bind_Ok = bind_outcome_Ok_iff

text \<open>What a successful parse of the parameters has established.\<close>

lemma addressParam_Ok: "addressParam a = Ok v \<Longrightarrow> v = [] \<and> a = None \<or> parseIP v \<noteq> None \<and> a \<noteq> None"
  by (auto simp: addressParam_def split: option.splits list.splits if_splits)

lemma atoi_range: "atoi v = Some n \<Longrightarrow> in_int64 n"
  by (auto simp: atoi_def Let_def split: option.splits list.splits if_splits)

lemma portParam_Ok: "portParam al p = Ok n \<Longrightarrow> in_int64 n \<and> (p = None \<longrightarrow> n = 0)"
  by (auto simp: portParam_def atoi_range split: option.splits list.splits) (simp add: in_int64_def)

lemma pathParam_Ok: "pathParam n al u = Ok v \<Longrightarrow> u = None \<Longrightarrow> v = []"
  by (simp add: pathParam_def)

lemma parseParams_valid:
  assumes "parseParams conf name q = Ok ic"
  shows "ic_Name ic = name \<and> (CHR ''?'' \<notin> set name \<longrightarrow> valid_inst conf ic)"
proof -
  let ?a = "case qget q ''address'' of None \<Rightarrow> [] | Some vs \<Rightarrow> vs"
  from assms have rules: "first_error (conflictRules q) = Ok ()"
    and ad: "addressParam (qget q ''address'') = Ok (ic_Addr ic)"
    and po: "portParam ?a (qget q ''port'') = Ok (ic_Port ic)"
    and us: "pathParam ''unix'' ?a (qget q ''unix-socket'') = Ok (ic_UnixSocket ic)"
    and up: "pathParam ''unix-socket-path'' ?a (qget q ''unix-socket-path'') = Ok (ic_UnixSocketPath ic)"
    and ip: "\<not> (ic_PrivateIP ic = Some True \<and> cf_AutoIP conf)" "ic_PrivateIP ic = None \<or> ic_PSC ic = None"
    and nm: "ic_Name ic = name"
    unfolding parseParams_def Let_def bind_Ok by (auto split: if_splits)
  from rules have ex: "qget q ''unix-socket'' \<noteq> None \<or> qget q ''unix-socket-path'' \<noteq> None \<Longrightarrow>
      qget q ''address'' = None \<and> qget q ''port'' = None"
    and ex2: "qget q ''unix-socket'' = None \<or> qget q ''unix-socket-path'' = None"
    by (auto simp: conflictRules_def Let_def)
  show ?thesis
    using nm ip ex ex2 addressParam_Ok [OF ad] portParam_Ok [OF po] pathParam_Ok [OF us] pathParam_Ok [OF up]
    unfolding valid_inst_def by blast
qed

text \<open>Parsing the printed text of a valid instance.\<close>

lemma parse_print_instance:
  assumes "valid_inst conf ic"
  shows "parseInstance conf (printInstance ic) = Ok ic"
proof -
  have "cutc (CHR ''?'') (printInstance ic) = (ic_Name ic, Some (encodeQuery (instanceParams ic)))"
    using assms by (simp add: printInstance_def valid_inst_def cutc_append)
  moreover have "parseParams conf (ic_Name ic) (instanceParams ic) = Ok ic"
  proof -
    let ?q = "instanceParams ic"
    have "first_error (conflictRules ?q) = Ok ()"
      using assms by (auto simp: conflictRules_def qget_instanceParams valid_inst_def nonempty_def)
    moreover have "addressParam (qget ?q ''address'') = Ok (ic_Addr ic)"
      using assms by (auto simp: qget_instanceParams addressParam_def nonempty_def valid_inst_def)
    moreover have "portParam a (qget ?q ''port'') = Ok (ic_Port ic)" for a
      using assms by (simp add: qget_instanceParams portParam_def valid_inst_def atoi_show_int)
    moreover have "pathParam n a (qget ?q ''unix-socket'') = Ok (ic_UnixSocket ic)"
      "pathParam n a (qget ?q ''unix-socket-path'') = Ok (ic_UnixSocketPath ic)" for n a
      by (simp_all add: qget_instanceParams pathParam_def nonempty_def)
    moreover have "sqlDataParam a (qget ?q ''sql-data'') = Ok (ic_SQLDataEnabled ic)" for a
      by (cases "ic_SQLDataEnabled ic") (auto simp: qget_instanceParams sqlDataParam_def show_bool_def)
    moreover have "parseBoolOpt ?q ''auto-iam-authn'' = Ok (ic_IAMAuthN ic)"
      "parseBoolOpt ?q ''private-ip'' = Ok (ic_PrivateIP ic)" "parseBoolOpt ?q ''psc'' = Ok (ic_PSC ic)"
      by (simp_all add: parseBoolOpt_show qget_instanceParams)
    ultimately show ?thesis
      using assms by (simp add: parseParams_def Let_def valid_inst_def bind_Ok)
  qed
  ultimately show ?thesis by (simp add: parseInstance_def)
qed

lemma parseInstance_name_valid:
  assumes "parseInstance conf a = Ok ic"
  shows "ic_Name ic = takeWhile (\<lambda>c. c \<noteq> CHR ''?'') a \<and> valid_inst conf ic"
proof -
  have free: "CHR ''?'' \<notin> set (takeWhile (\<lambda>c. c \<noteq> CHR ''?'') a)" by (auto dest: set_takeWhileD)
  show ?thesis
  proof (cases "snd (cutc (CHR ''?'') a)")
    case None
    then have n: "CHR ''?'' \<notin> set a" by (simp add: cutc_None_iff)
    then have t: "takeWhile (\<lambda>c. c \<noteq> CHR ''?'') a = a" by (auto simp: takeWhile_eq_all_conv)
    have "ic = zero_inst\<lparr>ic_Name := a\<rparr>"
      using assms by (simp add: parseInstance_def cutc_free [OF n])
    then show ?thesis unfolding t using n by (simp add: valid_inst_def zero_inst_def in_int64_def)
  next
    case (Some query)
    then have c: "cutc (CHR ''?'') a = (takeWhile (\<lambda>c. c \<noteq> CHR ''?'') a, Some query)"
      using cutc_fst [of "CHR ''?''" a] by (simp add: prod_eq_iff)
    then obtain q where "parseParams conf (takeWhile (\<lambda>c. c \<noteq> CHR ''?'') a) q = Ok ic"
      using assms by (auto simp: parseInstance_def split: option.splits)
    from parseParams_valid [OF this] free show ?thesis by simp
  qed
qed

lemmas parseInstance_valid = parseInstance_name_valid [THEN conjunct2]

section \<open>Properties\<close>

text \<open>
  C30. The instance syntax is complete: every instance configuration without contradictory
  settings has a text, its name followed by the escaped query parameters, and parsing that
  text gives exactly the configuration back.
\<close>

theorem parseInstance_printInstance:
  assumes "valid_inst conf ic"
  shows "parseInstance conf (printInstance ic) = Ok ic"
  using assms by (rule parse_print_instance)

theorem parseInstance_printInstance_witness:
  "\<exists>ic. ic_UnixSocketPath ic = ''/a b&c'' \<and> ic_PrivateIP ic = Some True \<and> parseInstance zero_Config (printInstance ic) = Ok ic"
  using parseInstance_printInstance [of zero_Config "zero_inst\<lparr>ic_Name := ''p:r:i'', ic_UnixSocketPath := ''/a b&c'', ic_PrivateIP := Some True\<rparr>"]
  by (intro exI [of _ "zero_inst\<lparr>ic_Name := ''p:r:i'', ic_UnixSocketPath := ''/a b&c'', ic_PrivateIP := Some True\<rparr>"])
    (simp add: valid_inst_def zero_inst_def zero_Config_def in_int64_def)

text \<open>
  What is accepted is consistent: a parsed instance has the name before the first \<open>?\<close>, a
  valid or no bind address, a port in range, no TCP setting next to a Unix socket, at most
  one socket setting and at most one of private IP and PSC; so an instance-level socket
  always means a Unix listener and an instance-level address or port a TCP listener.
\<close>

theorem parseInstance_sound:
  assumes "parseInstance conf a = Ok ic"
  shows "ic_Name ic = takeWhile (\<lambda>c. c \<noteq> CHR ''?'') a \<and> valid_inst conf ic
    \<and> (ic_UnixSocket ic \<noteq> [] \<or> ic_UnixSocketPath ic \<noteq> [] \<longrightarrow> networkType conf2 ic = ''unix'')
    \<and> (ic_Addr ic \<noteq> [] \<or> ic_Port ic \<noteq> 0 \<longrightarrow> networkType conf2 ic = ''tcp'')"
  using parseInstance_name_valid [OF assms] by (auto simp: valid_inst_def networkType_def)

theorem parseInstance_sound_witness:
  "networkType zero_Config (zero_inst\<lparr>ic_Name := ''p:r:i'', ic_UnixSocket := ''/tmp''\<rparr>) = ''unix''"
proof -
  let ?i = "zero_inst\<lparr>ic_Name := ''p:r:i'', ic_UnixSocket := ''/tmp''\<rparr>"
  have "parseInstance zero_Config (printInstance ?i) = Ok ?i"
    by (rule parse_print_instance) (simp add: valid_inst_def zero_inst_def zero_Config_def in_int64_def)
  from parseInstance_sound [OF this, of zero_Config] show ?thesis by simp
qed

end
