(* ===== verification/Log.thy ===== *)
theory Log
  imports Prelude
begin

text \<open>
  The loggers (internal/log/log.go): the standard logger with separate streams for
  informational and error messages, and the structured logger that writes JSON through
  \<open>log/slog\<close>. A logger is a value; emitting a message gives the lines that reach a stream.
  Messages are already formatted; time stamps are left out of the lines.
\<close>

datatype sink = Stdout | Stderr | Discard

datatype level = DebugLevel | InfoLevel | ErrorLevel

fun level_rank :: "level \<Rightarrow> int" where
  "level_rank DebugLevel = - 4"
| "level_rank InfoLevel = 0"
| "level_rank ErrorLevel = 8"

datatype handler = DiscardHandler | JSONHandler sink level

datatype logger = StdLogger sink sink | StructuredLogger handler handler

datatype log_line = PlainLine sink string | JSONLine sink level string

definition NewStdLogger :: "sink \<Rightarrow> sink \<Rightarrow> logger" where
  "NewStdLogger out err = StdLogger out err"

definition NewStructuredLogger :: "bool \<Rightarrow> logger" where
  "NewStructuredLogger quiet =
     (let infoHandler = (if quiet then DiscardHandler else JSONHandler Stdout DebugLevel);
          errorHandler = JSONHandler Stderr ErrorLevel
      in StructuredLogger infoHandler errorHandler)"

definition print_line :: "sink \<Rightarrow> string \<Rightarrow> log_line list" where
  "print_line s msg = (if s = Discard then [] else [PlainLine s msg])"

text \<open>A handler drops the records below its level.\<close>

fun handle :: "handler \<Rightarrow> level \<Rightarrow> string \<Rightarrow> log_line list" where
  "handle DiscardHandler l msg = []"
| "handle (JSONHandler s min_level) l msg = (if level_rank min_level \<le> level_rank l then [JSONLine s l msg] else [])"

fun Infof :: "logger \<Rightarrow> string \<Rightarrow> log_line list" where
  "Infof (StdLogger stdLog errLog) msg = print_line stdLog msg"
| "Infof (StructuredLogger stdLog errLog) msg = handle stdLog InfoLevel msg"

fun Errorf :: "logger \<Rightarrow> string \<Rightarrow> log_line list" where
  "Errorf (StdLogger stdLog errLog) msg = print_line errLog msg"
| "Errorf (StructuredLogger stdLog errLog) msg = handle errLog ErrorLevel msg"

fun Debugf :: "logger \<Rightarrow> string \<Rightarrow> log_line list" where
  "Debugf (StdLogger stdLog errLog) msg = print_line stdLog msg"
| "Debugf (StructuredLogger stdLog errLog) msg = handle stdLog DebugLevel msg"

text \<open>
  The attributes of a record: \<open>groups\<close> is nil for the top level, \<open>RFC3339\<close> formats a time.
\<close>

datatype 't attr_value = TimeValue 't | StringValue string | OtherValue

definition replaceAttr ::
  "('t \<Rightarrow> string) \<Rightarrow> string list option \<Rightarrow> string \<times> 't attr_value \<Rightarrow> string \<times> 't attr_value" where
  "replaceAttr RFC3339 groups a =
     (case a of (key, v) \<Rightarrow>
      if groups \<noteq> None then a
      else if key = ''level'' then (''severity'', v)
      else if key = ''msg'' then (''message'', v)
      else if key = ''source'' then (''sourceLocation'', v)
      else if key = ''time'' then
        (''timestamp'', case v of TimeValue t \<Rightarrow> StringValue (RFC3339 t) | _ \<Rightarrow> v)
      else a)"

lemma quiet_loggers:
  "Infof (NewStructuredLogger True) msg = []" "Debugf (NewStructuredLogger True) msg = []"
  "Infof (NewStdLogger Discard Stderr) msg = []" "Debugf (NewStdLogger Discard Stderr) msg = []"
  by (simp_all add: NewStructuredLogger_def NewStdLogger_def print_line_def)

lemma error_lines:
  "Errorf (NewStructuredLogger q) msg = [JSONLine Stderr ErrorLevel msg]"
  "Errorf (NewStdLogger out Stderr) msg = [PlainLine Stderr msg]"
  by (simp_all add: NewStructuredLogger_def NewStdLogger_def print_line_def)

end
