(* ===== verification/Cmd_Config.thy ===== *)
theory Cmd_Config
  imports Cmd_Instance Go_Path Log
begin

text \<open>
  The root command (cmd/root.go and cmd/options.go): the flag table and defaults of
  \<open>NewCommand\<close>, the options, \<open>loadConfig\<close> with \<open>initViper\<close>, \<open>instanceFromEnv\<close> and
  \<open>instanceFromConfigFile\<close>, \<open>parseConfig\<close>, \<open>semanticVersion\<close> and the exit code \<open>Execute\<close>
  chooses. The flag library, viper, \<open>url.Parse\<close> and the environment are parameters.
\<close>

section \<open>The command and its flags\<close>

text \<open>\<open>cm_changed\<close> lists the flags that have been set; \<open>cm_userAgent\<close> is the package variable.\<close>

record Command =
  cm_conf :: Config
  cm_changed :: "string list"
  cm_logger :: logger
  cm_dialer :: bool
  cm_connRefuseNotify :: bool
  cm_userAgent :: string

text \<open>
  How the flag library reads a value: what it stores in the variable, and whether it accepted
  the text. A flag is its name and what setting it does to the configuration.
\<close>

record pflag =
  pf_bool :: "string \<Rightarrow> bool \<times> bool"
  pf_int :: "string \<Rightarrow> int \<times> bool"
  pf_uint64 :: "string \<Rightarrow> uint64 \<times> bool"
  pf_duration :: "string \<Rightarrow> int \<times> bool"

type_synonym flag = "string \<times> (string \<Rightarrow> Config \<Rightarrow> Config \<times> bool)"

definition stringVar :: "((string \<Rightarrow> string) \<Rightarrow> Config \<Rightarrow> Config) \<Rightarrow> string \<Rightarrow> flag" where
  "stringVar upd name = (name, \<lambda>v c. (upd (\<lambda>_. v) c, True))"

definition parsedVar :: "(string \<Rightarrow> 'a \<times> bool) \<Rightarrow> (('a \<Rightarrow> 'a) \<Rightarrow> Config \<Rightarrow> Config) \<Rightarrow> string \<Rightarrow> flag" where
  "parsedVar parse upd name = (name, \<lambda>v c. (upd (\<lambda>_. fst (parse v)) c, snd (parse v)))"

definition flags :: "pflag \<Rightarrow> flag list" where
  "flags pf = (let boolVar = parsedVar (pf_bool pf) in
    [boolVar (\<lambda>_ c. c) ''help'',
     boolVar (\<lambda>_ c. c) ''version'',
     stringVar cf_Filepath_update ''config-file'',
     stringVar cf_OtherUserAgents_update ''user-agent'',
     stringVar cf_Token_update ''token'',
     stringVar cf_LoginToken_update ''login-token'',
     stringVar cf_CredentialsFile_update ''credentials-file'',
     stringVar cf_CredentialsJSON_update ''json-credentials'',
     boolVar cf_GcloudAuth_update ''gcloud-auth'',
     boolVar cf_StructuredLogs_update ''structured-logs'',
     boolVar cf_DebugLogs_update ''debug-logs'',
     parsedVar (pf_uint64 pf) cf_MaxConnections_update ''max-connections'',
     parsedVar (pf_duration pf) cf_WaitBeforeClose_update ''min-sigterm-delay'',
     parsedVar (pf_duration pf) cf_WaitOnClose_update ''max-sigterm-delay'',
     stringVar cf_TelemetryProject_update ''telemetry-project'',
     boolVar cf_DisableTraces_update ''disable-traces'',
     parsedVar (pf_int pf) cf_TelemetryTracingSampleRate_update ''telemetry-sample-rate'',
     boolVar cf_DisableMetrics_update ''disable-metrics'',
     stringVar cf_TelemetryPrefix_update ''telemetry-prefix'',
     boolVar cf_ExitZeroOnSigterm_update ''exit-zero-on-sigterm'',
     boolVar cf_Prometheus_update ''prometheus'',
     stringVar cf_PrometheusNamespace_update ''prometheus-namespace'',
     stringVar cf_HTTPAddress_update ''http-address'',
     stringVar cf_HTTPPort_update ''http-port'',
     boolVar cf_Debug_update ''debug'',
     boolVar cf_QuitQuitQuit_update ''quitquitquit'',
     stringVar cf_AdminPort_update ''admin-port'',
     boolVar cf_HealthCheck_update ''health-check'',
     stringVar cf_APIEndpointURL_update ''sqladmin-api-endpoint'',
     stringVar cf_UniverseDomain_update ''universe-domain'',
     stringVar cf_QuotaProject_update ''quota-project'',
     stringVar cf_FUSEDir_update ''fuse'',
     stringVar cf_FUSETempDir_update ''fuse-tmp-dir'',
     stringVar cf_ImpersonationChain_update ''impersonate-service-account'',
     boolVar cf_Quiet_update ''quiet'',
     boolVar cf_AutoIP_update ''auto-ip'',
     boolVar cf_LazyRefresh_update ''lazy-refresh'',
     parsedVar (pf_duration pf) cf_ResourceExhaustedCooldownPeriod_update ''resource-exhausted-cooldown-delay'',
     stringVar cf_SQLDataEndpoint_update ''sqldata-api-endpoint'',
     boolVar cf_RunConnectionTest_update ''run-connection-test'',
     boolVar cf_SkipFailedInstanceConfig_update ''skip-failed-instance-config'',
     stringVar cf_Addr_update ''address'',
     parsedVar (pf_int pf) cf_Port_update ''port'',
     stringVar cf_UnixSocket_update ''unix-socket'',
     boolVar cf_IAMAuthN_update ''auto-iam-authn'',
     boolVar cf_PrivateIP_update ''private-ip'',
     boolVar cf_PSC_update ''psc'',
     boolVar cf_SQLDataEnabled_update ''sql-data''])"

text \<open>The configuration before any flag is set; \<open>tmp\<close> is \<open>os.TempDir()\<close>.\<close>

definition default_conf :: "string \<Rightarrow> string \<Rightarrow> Config" where
  "default_conf tmp userAgent = zero_Config\<lparr>cf_UserAgent := userAgent, cf_TelemetryTracingSampleRate := 10000,
     cf_HTTPAddress := ''localhost'', cf_HTTPPort := ''9090'', cf_AdminPort := ''9091'',
     cf_FUSETempDir := join2 tmp ''csql-tmp'', cf_Addr := ''127.0.0.1''\<rparr>"

definition NewCommand :: "string \<Rightarrow> string \<Rightarrow> Command" where
  "NewCommand tmp userAgent = \<lparr>cm_conf = default_conf tmp userAgent, cm_changed = [],
     cm_logger = NewStdLogger Stdout Stderr, cm_dialer = False, cm_connRefuseNotify = False, cm_userAgent = userAgent\<rparr>"

text \<open>The normalisation of flag names.\<close>

definition normalizeFlag :: "string \<Rightarrow> string" where
  "normalizeFlag name = (if name = ''sql-data-endpoint'' then ''sqldata-api-endpoint'' else name)"

section \<open>Options\<close>

definition WithLogger :: "logger \<Rightarrow> Command \<Rightarrow> Command" where
  "WithLogger l c = c\<lparr>cm_logger := l\<rparr>"

definition WithDialer :: "Command \<Rightarrow> Command" where
  "WithDialer c = c\<lparr>cm_dialer := True\<rparr>"

definition WithFuseDir :: "string \<Rightarrow> Command \<Rightarrow> Command" where
  "WithFuseDir d c = c\<lparr>cm_conf := (cm_conf c)\<lparr>cf_FUSEDir := d\<rparr>\<rparr>"

definition WithFuseTempDir :: "string \<Rightarrow> Command \<Rightarrow> Command" where
  "WithFuseTempDir d c = c\<lparr>cm_conf := (cm_conf c)\<lparr>cf_FUSETempDir := d\<rparr>\<rparr>"

definition WithMaxConnections :: "uint64 \<Rightarrow> Command \<Rightarrow> Command" where
  "WithMaxConnections mc c = c\<lparr>cm_conf := (cm_conf c)\<lparr>cf_MaxConnections := mc\<rparr>\<rparr>"

definition WithOtherUserAgent :: "string \<Rightarrow> Command \<Rightarrow> Command" where
  "WithOtherUserAgent agent c = c\<lparr>cm_conf := (cm_conf c)\<lparr>cf_OtherUserAgents := agent\<rparr>\<rparr>"

definition WithAutoIPFlag :: "Command \<Rightarrow> Command" where
  "WithAutoIPFlag c = c\<lparr>cm_conf := (cm_conf c)\<lparr>cf_AutoIP := True\<rparr>\<rparr>"

definition WithQuietLogging :: "Command \<Rightarrow> Command" where
  "WithQuietLogging c = c\<lparr>cm_conf := (cm_conf c)\<lparr>cf_Quiet := True\<rparr>\<rparr>"

definition WithDebugLogging :: "Command \<Rightarrow> Command" where
  "WithDebugLogging c = c\<lparr>cm_conf := (cm_conf c)\<lparr>cf_DebugLogs := True\<rparr>\<rparr>"

definition WithLazyRefreshFlag :: "Command \<Rightarrow> Command" where
  "WithLazyRefreshFlag c = c\<lparr>cm_conf := (cm_conf c)\<lparr>cf_LazyRefresh := True\<rparr>\<rparr>"

definition WithConnRefuseNotify :: "Command \<Rightarrow> Command" where
  "WithConnRefuseNotify c = c\<lparr>cm_connRefuseNotify := True\<rparr>"

section \<open>Reading flags from viper\<close>

definition setFlag :: "flag \<Rightarrow> string \<Rightarrow> Command \<Rightarrow> Command" where
  "setFlag f val c =
     (case snd f val (cm_conf c) of (conf, accepted) \<Rightarrow>
        c\<lparr>cm_conf := conf, cm_changed := (if accepted then fst f # cm_changed c else cm_changed c)\<rparr>)"

definition visitFlag :: "(string \<Rightarrow> string option) \<Rightarrow> flag \<Rightarrow> Command \<Rightarrow> Command" where
  "visitFlag v f c =
     (if fst f \<in> set (cm_changed c) then c
      else case v (fst f) of
          Some val \<Rightarrow> setFlag f val c
        | None \<Rightarrow>
            (if fst f = ''sqldata-api-endpoint'' then
               (case v ''sql-data-endpoint'' of Some val \<Rightarrow> setFlag f val c | None \<Rightarrow> c)
             else c))"

text \<open>Every flag sets a field of its own, so the order of the visits does not matter.\<close>

definition visitAll :: "pflag \<Rightarrow> (string \<Rightarrow> string option) \<Rightarrow> Command \<Rightarrow> Command" where
  "visitAll pf v c = fold (visitFlag v) (flags pf) c"

section \<open>Instances from the environment or the configuration file\<close>

definition envPrefix :: string where
  "envPrefix = ''CSQL_PROXY''"

text \<open>The loop over \<open>..._1\<close>, \<open>..._2\<close> and so on, until a name is not set.\<close>

partial_function (option) moreInstances :: "(string \<Rightarrow> string) \<Rightarrow> string \<Rightarrow> nat \<Rightarrow> string list option" where
  "moreInstances get pre i =
     (let instN = get (pre @ show_nat i) in
      if instN = [] then Some []
      else Option.bind (moreInstances get pre (Suc i)) (\<lambda>rest. Some (instN # rest)))"

definition numberedInstances :: "(string \<Rightarrow> string) \<Rightarrow> string \<Rightarrow> string \<Rightarrow> string list option" where
  "numberedInstances get key pre =
     (let inst = get key; inst0 = (if inst = [] then get (pre @ ''0'') else inst) in
      if inst0 = [] then Some []
      else Option.bind (moreInstances get pre 1) (\<lambda>rest. Some (inst0 # rest)))"

definition instanceFromEnv :: "(string \<Rightarrow> string) \<Rightarrow> string list option" where
  "instanceFromEnv getenv =
     numberedInstances getenv (envPrefix @ ''_INSTANCE_CONNECTION_NAME'') (envPrefix @ ''_INSTANCE_CONNECTION_NAME_'')"

definition instanceFromConfigFile :: "(string \<Rightarrow> string) \<Rightarrow> string list option" where
  "instanceFromConfigFile getString =
     numberedInstances getString ''instance-connection-name'' ''instance-connection-name-''"

section \<open>Parsing the configuration\<close>

definition flag_set :: "Command \<Rightarrow> string \<Rightarrow> bool" where
  "flag_set c f \<longleftrightarrow> f \<in> set (cm_changed c)"

definition ipTypes :: "Config \<Rightarrow> nat" where
  "ipTypes conf = (if cf_PrivateIP conf then 1 else 0) + (if cf_PSC conf then 1 else 0) + (if cf_SQLDataEnabled conf then 1 else 0)"

definition flagRules :: "go_error option \<Rightarrow> Command \<Rightarrow> string list \<Rightarrow> (bool \<times> string) list" where
  "flagRules supportsFUSE c args =
     (let conf = cm_conf c; userHasSetLocal = flag_set c; fuse = (cf_FUSEDir conf \<noteq> []);
          token = (cf_Token conf \<noteq> []); file = (cf_CredentialsFile conf \<noteq> []);
          json = (cf_CredentialsJSON conf \<noteq> []); gcloud = cf_GcloudAuth conf;
          nl = [CHR 0x0A]
      in
     [(args = [] \<and> \<not> fuse, ''missing instance_connection_name (e.g., project:region:instance)''),
      (fuse \<and> cf_RunConnectionTest conf, ''cannot run connection tests in FUSE mode''),
      (fuse \<and> supportsFUSE \<noteq> None,
         ''--fuse is not supported: '' @ (case supportsFUSE of Some e \<Rightarrow> Error e | None \<Rightarrow> [])),
      (args = [] \<and> \<not> fuse \<and> cf_FUSETempDir conf \<noteq> [], ''cannot specify --fuse-tmp-dir without --fuse''),
      (userHasSetLocal ''address'' \<and> userHasSetLocal ''unix-socket'', ''cannot specify --unix-socket and --address together''),
      (userHasSetLocal ''port'' \<and> userHasSetLocal ''unix-socket'', ''cannot specify --unix-socket and --port together''),
      (parseIP (cf_Addr conf) = None, ''not a valid IP address: '' @ quote (cf_Addr conf)),
      (userHasSetLocal ''private-ip'' \<and> userHasSetLocal ''auto-ip'', ''cannot specify --private-ip and --auto-ip together''),
      (1 < ipTypes conf, ''cannot specify --private-ip, --psc, and --sql-data flags at the same time''),
      (token \<and> file, ''cannot specify --token and --credentials-file flags at the same time''),
      (token \<and> gcloud, ''cannot specify --token and --gcloud-auth flags at the same time''),
      (file \<and> gcloud, ''cannot specify --credentials-file and --gcloud-auth flags at the same time''),
      (json \<and> token, ''cannot specify --json-credentials and --token flags at the same time''),
      (json \<and> file, ''cannot specify --json-credentials and --credentials-file flags at the same time''),
      (json \<and> gcloud, ''cannot specify --json-credentials and --gcloud-auth flags at the same time''),
      (cf_IAMAuthN conf \<and> token \<and> cf_LoginToken conf = [], ''cannot specify --auto-iam-authn and --token without --login-token''),
      (cf_IAMAuthN conf \<and> gcloud,
         ''cannot use --auto-iam-authn with --gcloud-auth.'' @ nl
         @ ''Instead use Application Default Credentials (enabled with: gcloud auth application-default login)'' @ nl
         @ ''and re-try with just --auto-iam-authn''),
      (cf_LoginToken conf \<noteq> [] \<and> (\<not> token \<or> \<not> cf_IAMAuthN conf),
         ''cannot specify --login-token without --token and --auto-iam-authn'')])"

definition endpointRules :: "(string \<Rightarrow> bool) \<Rightarrow> Command \<Rightarrow> (bool \<times> string) list" where
  "endpointRules urlInvalid c =
     (let conf = cm_conf c; userHasSetLocal = flag_set c in
     [(userHasSetLocal ''sqladmin-api-endpoint'' \<and> userHasSetLocal ''universe-domain'',
         ''cannot specify --sqladmin-api-endpoint and --universe-domain at the same time''),
      (userHasSetLocal ''sqladmin-api-endpoint'' \<and> cf_APIEndpointURL conf \<noteq> [] \<and> urlInvalid (cf_APIEndpointURL conf),
         ''the value provided for --sqladmin-api-endpoint is not a valid URL, '' @ cf_APIEndpointURL conf)])"

definition addUserAgent :: "Command \<Rightarrow> Command" where
  "addUserAgent c =
     (if flag_set c ''user-agent'' then
        let ua = cm_userAgent c @ '' '' @ cf_OtherUserAgents (cm_conf c)
        in c\<lparr>cm_userAgent := ua, cm_conf := (cm_conf c)\<lparr>cf_UserAgent := ua\<rparr>\<rparr>
      else c)"

definition slashEndpoint :: "Command \<Rightarrow> Command" where
  "slashEndpoint c =
     (let u = cf_APIEndpointURL (cm_conf c) in
      if flag_set c ''sqladmin-api-endpoint'' \<and> u \<noteq> [] \<and> \<not> hasSuffix u ''/''
      then c\<lparr>cm_conf := (cm_conf c)\<lparr>cf_APIEndpointURL := u @ ''/''\<rparr>\<rparr> else c)"

text \<open>The messages about flags that have no effect; they go to the logger between the two groups of checks.\<close>

definition ignoredFlags :: "Command \<Rightarrow> string list" where
  "ignoredFlags c = (let userSet = flag_set c in
     (if userSet ''http-port'' \<and> \<not> userSet ''prometheus'' \<and> \<not> userSet ''health-check''
      then [''Ignoring --http-port because --prometheus or --health-check was not set''] else [])
     @ (if \<not> userSet ''telemetry-project'' \<and> userSet ''telemetry-prefix''
        then [''Ignoring --telementry-prefix because --telemetry-project was not set''] else [])
     @ (if \<not> userSet ''telemetry-project'' \<and> userSet ''disable-metrics''
        then [''Ignoring --disable-metrics because --telemetry-project was not set''] else [])
     @ (if \<not> userSet ''telemetry-project'' \<and> userSet ''disable-traces''
        then [''Ignoring --disable-traces because --telemetry-project was not set''] else []))"

definition parseConfig_log :: "go_error option \<Rightarrow> Command \<Rightarrow> string list \<Rightarrow> log_line list" where
  "parseConfig_log supportsFUSE c args =
     (if is_Ok (first_error (flagRules supportsFUSE c args)) then concat (map (Infof (cm_logger c)) (ignoredFlags c)) else [])"

text \<open>What parsing returns; the messages above are separate.\<close>

definition parseConfig :: "go_error option \<Rightarrow> (string \<Rightarrow> bool) \<Rightarrow> Command \<Rightarrow> string list \<Rightarrow> Command outcome" where
  "parseConfig supportsFUSE urlInvalid c args =
     bind_outcome (first_error (flagRules supportsFUSE c args)) (\<lambda>_.
       let c1 = addUserAgent c in
       bind_outcome (first_error (endpointRules urlInvalid c1)) (\<lambda>_.
         let c2 = slashEndpoint c1 in
         bind_outcome (parseInstances (cm_conf c2) args) (\<lambda>ics.
           Ok (c2\<lparr>cm_conf := (cm_conf c2)\<lparr>cf_Instances := ics\<rparr>\<rparr>))))"

section \<open>Loading the configuration\<close>

text \<open>What reading the configuration file gives: viper ignores a file that does not exist.\<close>

datatype read_config = ReadOk | ConfigFileNotFound | ReadFailed go_error

definition initViper :: "(string \<Rightarrow> read_config) \<Rightarrow> Command \<Rightarrow> unit outcome" where
  "initViper readInConfig c =
     (let path = cf_Filepath (cm_conf c); e = ext path;
          badExtErr = newBadCommandError (''config file '' @ path @ '' should have extension of toml, yaml, or json'')
      in if path \<noteq> [] then
           (if e = [] then Err badExtErr
            else if e \<noteq> ''.toml'' \<and> e \<noteq> ''.yaml'' \<and> e \<noteq> ''.yml'' \<and> e \<noteq> ''.json'' then Err badExtErr
            else case readInConfig path of
                ReadFailed err \<Rightarrow>
                  Err (newBadCommandError (''failed to load configuration from '' @ path @ '': '' @ Error err))
              | _ \<Rightarrow> Ok ())
         else Ok ())"

definition selectLogger :: "Command \<Rightarrow> Command" where
  "selectLogger c =
     (let c1 = (if cf_StructuredLogs (cm_conf c) then c\<lparr>cm_logger := NewStructuredLogger (cf_Quiet (cm_conf c))\<rparr> else c)
      in if cf_Quiet (cm_conf c1) then c1\<lparr>cm_logger := NewStdLogger Discard Stderr\<rparr> else c1)"

definition getString :: "(string \<Rightarrow> string option) \<Rightarrow> string \<Rightarrow> string" where
  "getString v k = (case v k of None \<Rightarrow> [] | Some s \<Rightarrow> s)"

text \<open>The arguments, else the environment, else the configuration file.\<close>

definition chooseArgs :: "(string \<Rightarrow> string) \<Rightarrow> (string \<Rightarrow> string option) \<Rightarrow> string list \<Rightarrow> string list option" where
  "chooseArgs getenv v args =
     Option.bind (if args = [] then instanceFromEnv getenv else Some args) (\<lambda>args1.
       if args1 = [] then instanceFromConfigFile (getString v) else Some args1)"

text \<open>\<open>None\<close> is a call that does not return.\<close>

definition loadConfig ::
  "pflag \<Rightarrow> (string \<Rightarrow> read_config) \<Rightarrow> (string \<Rightarrow> string option) \<Rightarrow> (string \<Rightarrow> string) \<Rightarrow> go_error option \<Rightarrow> (string \<Rightarrow> bool) \<Rightarrow>
     Command \<Rightarrow> string list \<Rightarrow> (Command \<Rightarrow> Command) list \<Rightarrow> Command outcome option" where
  "loadConfig pf readInConfig v getenv supportsFUSE urlInvalid c args opts =
     (case initViper readInConfig c of
        Err e \<Rightarrow> Some (Err e)
      | Panic \<Rightarrow> Some Panic
      | Ok _ \<Rightarrow>
          Option.bind (chooseArgs getenv v args) (\<lambda>args'.
            Some (parseConfig supportsFUSE urlInvalid (selectLogger (fold (\<lambda>opt. opt) opts (visitAll pf v c))) args')))"

section \<open>Version and exit code\<close>

definition is_space :: "char \<Rightarrow> bool" where
  "is_space ch \<longleftrightarrow> ch \<in> set [CHR 0x09, CHR 0x0A, CHR 0x0B, CHR 0x0C, CHR 0x0D, CHR '' '']"

definition trimSpace :: "string \<Rightarrow> string" where
  "trimSpace s = rev (dropWhile is_space (rev (dropWhile is_space s)))"

definition semanticVersion :: "string \<Rightarrow> string \<Rightarrow> string" where
  "semanticVersion versionString metadataString =
     (let v = trimSpace versionString in if metadataString \<noteq> [] then v @ ''+'' @ metadataString else v)"

text \<open>The exit code of the process for what the command returned.\<close>

definition Execute :: "go_error option \<Rightarrow> int" where
  "Execute err =
     (case err of None \<Rightarrow> 0 | Some (ExitError code _) \<Rightarrow> code | Some _ \<Rightarrow> 1)"

section \<open>Facts\<close>

lemma flagRules_Ok:
  assumes "first_error (flagRules sf c args) = Ok ()"
  shows "args \<noteq> [] \<or> cf_FUSEDir (cm_conf c) \<noteq> []" "parseIP (cf_Addr (cm_conf c)) \<noteq> None" "ipTypes (cm_conf c) \<le> 1"
    "cf_FUSEDir (cm_conf c) \<noteq> [] \<Longrightarrow> sf = None \<and> \<not> cf_RunConnectionTest (cm_conf c)"
    "\<not> (cf_Token (cm_conf c) \<noteq> [] \<and> (cf_CredentialsFile (cm_conf c) \<noteq> [] \<or> cf_CredentialsJSON (cm_conf c) \<noteq> [] \<or> cf_GcloudAuth (cm_conf c)))"
    "\<not> (cf_CredentialsFile (cm_conf c) \<noteq> [] \<and> (cf_CredentialsJSON (cm_conf c) \<noteq> [] \<or> cf_GcloudAuth (cm_conf c)))"
    "\<not> (cf_CredentialsJSON (cm_conf c) \<noteq> [] \<and> cf_GcloudAuth (cm_conf c))"
    "cf_IAMAuthN (cm_conf c) \<Longrightarrow> \<not> cf_GcloudAuth (cm_conf c) \<and> (cf_Token (cm_conf c) \<noteq> [] \<longleftrightarrow> cf_LoginToken (cm_conf c) \<noteq> [])"
    "\<not> cf_IAMAuthN (cm_conf c) \<Longrightarrow> cf_LoginToken (cm_conf c) = []"
  using assms by (auto simp: flagRules_def Let_def not_less)

lemma parseInstances_length: "parseInstances conf args = Ok ics \<Longrightarrow> length ics = length args"
  by (induction args arbitrary: ics) (auto simp: bind_Ok)

lemma parseInstances_valid: "parseInstances conf args = Ok ics \<Longrightarrow> ic \<in> set ics \<Longrightarrow> \<exists>a \<in> set args. parseInstance conf a = Ok ic"
  by (induction args arbitrary: ics) (auto simp: bind_Ok)

lemma addUserAgent_frame [frame, simp]:
  "cm_changed (addUserAgent c) = cm_changed c" "flag_set (addUserAgent c) = flag_set c"
  "cf_APIEndpointURL (cm_conf (addUserAgent c)) = cf_APIEndpointURL (cm_conf c)"
  by (simp_all add: addUserAgent_def flag_set_def fun_eq_iff Let_def)

text \<open>The fields neither the user agent nor the endpoint touches.\<close>

definition same_settings :: "Config \<Rightarrow> Config \<Rightarrow> bool" where
  "same_settings a b \<longleftrightarrow>
     a\<lparr>cf_UserAgent := [], cf_APIEndpointURL := [], cf_Instances := []\<rparr> =
     b\<lparr>cf_UserAgent := [], cf_APIEndpointURL := [], cf_Instances := []\<rparr>"

lemma same_settings_fields:
  assumes "same_settings a b"
  shows "cf_Addr a = cf_Addr b" "cf_PrivateIP a = cf_PrivateIP b" "cf_PSC a = cf_PSC b"
    "cf_SQLDataEnabled a = cf_SQLDataEnabled b" "cf_Token a = cf_Token b" "cf_LoginToken a = cf_LoginToken b"
    "cf_CredentialsFile a = cf_CredentialsFile b" "cf_CredentialsJSON a = cf_CredentialsJSON b"
    "cf_GcloudAuth a = cf_GcloudAuth b" "cf_IAMAuthN a = cf_IAMAuthN b" "cf_FUSEDir a = cf_FUSEDir b"
    "cf_RunConnectionTest a = cf_RunConnectionTest b" "cf_AutoIP a = cf_AutoIP b"
  using assms by (cases a; cases b; simp add: same_settings_def)+

lemma parseConfig_steps:
  assumes "parseConfig sf u c args = Ok c'"
  shows "first_error (flagRules sf c args) = Ok ()"
    "\<exists>ics. parseInstances (cm_conf (slashEndpoint (addUserAgent c))) args = Ok ics \<and>
       cm_conf c' = (cm_conf (slashEndpoint (addUserAgent c)))\<lparr>cf_Instances := ics\<rparr>"
  using assms by (auto simp: parseConfig_def bind_Ok Let_def)

lemma same_settings_parsed:
  "same_settings ((cm_conf (slashEndpoint (addUserAgent c)))\<lparr>cf_Instances := ics\<rparr>) (cm_conf c)"
  by (cases "cm_conf c") (simp add: same_settings_def slashEndpoint_def addUserAgent_def Let_def)

lemma valid_inst_conf: "cf_AutoIP a = cf_AutoIP b \<Longrightarrow> valid_inst a ic = valid_inst b ic"
  by (simp add: valid_inst_def)

text \<open>A flag other than the one of interest changes neither its setting nor its value.\<close>

lemma visitFlag_other:
  assumes "fst f \<noteq> n" and "\<And>val conf. g (fst (snd f val conf)) = g conf"
  shows "g (cm_conf (visitFlag v f c)) = g (cm_conf c) \<and>
    (n \<in> set (cm_changed (visitFlag v f c)) \<longleftrightarrow> n \<in> set (cm_changed c))"
proof -
  have "g (cm_conf (setFlag f val c)) = g (cm_conf c) \<and> (n \<in> set (cm_changed (setFlag f val c)) \<longleftrightarrow> n \<in> set (cm_changed c))" for val
    using assms by (auto simp: setFlag_def case_prod_unfold)
  then show ?thesis by (auto simp: visitFlag_def split: option.split)
qed

lemma visitFlags_other:
  assumes "list_all (\<lambda>f. fst f \<noteq> n \<and> (\<forall>val conf. g (fst (snd f val conf)) = g conf)) fs"
  shows "g (cm_conf (fold (visitFlag v) fs c)) = g (cm_conf c) \<and>
    (n \<in> set (cm_changed (fold (visitFlag v) fs c)) \<longleftrightarrow> n \<in> set (cm_changed c))"
  using assms
proof (induction fs arbitrary: c)
  case (Cons f fs)
  then show ?case using visitFlag_other [of f n g v c] by simp
qed simp

lemma visitFlag_changed: "set (cm_changed c) \<subseteq> set (cm_changed (visitFlag v f c))"
  by (auto simp: visitFlag_def setFlag_def case_prod_unfold split: option.split)

lemma visitFlag_cong:
  "(\<And>n. n \<notin> set (cm_changed c) \<Longrightarrow> v n = v' n) \<Longrightarrow> ''sql-data-endpoint'' \<notin> set (cm_changed c) \<Longrightarrow>
   visitFlag v f c = visitFlag v' f c"
  by (simp add: visitFlag_def split: option.split)

lemma visitFlag_alias:
  "fst f \<noteq> ''sql-data-endpoint'' \<Longrightarrow> ''sql-data-endpoint'' \<notin> set (cm_changed c) \<Longrightarrow>
   ''sql-data-endpoint'' \<notin> set (cm_changed (visitFlag v f c))"
  by (auto simp: visitFlag_def setFlag_def case_prod_unfold split: option.split)

lemma visitFlags_cong:
  assumes "\<And>n. n \<notin> set (cm_changed c) \<Longrightarrow> v n = v' n" and "''sql-data-endpoint'' \<notin> set (cm_changed c)"
    and "list_all (\<lambda>f. fst f \<noteq> ''sql-data-endpoint'') fs"
  shows "fold (visitFlag v) fs c = fold (visitFlag v') fs c"
  using assms
proof (induction fs arbitrary: c)
  case (Cons f fs)
  have "visitFlag v f c = visitFlag v' f c" using Cons.prems(1,2) by (rule visitFlag_cong)
  moreover have "fold (visitFlag v) fs (visitFlag v f c) = fold (visitFlag v') fs (visitFlag v f c)"
    using Cons.prems visitFlag_changed [of c v f] visitFlag_alias [of f c v] by (intro Cons.IH) auto
  ultimately show ?case by simp
qed simp

lemma moreInstances_run:
  assumes "\<And>j. j < n \<Longrightarrow> get (pre @ show_nat (i + j)) \<noteq> []" and "get (pre @ show_nat (i + n)) = []"
  shows "moreInstances get pre i = Some (map (\<lambda>j. get (pre @ show_nat j)) [i..<i + n])"
  using assms
proof (induction n arbitrary: i)
  case 0
  then show ?case by (subst moreInstances.simps) simp
next
  case (Suc n)
  have "moreInstances get pre (Suc i) = Some (map (\<lambda>j. get (pre @ show_nat j)) [Suc i..<Suc i + n])"
    using Suc.prems(1) [of "Suc j" for j] Suc.prems(2) by (intro Suc.IH) auto
  moreover have "[i..<i + Suc n] = i # [Suc i..<Suc i + n]" by (simp add: upt_conv_Cons)
  ultimately show ?case
    using Suc.prems(1) [of 0] by (subst moreInstances.simps) (simp add: Let_def)
qed

lemma show_nat_inj: "show_nat a = show_nat b \<Longrightarrow> a = b"
  by (metis of_nat_eq_iff option.inject read_digits_show_nat)

lemma unset_instance:
  assumes "finite {k. get k \<noteq> []}"
  shows "\<exists>n. get (pre @ show_nat (i + n)) = [] \<and> (\<forall>j < n. get (pre @ show_nat (i + j)) \<noteq> [])"
proof -
  have "inj (\<lambda>n. pre @ show_nat (i + n))" by (auto intro!: injI dest: show_nat_inj)
  then have "infinite (range (\<lambda>n. pre @ show_nat (i + n)))" by (simp add: finite_image_iff)
  then have "\<not> range (\<lambda>n. pre @ show_nat (i + n)) \<subseteq> {k. get k \<noteq> []}" using assms finite_subset by blast
  then have "\<exists>n. get (pre @ show_nat (i + n)) = []" by auto
  then show ?thesis using exists_least_iff [of "\<lambda>n. get (pre @ show_nat (i + n)) = []"] by blast
qed

lemma bad_cmd_parseConfig: "bad_cmd (parseConfig sf u c args)"
  unfolding parseConfig_def Let_def by (intro bad_cmd_rules)

text \<open>Whatever is rejected is rejected as a bad command.\<close>

lemma initViper_error: "initViper rd c = Err e \<Longrightarrow> \<exists>m. e = newBadCommandError m"
  by (auto simp: initViper_def Let_def split: if_splits read_config.splits)

lemma parseConfig_error: "parseConfig sf u c args = Err e \<Longrightarrow> \<exists>m. e = newBadCommandError m"
  using bad_cmd_parseConfig [of sf u c args] by (auto simp: bad_cmd_def)

lemma loadConfig_error: "loadConfig pf rd v env sf u c args opts = Some (Err e) \<Longrightarrow> \<exists>m. e = newBadCommandError m"
  by (auto simp: loadConfig_def bind_eq_Some_conv split: outcome.splits dest: initViper_error parseConfig_error)

lemma visitAll_unset: "visitAll pf (\<lambda>_. None) c = c"
proof -
  have "fold (visitFlag (\<lambda>_. None)) fs c = c" for fs by (induction fs) (simp_all add: visitFlag_def)
  then show ?thesis by (simp add: visitAll_def)
qed

text \<open>The max-connections flag in the table, and the flags around it.\<close>

abbreviation maxConnFlag :: "pflag \<Rightarrow> flag" where
  "maxConnFlag pf \<equiv> parsedVar (pf_uint64 pf) cf_MaxConnections_update ''max-connections''"

lemma flags_split:
  "flags pf = take 11 (flags pf) @ maxConnFlag pf # drop 12 (flags pf)"
  by (simp add: flags_def Let_def)

lemma flags_others:
  "list_all (\<lambda>f. fst f \<noteq> ''max-connections'' \<and> (\<forall>val conf. cf_MaxConnections (fst (snd f val conf)) = cf_MaxConnections conf))
     (take 11 (flags pf) @ drop 12 (flags pf))"
  by (auto simp: flags_def Let_def stringVar_def parsedVar_def)

lemma flags_no_alias: "list_all (\<lambda>f. fst f \<noteq> ''sql-data-endpoint'') (flags pf)"
  by (simp add: flags_def Let_def stringVar_def parsedVar_def)

text \<open>Every argument has become one consistent instance, and at most one global IP type is set.\<close>

lemma parsed_valid:
  assumes "parseConfig sf u c args = Ok c'"
  shows "length (cf_Instances (cm_conf c')) = length args" "list_all (valid_inst (cm_conf c')) (cf_Instances (cm_conf c'))"
    "ipTypes (cm_conf c') \<le> 1"
proof -
  obtain ics where ics: "parseInstances (cm_conf (slashEndpoint (addUserAgent c))) args = Ok ics"
    and c': "cm_conf c' = (cm_conf (slashEndpoint (addUserAgent c)))\<lparr>cf_Instances := ics\<rparr>"
    using parseConfig_steps(2) [OF assms] by blast
  have "same_settings (cm_conf c') (cm_conf c)" unfolding c' by (rule same_settings_parsed)
  note f = same_settings_fields [OF this]
  have "valid_inst (cm_conf c') ic" if ic: "ic \<in> set ics" for ic
  proof -
    obtain a where "parseInstance (cm_conf (slashEndpoint (addUserAgent c))) a = Ok ic"
      using parseInstances_valid [OF ics ic] by blast
    from parseInstance_valid [OF this] show ?thesis
      by (subst valid_inst_conf [of _ "cm_conf (slashEndpoint (addUserAgent c))"]) (simp_all add: c')
  qed
  then show "length (cf_Instances (cm_conf c')) = length args" "list_all (valid_inst (cm_conf c')) (cf_Instances (cm_conf c'))"
    using parseInstances_length [OF ics] by (simp_all add: c' list_all_iff)
  show "ipTypes (cm_conf c') \<le> 1"
    using flagRules_Ok(3) [OF parseConfig_steps(1) [OF assms]] by (simp add: ipTypes_def f)
qed

section \<open>Properties\<close>

text \<open>
  C22. What \<open>parseConfig\<close> accepts is consistent: there is an instance or a FUSE directory; the
  bind address is an IP address; at most one of private IP, PSC and SQL Data and at most one
  credential source is set; with IAM authentication there is no gcloud source and a token
  exactly when there is a login token; connection tests and unsupported platforms exclude
  FUSE; and every argument has become one consistent instance, in order.
\<close>

theorem parseConfig_sound:
  assumes "parseConfig sf urlInvalid c args = Ok c'"
  shows "(args \<noteq> [] \<or> cf_FUSEDir (cm_conf c') \<noteq> [])
    \<and> parseIP (cf_Addr (cm_conf c')) \<noteq> None
    \<and> ipTypes (cm_conf c') \<le> 1
    \<and> length (filter id [cf_Token (cm_conf c') \<noteq> [], cf_CredentialsFile (cm_conf c') \<noteq> [],
          cf_CredentialsJSON (cm_conf c') \<noteq> [], cf_GcloudAuth (cm_conf c')]) \<le> 1
    \<and> (if cf_IAMAuthN (cm_conf c') then \<not> cf_GcloudAuth (cm_conf c') \<and> (cf_Token (cm_conf c') \<noteq> [] \<longleftrightarrow> cf_LoginToken (cm_conf c') \<noteq> [])
        else cf_LoginToken (cm_conf c') = [])
    \<and> (cf_FUSEDir (cm_conf c') \<noteq> [] \<longrightarrow> sf = None \<and> \<not> cf_RunConnectionTest (cm_conf c'))
    \<and> length (cf_Instances (cm_conf c')) = length args \<and> list_all (valid_inst (cm_conf c')) (cf_Instances (cm_conf c'))"
proof -
  note rules = flagRules_Ok [OF parseConfig_steps(1) [OF assms]]
  obtain ics where ics: "parseInstances (cm_conf (slashEndpoint (addUserAgent c))) args = Ok ics"
    and c': "cm_conf c' = (cm_conf (slashEndpoint (addUserAgent c)))\<lparr>cf_Instances := ics\<rparr>"
    using parseConfig_steps(2) [OF assms] by blast
  have same: "same_settings (cm_conf c') (cm_conf c)" unfolding c' by (rule same_settings_parsed)
  note f = same_settings_fields [OF same]
  have "ipTypes (cm_conf c') \<le> 1" using rules(3) by (simp add: ipTypes_def f)
  moreover have "length (filter id [cf_Token (cm_conf c') \<noteq> [], cf_CredentialsFile (cm_conf c') \<noteq> [],
      cf_CredentialsJSON (cm_conf c') \<noteq> [], cf_GcloudAuth (cm_conf c')]) \<le> 1"
    using rules(5-7) by (auto simp: f)
  ultimately show ?thesis using parsed_valid(1,2) [OF assms] rules(1,2,4,8,9) by (simp add: f)
qed

definition read_or_zero :: "('a \<Rightarrow> 'b::zero) \<Rightarrow> 'a option \<Rightarrow> 'b \<times> bool" where
  "read_or_zero g r = (case r of None \<Rightarrow> (0, False) | Some n \<Rightarrow> (g n, True))"

definition sample_pflag :: pflag where
  "sample_pflag = \<lparr>pf_bool = (\<lambda>s. (s = ''true'', s \<in> {''true'', ''false''})), pf_int = (\<lambda>s. read_or_zero id (atoi s)),
     pf_uint64 = (\<lambda>s. read_or_zero of_int (atoi s)), pf_duration = (\<lambda>s. read_or_zero id (atoi s))\<rparr>"

definition sample_cmd :: Command where
  "sample_cmd = NewCommand ''/tmp'' ''cloud-sql-proxy/2''"

lemma sample_parsed:
  "\<exists>c'. parseConfig sf (\<lambda>_. False) sample_cmd [''p:r:i''] = Ok c'"
proof -
  have ip: "parseIP ''127.0.0.1'' \<noteq> None" by code_simp
  have "first_error (flagRules sf sample_cmd [''p:r:i'']) = Ok ()"
    using ip by (simp add: flagRules_def sample_cmd_def NewCommand_def default_conf_def zero_Config_def flag_set_def ipTypes_def Let_def)
  moreover have "first_error (endpointRules (\<lambda>_. False) (addUserAgent sample_cmd)) = Ok ()"
    by (simp add: endpointRules_def flag_set_def sample_cmd_def NewCommand_def Let_def)
  moreover have "parseInstance conf ''p:r:i'' = Ok (zero_inst\<lparr>ic_Name := ''p:r:i''\<rparr>)" for conf
    by (simp add: parseInstance_def)
  ultimately show ?thesis by (simp add: parseConfig_def Let_def bind_Ok)
qed

theorem parseConfig_sound_witness:
  "\<exists>c'. parseConfig None (\<lambda>_. False) sample_cmd [''p:r:i''] = Ok c' \<and> length (cf_Instances (cm_conf c')) = 1"
proof -
  obtain c' where c': "parseConfig None (\<lambda>_. False) sample_cmd [''p:r:i''] = Ok c'"
    using sample_parsed by blast
  from parseConfig_sound [OF c'] c' show ?thesis by auto
qed

text \<open>
  C34. How an instance of an accepted command line is reached: by at most one of private IP, PSC and
  auto IP. Its \<open>private-ip\<close> parameter decides about private IP, whatever the global flags say, and its
  \<open>psc\<close> parameter about PSC as long as \<open>--private-ip\<close> is not set. But instance parameters do not always
  win: under \<open>--private-ip\<close> no instance can be reached by PSC, and one with \<open>psc=true\<close> (or \<open>psc=false\<close>)
  is dialed by private IP, since a parameter \<open>private-ip=false\<close> beside it is rejected; and under
  \<open>--sql-data\<close> no parameter turns SQL Data off.
\<close>

theorem instance_ip_type:
  assumes "parseConfig sf urlInvalid c args = Ok c'" and "ic \<in> set (cf_Instances (cm_conf c'))"
  shows "length (filter is_ip_option (dialOptions (cm_conf c') ic)) \<le> 1
    \<and> (\<forall>b. ic_PrivateIP ic = Some b \<longrightarrow> (WithPrivateIP \<in> set (dialOptions (cm_conf c') ic) \<longleftrightarrow> b))
    \<and> (\<forall>b. ic_PSC ic = Some b \<and> \<not> cf_PrivateIP (cm_conf c') \<longrightarrow> (WithPSC \<in> set (dialOptions (cm_conf c') ic) \<longleftrightarrow> b))
    \<and> (cf_PrivateIP (cm_conf c') \<longrightarrow> WithPSC \<notin> set (dialOptions (cm_conf c') ic)
        \<and> (ic_PSC ic \<noteq> None \<longrightarrow> filter is_ip_option (dialOptions (cm_conf c') ic) = [WithPrivateIP]))
    \<and> (cf_SQLDataEnabled (cm_conf c') \<longrightarrow> WithSQLData \<in> set (dialOptions (cm_conf c') ic))"
proof -
  have "valid_inst (cm_conf c') ic" "ipTypes (cm_conf c') \<le> 1" using parsed_valid [OF assms(1)] assms(2) by (simp_all add: list_all_iff)
  then have "ic_PrivateIP ic = None \<or> ic_PSC ic = None" "\<not> (cf_PrivateIP (cm_conf c') \<and> cf_PSC (cm_conf c'))"
    by (auto simp: valid_inst_def ipTypes_def split: if_splits)
  then show ?thesis
    by (auto simp: dialOptions_def is_ip_option_def sqlDataOn_def split: option.split)
qed

lemma private_ip_parsed:
  assumes "valid_inst (cm_conf c) ic" and "c = sample_cmd\<lparr>cm_conf := (cm_conf sample_cmd)\<lparr>cf_PrivateIP := True\<rparr>\<rparr>"
  shows "parseConfig sf (\<lambda>_. False) c [printInstance ic] = Ok (c\<lparr>cm_conf := (cm_conf c)\<lparr>cf_Instances := [ic]\<rparr>\<rparr>)"
proof -
  have ip: "parseIP ''127.0.0.1'' \<noteq> None" by code_simp
  have rules: "first_error (flagRules sf c [printInstance ic]) = Ok ()" "first_error (endpointRules (\<lambda>_. False) c) = Ok ()"
    using ip by (simp_all add: flagRules_def endpointRules_def assms(2) sample_cmd_def NewCommand_def default_conf_def zero_Config_def
        flag_set_def ipTypes_def Let_def)
  have "addUserAgent c = c" "slashEndpoint c = c"
    by (simp_all add: addUserAgent_def slashEndpoint_def flag_set_def assms(2) sample_cmd_def NewCommand_def Let_def)
  then show ?thesis using rules parse_print_instance [OF assms(1)] by (simp add: parseConfig_def Let_def bind_Ok)
qed

theorem instance_ip_type_witness:
  "\<exists>c' ic. parseConfig None (\<lambda>_. False) (sample_cmd\<lparr>cm_conf := (cm_conf sample_cmd)\<lparr>cf_PrivateIP := True\<rparr>\<rparr>) [''p:r:i?psc=true''] = Ok c'
     \<and> ic_PSC ic = Some True \<and> cf_Instances (cm_conf c') = [ic] \<and> WithPSC \<notin> set (dialOptions (cm_conf c') ic)
     \<and> filter is_ip_option (dialOptions (cm_conf c') ic) = [WithPrivateIP]"
proof -
  let ?c = "sample_cmd\<lparr>cm_conf := (cm_conf sample_cmd)\<lparr>cf_PrivateIP := True\<rparr>\<rparr>"
  let ?i = "zero_inst\<lparr>ic_Name := ''p:r:i'', ic_PSC := Some True\<rparr>"
  let ?d = "?c\<lparr>cm_conf := (cm_conf ?c)\<lparr>cf_Instances := [?i]\<rparr>\<rparr>"
  have "printInstance ?i = ''p:r:i?psc=true''" by code_simp
  moreover have "parseConfig None (\<lambda>_. False) ?c [printInstance ?i] = Ok ?d"
    by (rule private_ip_parsed) (simp_all add: valid_inst_def zero_inst_def in_int64_def)
  ultimately have p: "parseConfig None (\<lambda>_. False) ?c [''p:r:i?psc=true''] = Ok ?d" by (simp only:)
  from instance_ip_type [OF p, of ?i] p show ?thesis by (intro exI [of _ ?d] exI [of _ ?i]) simp
qed

text \<open>
  Whatever the flags, arguments and query parameters are, parsing the configuration never
  panics, and every rejection makes the process exit with code 1.
\<close>

theorem parseConfig_exit_code:
  "case parseConfig sf urlInvalid c args of
     Ok _ \<Rightarrow> True | Err e \<Rightarrow> Execute (Some e) = 1 | Panic \<Rightarrow> False"
  using bad_cmd_parseConfig [of sf urlInvalid c args]
  by (auto simp: bad_cmd_def Execute_def newBadCommandError_def)

text \<open>
  Flags take precedence over the environment and the configuration file: two environments
  that agree on all flags the user has not set give the same configuration.
\<close>

theorem flags_take_precedence:
  assumes "\<And>n. n \<notin> set (cm_changed c) \<Longrightarrow> v n = v' n" and "''sql-data-endpoint'' \<notin> set (cm_changed c)"
  shows "visitAll pf v c = visitAll pf v' c"
  unfolding visitAll_def using assms flags_no_alias by (rule visitFlags_cong)

theorem flags_take_precedence_witness:
  "visitAll sample_pflag (\<lambda>n. if n = ''token'' then Some ''env'' else None) (sample_cmd\<lparr>cm_changed := [''token'']\<rparr>) =
   visitAll sample_pflag (\<lambda>_. None) (sample_cmd\<lparr>cm_changed := [''token'']\<rparr>)"
  by (rule flags_take_precedence) auto

text \<open>
  The connection limit after reading the environment: the user's flag if set; else
  whatever the flag library stores for the environment's text, whether it accepted the text
  or not: an error is dropped, and the limit is then the value the library stored.
\<close>

theorem visitAll_max_connections:
  "cf_MaxConnections (cm_conf (visitAll pf v c)) =
     (if ''max-connections'' \<in> set (cm_changed c) then cf_MaxConnections (cm_conf c)
      else case v ''max-connections'' of
          None \<Rightarrow> cf_MaxConnections (cm_conf c)
        | Some val \<Rightarrow> fst (pf_uint64 pf val))"
proof -
  let ?c1 = "fold (visitFlag v) (take 11 (flags pf)) c"
  let ?c2 = "visitFlag v (maxConnFlag pf) ?c1"
  have "visitAll pf v c = fold (visitFlag v) (drop 12 (flags pf)) ?c2"
    unfolding visitAll_def by (subst flags_split) simp
  moreover have "cf_MaxConnections (cm_conf (fold (visitFlag v) (drop 12 (flags pf)) ?c2)) = cf_MaxConnections (cm_conf ?c2)"
    using visitFlags_other [where g = cf_MaxConnections and fs = "drop 12 (flags pf)" and n = "''max-connections''" and v = v and c = ?c2] flags_others [of pf] by simp
  moreover have "cf_MaxConnections (cm_conf ?c1) = cf_MaxConnections (cm_conf c)"
    "''max-connections'' \<in> set (cm_changed ?c1) \<longleftrightarrow> ''max-connections'' \<in> set (cm_changed c)"
    using visitFlags_other [where g = cf_MaxConnections and fs = "take 11 (flags pf)" and n = "''max-connections''" and v = v and c = c]
      flags_others [of pf] by simp_all
  ultimately show ?thesis
    by (simp add: visitFlag_def setFlag_def parsedVar_def case_prod_unfold split: option.split)
qed

text \<open>
  Reading instances from the environment always ends, because only finitely many variables
  are set: the result is empty, or the first instance followed by \<open>..._1\<close>, \<open>..._2\<close> and so on up to
  the first number that is not set.
\<close>

theorem instanceFromEnv_returns:
  assumes "finite {k. getenv k \<noteq> []}"
  shows "\<exists>n. instanceFromEnv getenv = Some [] \<or>
    (\<exists>first. first \<noteq> [] \<and> getenv (''CSQL_PROXY_INSTANCE_CONNECTION_NAME_'' @ show_nat (Suc n)) = []
      \<and> instanceFromEnv getenv =
          Some (first # map (\<lambda>i. getenv (''CSQL_PROXY_INSTANCE_CONNECTION_NAME_'' @ show_nat i)) [1..<Suc n]))"
proof -
  let ?pre = "''CSQL_PROXY_INSTANCE_CONNECTION_NAME_''"
  obtain n where n: "getenv (?pre @ show_nat (1 + n)) = []" "\<forall>j < n. getenv (?pre @ show_nat (1 + j)) \<noteq> []"
    using unset_instance [OF assms, of ?pre 1] by blast
  then have "moreInstances getenv ?pre 1 = Some (map (\<lambda>j. getenv (?pre @ show_nat j)) [1..<1 + n])"
    by (intro moreInstances_run) auto
  then show ?thesis
    using n(1) by (intro exI [of _ n]) (auto simp: instanceFromEnv_def numberedInstances_def envPrefix_def Let_def)
qed

theorem instanceFromEnv_returns_witness:
  "\<exists>r. instanceFromEnv (\<lambda>k. if k = ''CSQL_PROXY_INSTANCE_CONNECTION_NAME'' then ''p:r:i'' else []) = Some r"
proof -
  have "finite {k. (if k = ''CSQL_PROXY_INSTANCE_CONNECTION_NAME'' then ''p:r:i'' else []) \<noteq> []}" by simp
  from instanceFromEnv_returns [OF this] show ?thesis by blast
qed

lemma quiet_parseConfig:
  assumes "cf_Quiet (cm_conf c)"
  shows "parseConfig_log sf (selectLogger c) args = []"
  using assms by (simp add: parseConfig_log_def selectLogger_def Let_def quiet_loggers)

text \<open>
  In quiet mode only errors are logged, to standard error; but they are plain text also
  when structured logs are requested, because the quiet logger replaces the structured one.
\<close>

theorem quiet_logger:
  assumes "cf_Quiet (cm_conf c)"
  shows "Infof (cm_logger (selectLogger c)) msg = [] \<and> Debugf (cm_logger (selectLogger c)) msg = []
    \<and> Errorf (cm_logger (selectLogger c)) msg = [PlainLine Stderr msg]"
  using assms by (simp add: selectLogger_def Let_def quiet_loggers error_lines)

theorem quiet_logger_witness:
  "Errorf (cm_logger (selectLogger (WithQuietLogging (sample_cmd\<lparr>cm_conf := zero_Config\<lparr>cf_StructuredLogs := True\<rparr>\<rparr>)))) ''x''
     = [PlainLine Stderr ''x'']"
  using quiet_logger [of "WithQuietLogging (sample_cmd\<lparr>cm_conf := zero_Config\<lparr>cf_StructuredLogs := True\<rparr>\<rparr>)"]
  by (simp add: WithQuietLogging_def)

end
