(* ===== verification/Health_Check.thy ===== *)
theory Health_Check
  imports Client
begin

text \<open>
  The health check (internal/healthcheck/healthcheck.go): the state of \<open>Check\<close>, its two
  notifications and its three HTTP handlers. A channel is open or closed; closing it twice
  panics, which the \<open>sync.Once\<close> values prevent.
\<close>

section \<open>State and operations\<close>

record Check =
  ck_startedOnce :: bool
  ck_started :: bool
  ck_stoppedOnce :: bool
  ck_stopped :: bool

definition NewCheck :: Check where
  "NewCheck = \<lparr>ck_startedOnce = False, ck_started = False, ck_stoppedOnce = False, ck_stopped = False\<rparr>"

definition close_chan :: "bool \<Rightarrow> bool outcome" where
  "close_chan closed = (if closed then Panic else Ok True)"

definition NotifyStarted :: "Check \<Rightarrow> Check outcome" where
  "NotifyStarted c =
     (if ck_startedOnce c then Ok c
      else bind_outcome (close_chan (ck_started c)) (\<lambda>b. Ok (c\<lparr>ck_startedOnce := True, ck_started := b\<rparr>)))"

definition NotifyStopped :: "Check \<Rightarrow> Check outcome" where
  "NotifyStopped c =
     (if ck_stoppedOnce c then Ok c
      else bind_outcome (close_chan (ck_stopped c)) (\<lambda>b. Ok (c\<lparr>ck_stoppedOnce := True, ck_stopped := b\<rparr>)))"

text \<open>A response is a status code and a body.\<close>

definition HandleStartup :: "Check \<Rightarrow> nat \<times> string" where
  "HandleStartup c = (if ck_started c then (200, ''ok'') else (503, ''error''))"

definition errNotStarted :: string where
  "errNotStarted = ''proxy is not started''"

definition errStopped :: string where
  "errStopped = ''proxy has stopped''"

definition HandleReadiness :: "uint64 \<times> uint64 \<Rightarrow> Check \<Rightarrow> nat \<times> string" where
  "HandleReadiness counts c =
     (if \<not> ck_started c then (503, errNotStarted)
      else if ck_stopped c then (503, errStopped)
      else case counts of (n_open, maxCount) \<Rightarrow>
        if 0 < maxCount \<and> n_open = maxCount
        then (503, ''max connections reached (open = '' @ show_nat (unat n_open) @ '', max = '' @ show_nat (unat maxCount) @ '')'')
        else (200, ''ok''))"

definition HandleLiveness :: "nat \<times> string" where
  "HandleLiveness = (200, ''ok'')"

section \<open>The life of a check\<close>

text \<open>What happens to a check, in order: notifications may be repeated and come in any order.\<close>

datatype notification = Started | Stopped

fun notify :: "notification \<Rightarrow> Check \<Rightarrow> Check outcome" where
  "notify Started c = NotifyStarted c"
| "notify Stopped c = NotifyStopped c"

fun notify_all :: "notification list \<Rightarrow> Check \<Rightarrow> Check outcome" where
  "notify_all [] c = Ok c"
| "notify_all (n # ns) c = bind_outcome (notify n c) (notify_all ns)"

definition check_inv :: "Check \<Rightarrow> bool" where
  "check_inv c \<longleftrightarrow> ck_started c = ck_startedOnce c \<and> ck_stopped c = ck_stoppedOnce c"

lemma notify_ok:
  "check_inv c \<Longrightarrow>
   \<exists>c'. notify n c = Ok c' \<and> check_inv c'
     \<and> ck_started c' = (ck_started c \<or> n = Started) \<and> ck_stopped c' = (ck_stopped c \<or> n = Stopped)"
  by (cases n) (auto simp: check_inv_def NotifyStarted_def NotifyStopped_def close_chan_def)

lemma notify_all_ok:
  "check_inv c \<Longrightarrow>
   \<exists>c'. notify_all ns c = Ok c' \<and> check_inv c'
     \<and> ck_started c' = (ck_started c \<or> Started \<in> set ns) \<and> ck_stopped c' = (ck_stopped c \<or> Stopped \<in> set ns)"
proof (induction ns arbitrary: c)
  case (Cons n ns)
  from notify_ok [OF Cons.prems, of n] obtain c1 where c1: "notify n c = Ok c1" "check_inv c1"
    "ck_started c1 = (ck_started c \<or> n = Started)" "ck_stopped c1 = (ck_stopped c \<or> n = Stopped)" by blast
  from Cons.IH [OF c1(2)] c1 show ?case by auto
qed simp

section \<open>Properties\<close>

text \<open>
  However often and in whatever order the notifications come, none panics, and the
  answers depend only on which have been received: startup succeeds exactly after a started
  notification; readiness needs a started and no stopped notification, and then fails only
  when the number of open connections equals a set limit.
\<close>

theorem health_check_answers:
  "\<exists>c. notify_all ns NewCheck = Ok c
     \<and> (fst (HandleStartup c) = 200 \<longleftrightarrow> Started \<in> set ns)
     \<and> (fst (HandleReadiness (n_open, maxCount) c) = 200 \<longleftrightarrow>
          Started \<in> set ns \<and> Stopped \<notin> set ns \<and> \<not> (0 < maxCount \<and> n_open = maxCount))
     \<and> fst (HandleReadiness (n_open, maxCount) c) \<in> {200, 503}"
proof -
  have "check_inv NewCheck" by (simp add: check_inv_def NewCheck_def)
  from notify_all_ok [OF this, of ns] obtain c where
    "notify_all ns NewCheck = Ok c" "ck_started c = (Started \<in> set ns)" "ck_stopped c = (Stopped \<in> set ns)"
    by (auto simp: NewCheck_def)
  then show ?thesis
    by (intro exI [of _ c]) (auto simp: HandleStartup_def HandleReadiness_def word_gt_0)
qed

text \<open>A limit of one connection: the first is proxied, the second about to be refused.\<close>

definition full_server :: "phase \<Rightarrow> server" where
  "full_server p = \<lparr>sv_connCount = (if p = Accepted then 1 else 2), sv_conns = [(0, Proxying), (0, p)],
     sv_refused = 0, sv_closed = [], sv_dialed = [(''p:r:i'', [])], sv_loops = [None]\<rparr>"

lemma full_server_reached:
  "(serve_step 1 True [sample_mount])\<^sup>*\<^sup>* (init_server [sample_mount]) (full_server (Counted 2))"
proof -
  let ?st = "serve_step 1 True [sample_mount]"
  let ?p = "(sample_state Dialing)\<lparr>sv_conns := [(0, Proxying)]\<rparr>"
  have "?st (sample_state Dialing) ?p"
    using dial_ok [of 0 "sample_state Dialing" 0 1 True "[sample_mount]"]
    by (simp add: serve_step_def sample_state_def)
  moreover have "?st ?p (full_server Accepted)"
    using accept [of 0 ?p] by (simp add: serve_step_def sample_state_def full_server_def)
  moreover have "?st (full_server Accepted) (full_server (Counted 2))"
    using count [of 1 "full_server Accepted" 0 2 1 True "[sample_mount]"]
    by (simp add: serve_step_def full_server_def)
  ultimately show ?thesis
    using sample_run by (meson rtranclp.rtrancl_into_rtrancl)
qed

text \<open>
  Readiness compares the counter for equality with the limit, and the counter includes
  connections that are being refused. So the server reaches a state in which all allowed
  connections are in use, one more is being refused, and a started proxy still reports ready.
\<close>

theorem readiness_ok_when_full:
  "\<exists>sv check. (serve_step 1 True [sample_mount])\<^sup>*\<^sup>* (init_server [sample_mount]) sv
     \<and> backend_conns sv = 1 \<and> sv_connCount sv = 2
     \<and> notify_all [Started] NewCheck = Ok check
     \<and> HandleReadiness (ConnCount sv (sample_fuse\<lparr>cl_conf := zero_Config\<lparr>cf_MaxConnections := 1\<rparr>\<rparr>)) check = (200, ''ok'')"
proof (intro exI conjI)
  show "(serve_step 1 True [sample_mount])\<^sup>*\<^sup>* (init_server [sample_mount]) (full_server (Counted 2))"
    by (rule full_server_reached)
  show "notify_all [Started] NewCheck = Ok (NewCheck\<lparr>ck_startedOnce := True, ck_started := True\<rparr>)"
    by (simp add: NewCheck_def NotifyStarted_def close_chan_def)
qed (simp_all add: full_server_def backend_conns_def HandleReadiness_def ConnCount_def NewCheck_def)

end
