(* ===== verification/Cmd_Http.thy ===== *)
theory Cmd_Http
  imports Cmd_Config Health_Check
begin

text \<open>
  The HTTP side of the command (cmd/root.go): the handlers \<open>runSignalWrapper\<close> registers on its
  two servers, and the subcommands \<open>wait\<close> and \<open>shutdown\<close>, which are HTTP clients of another
  proxy process. The profiler, the Prometheus exporter and the transport are parameters.
\<close>

section \<open>Dispatching requests\<close>

text \<open>
  \<open>http.ServeMux\<close> for clean paths: a pattern matches its own path, and with a final slash every
  path below it; the longest matching pattern wins. A path that is a registered subtree
  without its final slash is redirected.
\<close>

datatype 'h mux_result = Handler 'h | RedirectSlash | NotFound

definition mux_matches :: "string \<Rightarrow> string \<Rightarrow> bool" where
  "mux_matches pattern path \<longleftrightarrow> pattern = path \<or> hasSuffix pattern ''/'' \<and> hasPrefix path pattern"

fun longest :: "(string \<times> 'h) \<Rightarrow> (string \<times> 'h) list \<Rightarrow> string \<times> 'h" where
  "longest best [] = best"
| "longest best (x # xs) = longest (if length (fst best) < length (fst x) then x else best) xs"

definition mux_lookup :: "(string \<times> 'h) list \<Rightarrow> string \<Rightarrow> 'h mux_result" where
  "mux_lookup table path =
     (case filter (\<lambda>e. mux_matches (fst e) path) table of
        [] \<Rightarrow> (if path @ ''/'' \<in> fst ` set table then RedirectSlash else NotFound)
      | e # es \<Rightarrow> Handler (snd (longest e es)))"

section \<open>The two servers\<close>

datatype endpoint = Metrics | Startup | Readiness | Liveness | QuitQuitQuit | Pprof string

definition needsHTTPServer :: "Config \<Rightarrow> bool" where
  "needsHTTPServer conf \<longleftrightarrow> cf_Prometheus conf \<or> cf_HealthCheck conf"

definition needsAdminServer :: "Config \<Rightarrow> bool" where
  "needsAdminServer conf \<longleftrightarrow> cf_QuitQuitQuit conf \<or> cf_Debug conf"

definition httpAddr :: "Config \<Rightarrow> string" where
  "httpAddr conf = joinHostPort (cf_HTTPAddress conf) (cf_HTTPPort conf)"

definition adminAddr :: "Config \<Rightarrow> string" where
  "adminAddr conf = joinHostPort ''localhost'' (cf_AdminPort conf)"

definition httpMux :: "Config \<Rightarrow> (string \<times> endpoint) list" where
  "httpMux conf =
     (if cf_Prometheus conf then [(''/metrics'', Metrics)] else [])
     @ (if cf_HealthCheck conf
        then [(''/startup'', Startup), (''/readiness'', Readiness), (''/liveness'', Liveness)] else [])"

definition adminMux :: "Config \<Rightarrow> (string \<times> endpoint) list" where
  "adminMux conf =
     (if cf_QuitQuitQuit conf then [(''/quitquitquit'', QuitQuitQuit)] else [])
     @ (if cf_Debug conf
        then [(''/debug/pprof/'', Pprof ''Index''), (''/debug/pprof/cmdline'', Pprof ''Cmdline''),
              (''/debug/pprof/profile'', Pprof ''Profile''), (''/debug/pprof/symbol'', Pprof ''Symbol''),
              (''/debug/pprof/trace'', Pprof ''Trace'')] else [])"

text \<open>
  The answer of the HTTP server: \<open>metrics\<close> is the exporter's, \<open>counts\<close> what \<open>ConnCount\<close> returns.
\<close>

definition serveHTTP ::
  "(nat \<times> string) \<Rightarrow> Config \<Rightarrow> uint64 \<times> uint64 \<Rightarrow> Check \<Rightarrow> string \<Rightarrow> nat \<times> string" where
  "serveHTTP metrics conf counts check path =
     (case mux_lookup (httpMux conf) path of
        Handler Metrics \<Rightarrow> metrics
      | Handler Startup \<Rightarrow> HandleStartup check
      | Handler Readiness \<Rightarrow> HandleReadiness counts check
      | Handler Liveness \<Rightarrow> HandleLiveness
      | RedirectSlash \<Rightarrow> (301, [])
      | _ \<Rightarrow> (404, ''404 page not found''))"

section \<open>The wait command\<close>

definition waitAddr :: "string \<Rightarrow> string \<Rightarrow> string" where
  "waitAddr a p = ''http://'' @ a @ '':'' @ p @ ''/startup''"

abbreviation second :: int where
  "second \<equiv> 1000000000"

text \<open>
  Time is in nanoseconds since the command started and the timer is ready from \<open>deadline\<close> on.
  \<open>get t\<close> is the request sent at time \<open>t\<close>: \<open>None\<close> if it never returns (the default client has no
  timeout), else how long it takes and the status, if there is one. The result is the error
  returned and when; \<open>None\<close> is a command that does not return.
\<close>

function runWaitCmd :: "(int \<Rightarrow> (nat \<times> nat option) option) \<Rightarrow> int \<Rightarrow> int \<Rightarrow> (go_error option \<times> int) option" where
  "runWaitCmd get deadline t =
     (if deadline \<le> t then Some (Some (ErrorString ''command failed to complete successfully''), t)
      else case get t of
          None \<Rightarrow> None
        | Some (took, resp) \<Rightarrow>
            if resp \<noteq> Some 200 then runWaitCmd get deadline (t + int took + second)
            else Some (None, t + int took))"
  by pat_completeness auto
termination
  by (relation "measure (\<lambda>(_, deadline, t). nat (deadline - t))") auto

declare runWaitCmd.simps [simp del]

section \<open>The shutdown command\<close>

text \<open>\<open>newRequest\<close> and \<open>do_request\<close> are the calls into \<open>net/http\<close>; a response is its code and status.\<close>

definition runShutdownCmd ::
  "(string \<Rightarrow> go_error option) \<Rightarrow> (string \<Rightarrow> (nat \<times> string) outcome) \<Rightarrow> string \<Rightarrow> go_error option outcome" where
  "runShutdownCmd newRequest do_request p =
     (let addr = ''http://127.0.0.1:'' @ p @ ''/quitquitquit'' in
      case newRequest addr of
        Some e \<Rightarrow> Ok (Some (ErrorString (''failed to create shutdown request: '' @ Error e)))
      | None \<Rightarrow>
         (case do_request addr of
            Err e \<Rightarrow> Ok (Some (ErrorString (''failed to send shutdown request: '' @ Error e)))
          | Panic \<Rightarrow> Panic
          | Ok (code, status) \<Rightarrow>
              Ok (if code \<noteq> 200
                  then Some (ErrorString (''shutdown request failed: status code '' @ show_nat code @ '', '' @ status))
                  else None)))"

section \<open>Facts about dispatching\<close>

lemma longest_in: "longest e es \<in> set (e # es)"
  by (induction es arbitrary: e) auto

lemma longest_max: "x \<in> set (e # es) \<Longrightarrow> length (fst x) \<le> length (fst (longest e es))"
proof (induction es arbitrary: e x)
  case (Cons y es)
  have "length (fst x) \<le> length (fst (if length (fst e) < length (fst y) then y else e)) \<or> x \<in> set es"
    using Cons.prems by auto
  with Cons.IH [of "if length (fst e) < length (fst y) then y else e" "if length (fst e) < length (fst y) then y else e"]
    Cons.IH [of x "if length (fst e) < length (fst y) then y else e"]
  show ?case by (auto split: if_splits)
qed simp

text \<open>A registered path reaches its own handler, whatever subtrees are registered above it.\<close>

lemma mux_lookup_exact:
  assumes "distinct (map fst table)" and "(path, h) \<in> set table"
  shows "mux_lookup table path = Handler h"
proof -
  obtain e es where es: "filter (\<lambda>e. mux_matches (fst e) path) table = e # es"
    using assms(2) by (cases "filter (\<lambda>e. mux_matches (fst e) path) table")
      (auto simp: filter_empty_conv mux_matches_def)
  have sub: "set (e # es) \<subseteq> set table" "\<forall>x \<in> set (e # es). mux_matches (fst x) path"
    using es [symmetric] by auto
  have "(path, h) \<in> set (e # es)"
    using assms(2) unfolding es [symmetric] by (simp add: mux_matches_def)
  from longest_max [OF this] have len: "length path \<le> length (fst (longest e es))" by simp
  have l: "longest e es \<in> set table" "mux_matches (fst (longest e es)) path"
    using longest_in [of e es] sub by auto
  have "fst (longest e es) = path"
    using l(2) len by (auto simp: mux_matches_def hasPrefix_iff)
  then have "longest e es = (path, h)"
    using assms l(1) by (metis eq_key_imp_eq_value prod.collapse)
  then show ?thesis by (simp add: mux_lookup_def es)
qed

lemma distinct_muxes: "distinct (map fst (httpMux conf))" "distinct (map fst (adminMux conf))"
  by (cases "cf_Prometheus conf"; cases "cf_HealthCheck conf"; simp add: httpMux_def)
    (cases "cf_QuitQuitQuit conf"; cases "cf_Debug conf"; simp add: adminMux_def)

lemma serveHTTP_startup:
  "serveHTTP metrics conf counts check ''/startup'' =
     (if cf_HealthCheck conf then HandleStartup check else (404, ''404 page not found''))"
proof (cases "cf_HealthCheck conf")
  case True
  then have "mux_lookup (httpMux conf) ''/startup'' = Handler Startup"
    by (intro mux_lookup_exact distinct_muxes) (simp add: httpMux_def)
  with True show ?thesis by (simp add: serveHTTP_def)
next
  case False
  then show ?thesis
    by (cases "cf_Prometheus conf")
      (simp_all add: serveHTTP_def mux_lookup_def httpMux_def mux_matches_def hasSuffix_def hasPrefix_def)
qed

lemma serveHTTP_readiness:
  assumes "cf_HealthCheck conf"
  shows "serveHTTP metrics conf counts check ''/readiness'' = HandleReadiness counts check"
proof -
  have "mux_lookup (httpMux conf) ''/readiness'' = Handler Readiness"
    using assms by (intro mux_lookup_exact distinct_muxes) (simp add: httpMux_def)
  then show ?thesis by (simp add: serveHTTP_def)
qed

section \<open>Facts about waiting\<close>

lemma wait_expired: "deadline \<le> t \<Longrightarrow>
  runWaitCmd get deadline t = Some (Some (ErrorString ''command failed to complete successfully''), t)"
  by (simp add: runWaitCmd.simps)

lemma wait_again: "t < deadline \<Longrightarrow> get t = Some (took, resp) \<Longrightarrow> resp \<noteq> Some 200 \<Longrightarrow>
  runWaitCmd get deadline t = runWaitCmd get deadline (t + int took + second)"
  by (subst runWaitCmd.simps) simp

lemma wait_done: "t < deadline \<Longrightarrow> get t = Some (took, Some 200) \<Longrightarrow>
  runWaitCmd get deadline t = Some (None, t + int took)"
  by (simp add: runWaitCmd.simps)

lemma wait_hang: "t < deadline \<Longrightarrow> get t = None \<Longrightarrow> runWaitCmd get deadline t = None"
  by (simp add: runWaitCmd.simps)

lemma wait_success:
  "runWaitCmd get deadline t = Some (None, t') \<Longrightarrow> \<exists>u took. t \<le> u \<and> u < deadline \<and> get u = Some (took, Some 200)"
proof (induction get deadline t rule: runWaitCmd.induct)
  case (1 get deadline t)
  show ?case
  proof (cases "deadline \<le> t")
    case True
    with "1.prems" show ?thesis by (simp add: wait_expired)
  next
    case early: False
    obtain took resp where g: "get t = Some (took, resp)" using "1.prems" early by (cases "get t") (auto simp: wait_hang)
    show ?thesis
    proof (cases "resp = Some 200")
      case True
      with g early show ?thesis by (intro exI [of _ t] exI [of _ took]) simp
    next
      case False
      with "1.prems" g early have "runWaitCmd get deadline (t + int took + second) = Some (None, t')"
        by (simp add: wait_again)
      from "1.IH" [OF early g refl False this] obtain u x where
        "t + int took + second \<le> u" "u < deadline" "get u = Some (x, Some 200)" by blast
      then show ?thesis by (intro exI [of _ u] exI [of _ x]) simp
    qed
  qed
qed

lemma wait_returns:
  assumes "\<forall>u. \<exists>took resp. get u = Some (took, resp) \<and> took \<le> D"
  shows "\<exists>res t'. runWaitCmd get deadline t = Some (res, t')
    \<and> t \<le> t' \<and> t' \<le> max t (deadline + int D + second)
    \<and> (if res = None then \<exists>u took. t \<le> u \<and> u < deadline \<and> get u = Some (took, Some 200) else deadline \<le> t')"
proof (induction "nat (deadline - t)" arbitrary: t rule: less_induct)
  case less
  show ?case
  proof (cases "deadline \<le> t")
    case True
    then show ?thesis by (simp add: wait_expired)
  next
    case False
    obtain took resp where g: "get t = Some (took, resp)" "took \<le> D" using assms by blast
    show ?thesis
    proof (cases "resp = Some 200")
      case True
      with False g show ?thesis by (auto simp: wait_done)
    next
      case resp: False
      let ?t = "t + int took + second"
      have "nat (deadline - ?t) < nat (deadline - t)" using False by simp
      from less [OF this] obtain res t' where ih: "runWaitCmd get deadline ?t = Some (res, t')" "?t \<le> t'"
        "t' \<le> max ?t (deadline + int D + second)"
        "if res = None then \<exists>u took. ?t \<le> u \<and> u < deadline \<and> get u = Some (took, Some 200) else deadline \<le> t'"
        by blast
      have "t' \<le> max t (deadline + int D + second)" using ih(3) g(2) False by auto
      moreover have "t \<le> t'" using ih(2) by simp
      moreover have "if res = None then \<exists>u took. t \<le> u \<and> u < deadline \<and> get u = Some (took, Some 200) else deadline \<le> t'"
      proof (cases "res = None")
        case True
        with ih(4) obtain u x where "?t \<le> u" "u < deadline" "get u = Some (x, Some 200)" by auto
        with True show ?thesis by (intro if_P [THEN iffD2] exI [of _ u] exI [of _ x]) auto
      qed (use ih(4) in auto)
      ultimately show ?thesis
        using ih(1) wait_again [of t deadline get took resp] g(1) resp False by auto
    qed
  qed
qed

lemma wait_succeeds:
  assumes "\<forall>u. \<exists>took resp. get u = Some (took, resp) \<and> took \<le> D"
    and "\<forall>u \<ge> T. \<exists>took. get u = Some (took, Some 200)"
    and "t \<le> T + int D + second" and "T + int D + second < deadline"
  shows "\<exists>t'. runWaitCmd get deadline t = Some (None, t') \<and> t' \<le> T + 2 * int D + second"
  using assms(3)
proof (induction "nat (deadline - t)" arbitrary: t rule: less_induct)
  case less
  have now: "t < deadline" using less.prems assms(4) by simp
  obtain took resp where g: "get t = Some (took, resp)" "took \<le> D" using assms(1) by blast
  show ?case
  proof (cases "resp = Some 200")
    case True
    with now g less.prems show ?thesis by (auto simp: wait_done)
  next
    case False
    then have "\<not> T \<le> t" using assms(2) g(1) by auto
    with less.hyps [of "t + int took + second"] now g False show ?thesis
      by (auto simp: wait_again)
  qed
qed

section \<open>Properties\<close>

text \<open>
  C32. The wait command respects its limit up to one request and one pause: if every request
  returns within \<open>D\<close>, the command returns at most \<open>D\<close> and one second after the limit; it
  succeeds only after a request before the limit was answered with 200, and fails only after
  the limit has passed. The bound on requests is needed: the command has no time limit of its
  own on a request, so one that never returns makes it hang whatever \<open>--max\<close> says.
\<close>

theorem wait_bounded:
  assumes "\<forall>u. \<exists>took resp. get u = Some (took, resp) \<and> took \<le> D" and "0 \<le> deadline"
  shows "(\<exists>res t'. runWaitCmd get deadline 0 = Some (res, t') \<and> t' \<le> deadline + int D + second
      \<and> (if res = None then \<exists>u took. 0 \<le> u \<and> u < deadline \<and> get u = Some (took, Some 200) else deadline \<le> t'))
    \<and> (0 < deadline \<longrightarrow> runWaitCmd (get(0 := None)) deadline 0 = None)"
proof -
  obtain res t' where r: "runWaitCmd get deadline 0 = Some (res, t')" "t' \<le> max 0 (deadline + int D + second)"
    "if res = None then \<exists>u took. 0 \<le> u \<and> u < deadline \<and> get u = Some (took, Some 200) else deadline \<le> t'"
    using wait_returns [OF assms(1), of deadline 0] by blast
  have "t' \<le> deadline + int D + second" using r(2) assms(2) by simp
  with r wait_hang [of 0 deadline "get(0 := None)"] show ?thesis by auto
qed

theorem wait_bounded_witness:
  "\<exists>res t'. runWaitCmd (\<lambda>_. Some (5, Some 503)) (30 * second) 0 = Some (res, t') \<and> 30 * second \<le> t' \<and> t' \<le> 31 * second + 5"
  using wait_bounded [of "\<lambda>_. Some (5, Some 503)" 5 "30 * second"] by (auto split: if_splits)

text \<open>
  Waiting for another proxy process. With its health check enabled, and if it has
  started by time \<open>T\<close> and its answers take at most \<open>D\<close>, the command succeeds by
  \<open>T + 2 D\<close> plus one second, provided the limit leaves that room. Without the health check, for
  example with only the Prometheus endpoint, \<open>/startup\<close> is not registered and the command
  always fails.
\<close>

theorem wait_for_proxy:
  assumes "\<forall>u. took u \<le> D" and "\<forall>u \<ge> T. ck_started (check u)"
    and "get = (\<lambda>u. Some (took u, Some (fst (serveHTTP metrics conf (counts u) (check u) ''/startup''))))"
    and "0 \<le> T" and "T + int D + second < deadline"
  shows "\<exists>res t'. runWaitCmd get deadline 0 = Some (res, t')
    \<and> (if cf_HealthCheck conf then res = None \<and> t' \<le> T + 2 * int D + second else res \<noteq> None)"
proof (cases "cf_HealthCheck conf")
  case True
  have "\<exists>t'. runWaitCmd get deadline 0 = Some (None, t') \<and> t' \<le> T + 2 * int D + second"
    using assms True by (intro wait_succeeds) (auto simp: serveHTTP_startup HandleStartup_def)
  with True show ?thesis by auto
next
  case False
  have b: "\<forall>u. \<exists>took resp. get u = Some (took, resp) \<and> took \<le> D" using assms(1,3) by simp
  have "get u \<noteq> Some (x, Some 200)" for u x using False assms(3) by (simp add: serveHTTP_startup)
  with wait_returns [OF b, of deadline 0] False show ?thesis by (metis (mono_tags, lifting))
qed

theorem wait_for_proxy_witness:
  "\<exists>res t'. runWaitCmd (\<lambda>u. Some (7, Some (fst (serveHTTP (200, []) (zero_Config\<lparr>cf_HealthCheck := True\<rparr>) (0, 0)
       (if u < 2 * second then NewCheck else NewCheck\<lparr>ck_started := True\<rparr>) ''/startup'')))) (30 * second) 0 = Some (res, t')
     \<and> res = None \<and> t' \<le> 3 * second + 14"
  using wait_for_proxy [of "\<lambda>_. 7" 7 "2 * second" "\<lambda>u. if u < 2 * second then NewCheck else NewCheck\<lparr>ck_started := True\<rparr>"
      _ "(200, [])" "zero_Config\<lparr>cf_HealthCheck := True\<rparr>" "\<lambda>_. (0, 0)" "30 * second"]
  by auto

text \<open>
  The wait command builds its address without brackets: it is the address the other process
  listens on exactly when the configured host has no colon, so not for an IPv6 address.
\<close>

lemma waitAddr_is_httpAddr:
  "waitAddr (cf_HTTPAddress conf) (cf_HTTPPort conf) = ''http://'' @ httpAddr conf @ ''/startup'' \<longleftrightarrow>
     CHR '':'' \<notin> set (cf_HTTPAddress conf)"
proof -
  have "CHR '':'' \<in> set a \<Longrightarrow> a @ '':'' @ p @ ''/startup'' \<noteq> (''['' @ a @ '']:'' @ p) @ ''/startup''" for a p :: string
    by (auto dest: arg_cong [where f = length])
  then show ?thesis by (auto simp: waitAddr_def httpAddr_def joinHostPort_def)
qed

end
