(* ===== verification/Cmd_Run.thy ===== *)
theory Cmd_Run
  imports Cmd_Http
begin

text \<open>
  Running the command (cmd/root.go, \<open>runSignalWrapper\<close>, \<open>quitquitquit\<close>, \<open>startHTTPServer\<close>). The main
  goroutine sets up telemetry, waits for startup and then on the unbuffered channel
  \<open>shutdownCh\<close>; the signal watcher, the starting goroutine, the proxy server and the HTTP
  servers send into it and block until they are received, while the \<open>/quitquitquit\<close> handler
  tries once without blocking. The function's deferred calls are a stack that is run when it
  returns. A step is one action of one goroutine.
\<close>

section \<open>State\<close>

text \<open>
  \<open>Entry\<close>: setting up telemetry; \<open>AtStart\<close>: in the first select; \<open>Setup\<close>: configuring the HTTP
  servers; \<open>ServersUp\<close>: the servers and the proxy run, the final receive is not reached yet;
  \<open>AtShutdown\<close>: receiving; \<open>Sleeping\<close>: in the sleep of \<open>WaitBeforeClose\<close>; \<open>Returning\<close>: the result is
  set and the deferred calls are due; \<open>Exited\<close>.
\<close>

datatype main_phase =
  Entry | AtStart | Setup | ServersUp | AtShutdown | Sleeping go_error | Returning go_error | Exited go_error

text \<open>The deferred calls: \<open>cleanup\<close>, \<open>cancel\<close>, flushing the exporter, closing the client, \<open>notifyStopped\<close>.\<close>

datatype deferred = DoCleanup | DoCancel | DoFlush | DoClose | DoStopped

datatype source = FromSignal | FromStart | FromServe | FromHTTP | FromAdmin

datatype sender = Unspawned | Idle | Sending go_error | Sent

datatype start_phase = Launching | StartReady | StartDone

text \<open>A server that has failed to listen, or has been shut down, answers no requests.\<close>

datatype http_server = NoServer | Listening | ListenFailed | ShutDown

text \<open>The calls into the telemetry libraries, with the project, the prefix and the sample rate.\<close>

datatype telemetry_call =
  NewExporter string string | StartMetricsExporter | RegisterExporter int | Flush | StopMetricsExporter

record run =
  rn_main :: main_phase
  rn_defers :: "deferred list"
  rn_done :: "deferred list"
  rn_senders :: "source \<Rightarrow> sender"
  rn_start :: start_phase
  rn_client :: bool
  rn_ctx :: bool
  rn_http :: "source \<Rightarrow> http_server"
  rn_check :: Check
  rn_quitOnce :: bool
  rn_telemetry :: "telemetry_call list"
  rn_sdNotify :: "string list"
  rn_closes :: "go_error option list"
  rn_reason :: "go_error option"

definition init_run :: run where
  "init_run = \<lparr>rn_main = Entry, rn_defers = [DoCancel, DoCleanup], rn_done = [],
     rn_senders = (\<lambda>_. Unspawned), rn_start = Launching, rn_client = False, rn_ctx = False,
     rn_http = (\<lambda>_. NoServer), rn_check = NewCheck, rn_quitOnce = False,
     rn_telemetry = [], rn_sdNotify = [], rn_closes = [], rn_reason = None\<rparr>"

section \<open>Pieces of the steps\<close>

datatype signal = SIGINT | SIGTERM

definition signalError :: "Config \<Rightarrow> signal \<Rightarrow> go_error" where
  "signalError conf s =
     (case s of SIGINT \<Rightarrow> errSigInt
      | SIGTERM \<Rightarrow> if cf_ExitZeroOnSigterm conf then errSigTermZero else errSigTerm)"

text \<open>Errors made by a library or by \<open>fmt.Errorf\<close>: neither an exit error nor \<open>context.Canceled\<close>.\<close>

definition library_error :: "go_error \<Rightarrow> bool" where
  "library_error e \<longleftrightarrow> e \<noteq> Canceled \<and> (case e of ExitError _ _ \<Rightarrow> False | _ \<Rightarrow> True)"

text \<open>What \<open>Serve\<close> may return (see \<open>Serve_errors\<close> below); only \<open>serveFuse\<close> looks at the context.\<close>

definition serve_error :: "Config \<Rightarrow> bool \<Rightarrow> go_error \<Rightarrow> bool" where
  "serve_error conf cancelled err \<longleftrightarrow> library_error err \<or> err = Canceled \<and> cancelled \<and> cf_FUSEDir conf \<noteq> []"

definition telemetryOn :: "Config \<Rightarrow> bool" where
  "telemetryOn conf \<longleftrightarrow> cf_TelemetryProject conf \<noteq> [] \<and> (\<not> cf_DisableMetrics conf \<or> \<not> cf_DisableTraces conf)"

definition setupTelemetry :: "Config \<Rightarrow> telemetry_call list" where
  "setupTelemetry conf =
     [NewExporter (cf_TelemetryProject conf) (cf_TelemetryPrefix conf)]
     @ (if \<not> cf_DisableMetrics conf then [StartMetricsExporter] else [])
     @ (if \<not> cf_DisableTraces conf then [RegisterExporter (cf_TelemetryTracingSampleRate conf)] else [])"

definition send :: "source \<Rightarrow> go_error \<Rightarrow> run \<Rightarrow> run" where
  "send src e r = r\<lparr>rn_senders := (rn_senders r)(src := Sending e)\<rparr>"

text \<open>Entering the first select: the signal watcher and the starting goroutine are running.\<close>

definition spawnStart :: "run \<Rightarrow> run" where
  "spawnStart r = r\<lparr>rn_main := AtStart, rn_senders := (rn_senders r)(FromSignal := Idle, FromStart := Idle)\<rparr>"

text \<open>The servers the configuration needs, and the proxy itself.\<close>

definition spawnServers :: "Config \<Rightarrow> run \<Rightarrow> run" where
  "spawnServers conf r =
     r\<lparr>rn_main := ServersUp, rn_defers := DoStopped # rn_defers r,
       rn_senders := (rn_senders r)(FromServe := Idle,
         FromHTTP := (if needsHTTPServer conf then Idle else Unspawned),
         FromAdmin := (if needsAdminServer conf then Idle else Unspawned)),
       rn_http := (rn_http r)(FromHTTP := (if needsHTTPServer conf then Listening else NoServer),
         FromAdmin := (if needsAdminServer conf then Listening else NoServer))\<rparr>"

text \<open>
  The goroutine of an HTTP server: if it cannot listen, it sends; when the context has ended, the
  server is shut down and \<open>ListenAndServe\<close> returns without an error to send.
\<close>

definition httpFailed :: "source \<Rightarrow> go_error \<Rightarrow> run \<Rightarrow> run" where
  "httpFailed src e r =
     send src (ErrorString (''failed to start HTTP server: '' @ Error e)) (r\<lparr>rn_http := (rn_http r)(src := ListenFailed)\<rparr>)"

definition httpShutdown :: "source \<Rightarrow> run \<Rightarrow> run" where
  "httpShutdown src r = r\<lparr>rn_http := (rn_http r)(src := ShutDown)\<rparr>"

declare httpFailed_def [simp] httpShutdown_def [simp]

definition afterReceive :: "go_error \<Rightarrow> main_phase" where
  "afterReceive e =
     (if e = errSigInt \<or> e = errSigTerm \<or> e = errSigTermZero \<or> e = errQuitQuitQuit then Sleeping e else Returning e)"

text \<open>
  One deferred call while \<open>e\<close> is the result; \<open>closeErr\<close> is what \<open>p.Close\<close> returns, and it replaces
  the result if it is not nil.
\<close>

fun run_deferred :: "Config \<Rightarrow> go_error list option \<Rightarrow> go_error \<Rightarrow> deferred \<Rightarrow> run \<Rightarrow> run outcome" where
  "run_deferred conf closeErr e DoStopped r =
     (if cf_HealthCheck conf then bind_outcome (NotifyStopped (rn_check r)) (\<lambda>ck. Ok (r\<lparr>rn_check := ck\<rparr>)) else Ok r)"
| "run_deferred conf closeErr e DoClose r =
     Ok (r\<lparr>rn_main := Returning (case closeErr of Some ce \<Rightarrow> MultiErr ce | None \<Rightarrow> e),
           rn_closes := rn_closes r @ [map_option MultiErr closeErr]\<rparr>)"
| "run_deferred conf closeErr e DoFlush r = Ok (r\<lparr>rn_telemetry := rn_telemetry r @ [Flush, StopMetricsExporter]\<rparr>)"
| "run_deferred conf closeErr e DoCancel r = Ok (r\<lparr>rn_ctx := True\<rparr>)"
| "run_deferred conf closeErr e DoCleanup r = Ok r"

section \<open>The quitquitquit handler\<close>

text \<open>The status the handler sets, if it sets one, and the run after it.\<close>

definition quitquitquit :: "string \<Rightarrow> run \<Rightarrow> nat option \<times> run" where
  "quitquitquit meth r =
     (if meth \<noteq> ''POST'' \<and> meth \<noteq> ''GET'' then (Some 400, r)
      else if rn_quitOnce r then (None, r)
      else if rn_main r = AtShutdown
        then (None, r\<lparr>rn_quitOnce := True, rn_main := afterReceive errQuitQuitQuit, rn_reason := Some errQuitQuitQuit\<rparr>)
      else (None, r\<lparr>rn_quitOnce := True\<rparr>))"

text \<open>A handler that sets no status answers with 200.\<close>

definition quit_status :: "nat option \<Rightarrow> nat" where
  "quit_status st = (case st of Some n \<Rightarrow> n | None \<Rightarrow> 200)"

section \<open>Steps\<close>

text \<open>
  The steps of the main goroutine.
\<close>

inductive main_step :: "Config \<Rightarrow> run \<Rightarrow> run \<Rightarrow> bool" for conf :: Config where
  telemetry_off: "rn_main r = Entry \<Longrightarrow> \<not> telemetryOn conf \<Longrightarrow> main_step conf r (spawnStart r)"
| exporter_failed: "rn_main r = Entry \<Longrightarrow> telemetryOn conf \<Longrightarrow> library_error e \<Longrightarrow>
     main_step conf r (r\<lparr>rn_main := Returning e, rn_reason := Some e\<rparr>)"
| metrics_failed: "rn_main r = Entry \<Longrightarrow> telemetryOn conf \<Longrightarrow> \<not> cf_DisableMetrics conf \<Longrightarrow> library_error e \<Longrightarrow>
     main_step conf r (r\<lparr>rn_main := Returning e, rn_reason := Some e,
       rn_telemetry := [NewExporter (cf_TelemetryProject conf) (cf_TelemetryPrefix conf)]\<rparr>)"
| telemetry_on: "rn_main r = Entry \<Longrightarrow> telemetryOn conf \<Longrightarrow>
     main_step conf r (spawnStart (r\<lparr>rn_telemetry := setupTelemetry conf, rn_defers := DoFlush # rn_defers r\<rparr>))"
| interrupted: "rn_main r = AtStart \<Longrightarrow> rn_senders r src = Sending e \<Longrightarrow>
     main_step conf r (r\<lparr>rn_main := Returning e, rn_senders := (rn_senders r)(src := Sent), rn_reason := Some e,
       rn_sdNotify := rn_sdNotify r @ [''STOPPING=1'']\<rparr>)"
| started: "rn_main r = AtStart \<Longrightarrow> rn_start r = StartReady \<Longrightarrow>
     main_step conf r (r\<lparr>rn_main := Setup, rn_start := StartDone, rn_client := True, rn_defers := DoClose # rn_defers r,
       rn_sdNotify := rn_sdNotify r @ [''READY=1'']\<rparr>)"
| setup_failed: "rn_main r = Setup \<Longrightarrow> cf_Prometheus conf \<Longrightarrow> library_error e \<Longrightarrow>
     main_step conf r (r\<lparr>rn_main := Returning e, rn_reason := Some e\<rparr>)"
| servers_up: "rn_main r = Setup \<Longrightarrow> main_step conf r (spawnServers conf r)"
| receive: "rn_main r = ServersUp \<Longrightarrow> main_step conf r (r\<lparr>rn_main := AtShutdown\<rparr>)"
| received: "rn_main r = AtShutdown \<Longrightarrow> rn_senders r src = Sending e \<Longrightarrow>
     main_step conf r (r\<lparr>rn_main := afterReceive e, rn_senders := (rn_senders r)(src := Sent), rn_reason := Some e\<rparr>)"
| slept: "rn_main r = Sleeping e \<Longrightarrow> main_step conf r (r\<lparr>rn_main := Returning e\<rparr>)"
| deferred: "rn_main r = Returning e \<Longrightarrow> rn_defers r = d # ds \<Longrightarrow>
     run_deferred conf closeErr e d (r\<lparr>rn_defers := ds, rn_done := rn_done r @ [d]\<rparr>) = Ok r' \<Longrightarrow> main_step conf r r'"
| exited: "rn_main r = Returning e \<Longrightarrow> rn_defers r = [] \<Longrightarrow> main_step conf r (r\<lparr>rn_main := Exited e\<rparr>)"

text \<open>
  The steps of the other goroutines: the signal watcher, which takes a cancelled context for a
  SIGINT, the start of the client, \<open>Serve\<close> with its notification, and the HTTP servers.
\<close>

inductive other_step :: "Config \<Rightarrow> run \<Rightarrow> run \<Rightarrow> bool" for conf :: Config where
  signalled: "rn_senders r FromSignal = Idle \<Longrightarrow> other_step conf r (send FromSignal (signalError conf s) r)"
| watcher_cancelled: "rn_senders r FromSignal = Idle \<Longrightarrow> rn_ctx r \<Longrightarrow> other_step conf r (send FromSignal errSigInt r)"
| start_failed: "rn_senders r FromStart = Idle \<Longrightarrow> rn_start r = Launching \<Longrightarrow>
     other_step conf r (send FromStart (ErrorString (''unable to start: '' @ Error e)) (r\<lparr>rn_start := StartDone\<rparr>))"
| start_ready: "rn_senders r FromStart = Idle \<Longrightarrow> rn_start r = Launching \<Longrightarrow>
     other_step conf r (r\<lparr>rn_start := StartReady\<rparr>)"
| serving: "rn_senders r FromServe = Idle \<Longrightarrow> cf_HealthCheck conf \<Longrightarrow> NotifyStarted (rn_check r) = Ok ck \<Longrightarrow>
     other_step conf r (r\<lparr>rn_check := ck\<rparr>)"
| serve_ended: "rn_senders r FromServe = Idle \<Longrightarrow> serve_error conf (rn_ctx r) err \<Longrightarrow>
     other_step conf r (send FromServe err r)"
| listen_failed: "rn_http r src = Listening \<Longrightarrow> other_step conf r (httpFailed src e r)"
| http_shutdown: "rn_http r src = Listening \<Longrightarrow> rn_ctx r \<Longrightarrow> other_step conf r (httpShutdown src r)"
| quit: "rn_http r FromAdmin = Listening \<Longrightarrow> cf_QuitQuitQuit conf \<Longrightarrow> quitquitquit meth r = (status, r') \<Longrightarrow>
     other_step conf r r'"

definition run_step :: "Config \<Rightarrow> run \<Rightarrow> run \<Rightarrow> bool" where
  "run_step conf r r' \<longleftrightarrow> main_step conf r r' \<or> other_step conf r r'"

text \<open>
  The caller of the command may cancel its context at any time: \<open>env_step\<close> allows that too. A
  command started from the shell runs under a context that is never cancelled.
\<close>

definition cancel_ctx :: "run \<Rightarrow> run" where
  "cancel_ctx r = r\<lparr>rn_ctx := True\<rparr>"

definition env_step :: "Config \<Rightarrow> run \<Rightarrow> run \<Rightarrow> bool" where
  "env_step conf r r' \<longleftrightarrow> run_step conf r r' \<or> r' = cancel_ctx r"

lemma run_steps_env: "(run_step conf)\<^sup>*\<^sup>* r r' \<Longrightarrow> (env_step conf)\<^sup>*\<^sup>* r r'"
proof (induction rule: rtranclp_induct)
  case (step s t)
  then show ?case by (meson env_step_def rtranclp.rtrancl_into_rtrancl)
qed simp

lemma env_step_cases:
  assumes "env_step conf r r'"
  obtains (main) "main_step conf r r'" | (other) "other_step conf r r'" | (cancel) "r' = cancel_ctx r"
  using assms by (auto simp: env_step_def run_step_def)

text \<open>
  The errors of the client's \<open>Serve\<close> are covered: a failed connection test, an error of the FUSE
  mount, and the end of the context in FUSE mode.
\<close>

lemma Serve_errors:
  "Serve_start rng order dial c = StartFailed err \<Longrightarrow> serve_error conf cancelled err"
  "fst (serveFuse fe c) = Some err \<Longrightarrow> serve_error conf cancelled err"
  "fm_serving (cl_fuse c) = Waiting \<Longrightarrow> fm_serving (cl_fuse (serveFuse_done c)) = ServeReturned err \<Longrightarrow>
     cf_FUSEDir conf \<noteq> [] \<Longrightarrow> serve_error conf True err"
  by (auto simp: Serve_start_def CheckConnections_def serveFuse_def mount_error_def serveFuse_done_def serve_error_def library_error_def Let_def
      split: option.splits if_splits prod.splits)

section \<open>Invariants\<close>

text \<open>The errors that may be sent, and so may be the reason to stop.\<close>

definition reason_ok :: "Config \<Rightarrow> go_error \<Rightarrow> bool" where
  "reason_ok conf e \<longleftrightarrow> cf_QuitQuitQuit conf \<and> e = errQuitQuitQuit \<or> (\<exists>s. e = signalError conf s) \<or> serve_error conf True e"

text \<open>
  The deferred calls registered so far, last first: which goroutines have been started, whether
  there is a client and whether there is an exporter decide them.
\<close>

definition registered :: "bool \<Rightarrow> bool \<Rightarrow> bool \<Rightarrow> deferred list" where
  "registered served client exporter =
     (if served then [DoStopped] else []) @ (if client then [DoClose] else [])
     @ (if exporter then [DoFlush] else []) @ [DoCancel, DoCleanup]"

abbreviation served :: "run \<Rightarrow> bool" where
  "served r \<equiv> rn_senders r FromServe \<noteq> Unspawned"

abbreviation exporting :: "Config \<Rightarrow> run \<Rightarrow> bool" where
  "exporting conf r \<equiv> telemetryOn conf \<and> rn_senders r FromStart \<noteq> Unspawned"

text \<open>What the main goroutine's position says about the goroutines and deferred calls.\<close>

fun phase_ok :: "main_phase \<Rightarrow> bool \<Rightarrow> bool \<Rightarrow> bool \<Rightarrow> deferred list \<Rightarrow> bool" where
  "phase_ok Entry begun serve client defers \<longleftrightarrow> \<not> begun \<and> \<not> serve \<and> \<not> client"
| "phase_ok AtStart begun serve client defers \<longleftrightarrow> begun \<and> \<not> serve \<and> \<not> client"
| "phase_ok Setup begun serve client defers \<longleftrightarrow> begun \<and> \<not> serve \<and> client"
| "phase_ok (Returning e) begun serve client defers \<longleftrightarrow> True"
| "phase_ok (Exited e) begun serve client defers \<longleftrightarrow> defers = []"
| "phase_ok _ begun serve client defers \<longleftrightarrow> begun \<and> serve \<and> client"

text \<open>How the result relates to the reason: a failing \<open>Close\<close> replaces it.\<close>

definition result_ok :: "Config \<Rightarrow> go_error \<Rightarrow> bool \<Rightarrow> go_error option list \<Rightarrow> go_error option \<Rightarrow> bool" where
  "result_ok conf e closed closes reason \<longleftrightarrow>
     (\<exists>why. reason = Some why \<and> reason_ok conf why \<and>
        (if closed then closes = [None] \<and> e = why \<or> (\<exists>es. closes = [Some (MultiErr es)] \<and> e = MultiErr es)
         else closes = [] \<and> e = why))"

fun main_ok :: "Config \<Rightarrow> main_phase \<Rightarrow> deferred list \<Rightarrow> go_error option list \<Rightarrow> go_error option \<Rightarrow> bool" where
  "main_ok conf (Sleeping e) fin closes reason \<longleftrightarrow> fin = [] \<and> result_ok conf e False closes reason"
| "main_ok conf (Returning e) fin closes reason \<longleftrightarrow> result_ok conf e (DoClose \<in> set fin) closes reason"
| "main_ok conf (Exited e) fin closes reason \<longleftrightarrow> result_ok conf e (DoClose \<in> set fin) closes reason"
| "main_ok conf _ fin closes reason \<longleftrightarrow> fin = [] \<and> closes = [] \<and> reason = None"

text \<open>What the deferred calls that are done have achieved.\<close>

definition check_ok :: "Config \<Rightarrow> Check \<Rightarrow> deferred list \<Rightarrow> bool" where
  "check_ok conf ck fin \<longleftrightarrow> check_inv ck \<and> (ck_stopped ck \<longleftrightarrow> cf_HealthCheck conf \<and> DoStopped \<in> set fin)"

definition telemetry_ok :: "Config \<Rightarrow> bool \<Rightarrow> bool \<Rightarrow> telemetry_call list \<Rightarrow> bool" where
  "telemetry_ok conf begun flushed calls \<longleftrightarrow>
     (if begun then calls = (if telemetryOn conf then setupTelemetry conf @ (if flushed then [Flush, StopMetricsExporter] else []) else [])
      else calls \<in> {[], take 1 (setupTelemetry conf)})"

definition run_inv :: "Config \<Rightarrow> run \<Rightarrow> bool" where
  "run_inv conf r \<longleftrightarrow>
     rn_done r @ rn_defers r = registered (served r) (rn_client r) (exporting conf r)
     \<and> phase_ok (rn_main r) (rn_senders r FromStart \<noteq> Unspawned) (served r) (rn_client r) (rn_defers r)
     \<and> (\<forall>src e. rn_senders r src = Sending e \<longrightarrow> reason_ok conf e)
     \<and> (\<forall>src. rn_http r src \<noteq> NoServer \<longrightarrow> src = FromHTTP \<or> src = FromAdmin)
     \<and> main_ok conf (rn_main r) (rn_done r) (rn_closes r) (rn_reason r)
     \<and> check_ok conf (rn_check r) (rn_done r)
     \<and> (DoCancel \<in> set (rn_done r) \<longrightarrow> rn_ctx r)
     \<and> (rn_main r = Entry \<longrightarrow> rn_telemetry r = [])
     \<and> (ck_started (rn_check r) \<longrightarrow> served r) \<and> (served r \<longrightarrow> rn_client r)
     \<and> telemetry_ok conf (rn_senders r FromStart \<noteq> Unspawned) (DoFlush \<in> set (rn_done r)) (rn_telemetry r)"

lemma run_invD:
  assumes "run_inv conf r"
  shows "rn_done r @ rn_defers r = registered (served r) (rn_client r) (exporting conf r)"
    "phase_ok (rn_main r) (rn_senders r FromStart \<noteq> Unspawned) (served r) (rn_client r) (rn_defers r)"
    "rn_senders r src = Sending e \<Longrightarrow> reason_ok conf e"
    "rn_http r src \<noteq> NoServer \<Longrightarrow> src = FromHTTP \<or> src = FromAdmin"
    "main_ok conf (rn_main r) (rn_done r) (rn_closes r) (rn_reason r)"
    "check_ok conf (rn_check r) (rn_done r)"
    "DoCancel \<in> set (rn_done r) \<Longrightarrow> rn_ctx r"
    "rn_main r = Entry \<Longrightarrow> rn_telemetry r = []"
    "ck_started (rn_check r) \<Longrightarrow> served r" "served r \<Longrightarrow> rn_client r"
    "telemetry_ok conf (rn_senders r FromStart \<noteq> Unspawned) (DoFlush \<in> set (rn_done r)) (rn_telemetry r)"
  using assms unfolding run_inv_def by blast+

lemma run_inv_init: "run_inv conf init_run"
  by (simp add: run_inv_def init_run_def registered_def check_ok_def telemetry_ok_def check_inv_def NewCheck_def)

lemma reason_ok_simps [simp]:
  "reason_ok conf (ErrorString m)" "cf_QuitQuitQuit conf \<Longrightarrow> reason_ok conf errQuitQuitQuit" "reason_ok conf (signalError conf s)"
  "reason_ok conf errSigInt" "library_error e \<Longrightarrow> reason_ok conf e" "serve_error conf c e \<Longrightarrow> reason_ok conf e"
  by (auto simp: reason_ok_def serve_error_def library_error_def signalError_def intro: exI [of _ SIGINT])

section \<open>Every step keeps the invariant\<close>

lemma run_inv_send:
  assumes "run_inv conf r" and "reason_ok conf e" and "rn_senders r src \<noteq> Unspawned"
  shows "run_inv conf (send src e r)"
  using assms by (cases "src = FromServe"; cases "src = FromStart") (simp_all add: run_inv_def send_def)

lemma quitquitquit_result:
  "snd (quitquitquit meth r) \<in> {r, r\<lparr>rn_quitOnce := True\<rparr>} \<or> rn_main r = AtShutdown \<and> snd (quitquitquit meth r) =
     r\<lparr>rn_quitOnce := True, rn_main := Sleeping errQuitQuitQuit, rn_reason := Some errQuitQuitQuit\<rparr>"
  by (simp add: quitquitquit_def afterReceive_def)

lemma run_inv_quit:
  assumes "run_inv conf r" and "quitquitquit meth r = (status, r')" and "cf_QuitQuitQuit conf"
  shows "run_inv conf r'"
proof -
  consider "r' = r" | "r' = r\<lparr>rn_quitOnce := True\<rparr>" | "rn_main r = AtShutdown"
    "r' = r\<lparr>rn_quitOnce := True, rn_main := Sleeping errQuitQuitQuit, rn_reason := Some errQuitQuitQuit\<rparr>"
    using quitquitquit_result [of meth r] unfolding assms(2) snd_conv by blast
  then show ?thesis
  proof cases
    case 3
    with assms(1,3) show ?thesis by (auto simp: run_inv_def result_ok_def)
  qed (use assms(1) in \<open>simp_all add: run_inv_def\<close>)
qed

lemma run_inv_cancel: "run_inv conf r \<Longrightarrow> run_inv conf (cancel_ctx r)"
  by (simp add: run_inv_def cancel_ctx_def)

lemma check_ok_started: "check_ok conf ck fin \<Longrightarrow> NotifyStarted ck = Ok ck' \<Longrightarrow> check_ok conf ck' fin"
  by (auto simp: check_ok_def NotifyStarted_def check_inv_def close_chan_def split: if_splits)

lemma server_sources: "run_inv conf r \<Longrightarrow> rn_http r src \<noteq> NoServer \<Longrightarrow> src = FromHTTP \<or> src = FromAdmin"
  unfolding run_inv_def by blast

lemma run_inv_other:
  assumes "run_inv conf r" and "other_step conf r r'"
  shows "run_inv conf r'"
  using assms(2,1)
proof (cases rule: other_step.cases)
  case (start_failed e)
  then have "run_inv conf (r\<lparr>rn_start := StartDone\<rparr>)" using assms(1) by (simp add: run_inv_def)
  with start_failed show ?thesis by (auto intro: run_inv_send)
next
  case start_ready
  with assms(1) show ?thesis by (simp add: run_inv_def)
next
  case (serving ck)
  with check_ok_started [OF run_invD(6) [OF assms(1)]] assms(1) show ?thesis by (auto simp: run_inv_def)
next
  case (listen_failed src e)
  then consider "src = FromHTTP" | "src = FromAdmin" using server_sources [OF assms(1), of src] by auto
  then show ?thesis using listen_failed assms(1) by cases (simp_all add: run_inv_def send_def, blast+)
next
  case (http_shutdown src)
  with assms(1) server_sources [OF assms(1), of src] show ?thesis by (simp add: run_inv_def)
next
  case (quit meth status)
  then show ?thesis using run_inv_quit [OF assms(1)] by simp
qed (use assms(1) in \<open>auto intro: run_inv_send\<close>)

lemma distinct_registered: "distinct (registered s c x)"
  by (simp add: registered_def)

lemma registered_members:
  "DoStopped \<in> set (registered s c x) \<longleftrightarrow> s" "DoClose \<in> set (registered s c x) \<longleftrightarrow> c"
  "DoFlush \<in> set (registered s c x) \<longleftrightarrow> x"
  by (simp_all add: registered_def)

lemma due_not_done: "run_inv conf r \<Longrightarrow> rn_defers r = d # ds \<Longrightarrow> d \<notin> set (rn_done r)"
  using distinct_registered [of "served r" "rn_client r" "exporting conf r"]
  by (auto simp: run_inv_def simp del: distinct_registered dest: sym)

lemma NotifyStopped_ok:
  "check_ok conf ck fin \<Longrightarrow> DoStopped \<notin> set fin \<Longrightarrow>
   NotifyStopped ck = Ok (ck\<lparr>ck_stoppedOnce := True, ck_stopped := True\<rparr>)"
  by (simp add: check_ok_def check_inv_def NotifyStopped_def close_chan_def)

text \<open>What a deferred call has to establish.\<close>

lemma run_inv_pop:
  assumes "run_inv conf r" and "rn_main r = Returning e" and "rn_defers r = d # ds"
    and same: "rn_defers r' = ds" "rn_done r' = rn_done r @ [d]" "rn_senders r' = rn_senders r" "rn_http r' = rn_http r"
      "rn_client r' = rn_client r" "rn_reason r' = rn_reason r" "ck_started (rn_check r') = ck_started (rn_check r)"
    and new: "rn_main r' = Returning e'" "result_ok conf e' (DoClose \<in> set (rn_done r')) (rn_closes r') (rn_reason r')"
      "check_ok conf (rn_check r') (rn_done r')" "DoCancel \<in> set (rn_done r') \<Longrightarrow> rn_ctx r'"
      "telemetry_ok conf (rn_senders r FromStart \<noteq> Unspawned) (DoFlush \<in> set (rn_done r')) (rn_telemetry r')"
  shows "run_inv conf r'"
  unfolding run_inv_def
  using run_invD [OF assms(1)] assms(3) same new by (intro conjI allI impI) simp_all

lemma run_inv_deferred:
  assumes "run_inv conf r" and "rn_main r = Returning e" and "rn_defers r = d # ds"
    and "run_deferred conf closeErr e d (r\<lparr>rn_defers := ds, rn_done := rn_done r @ [d]\<rparr>) = Ok r'"
  shows "run_inv conf r'"
proof -
  note due = due_not_done [OF assms(1,3)]
  have res: "result_ok conf e (DoClose \<in> set (rn_done r)) (rn_closes r) (rn_reason r)"
    using run_invD(5) [OF assms(1)] assms(2) by simp
  have ck: "check_ok conf (rn_check r) (rn_done r @ [d])" if "d \<noteq> DoStopped"
    using run_invD(6) [OF assms(1)] that by (simp add: check_ok_def)
  have tele: "telemetry_ok conf (rn_senders r FromStart \<noteq> Unspawned) (DoFlush \<in> set (rn_done r @ [d])) (rn_telemetry r)"
    if "d \<noteq> DoFlush" using run_invD(11) [OF assms(1)] that by simp
  note pop = run_inv_pop [OF assms(1-3)] and ctx = run_invD(7) [OF assms(1)]
  show ?thesis
  proof (cases d)
    case DoStopped
    then have "check_ok conf (if cf_HealthCheck conf then rn_check r\<lparr>ck_stoppedOnce := True, ck_stopped := True\<rparr> else rn_check r)
        (rn_done r @ [d])"
      using run_invD(6) [OF assms(1)] due by (auto simp: check_ok_def check_inv_def)
    with DoStopped assms(2,4) res tele ctx NotifyStopped_ok [OF run_invD(6) [OF assms(1)]] due show ?thesis
      by (intro pop [of r' e]) (auto split: if_splits)
  next
    case DoClose
    with due res have "result_ok conf (case closeErr of Some ce \<Rightarrow> MultiErr ce | None \<Rightarrow> e) True
        (rn_closes r @ [map_option MultiErr closeErr]) (rn_reason r)"
      by (cases closeErr) (auto simp: result_ok_def)
    with DoClose assms(4) ck tele ctx show ?thesis
      by (intro pop [of r' "case closeErr of Some ce \<Rightarrow> MultiErr ce | None \<Rightarrow> e"]) auto
  next
    case DoFlush
    have "DoFlush \<in> set (rn_done r @ rn_defers r)" using assms(3) DoFlush by simp
    then have "exporting conf r" using run_invD(1) [OF assms(1)] by (metis registered_members(3))
    then have "telemetry_ok conf True True (rn_telemetry r @ [Flush, StopMetricsExporter])"
      using run_invD(11) [OF assms(1)] due DoFlush by (simp add: telemetry_ok_def)
    with DoFlush assms(2,4) res ck ctx \<open>exporting conf r\<close> show ?thesis by (intro pop [of r' e]) auto
  qed (use assms(2,4) res ck tele ctx in \<open>intro pop [of r' e]; auto\<close>)+
qed

lemma main_ok_receive: "main_ok conf AtShutdown fin closes reason \<Longrightarrow> reason_ok conf e \<Longrightarrow>
  main_ok conf (afterReceive e) fin closes (Some e)"
  by (simp add: afterReceive_def result_ok_def)

lemma phase_ok_receive: "phase_ok AtShutdown b s c ds \<Longrightarrow> phase_ok (afterReceive e) b s c ds"
  by (simp add: afterReceive_def)

lemma run_inv_entry:
  assumes "run_inv conf r" and "rn_main r = Entry"
  shows "rn_defers r = [DoCancel, DoCleanup]" "rn_done r = []" "rn_closes r = []" "rn_telemetry r = []"
    "rn_senders r FromStart = Unspawned" "rn_senders r FromServe = Unspawned" "\<not> rn_client r"
  using assms by (auto simp: run_inv_def registered_def)

lemma run_inv_return:
  assumes "run_inv conf r" and "rn_main r = Entry" and "reason_ok conf e"
    and "rn_telemetry r' \<in> {[], take 1 (setupTelemetry conf)}"
    and "r' = r\<lparr>rn_main := Returning e, rn_reason := Some e, rn_telemetry := rn_telemetry r'\<rparr>"
  shows "run_inv conf r'"
  using assms(1-4) run_inv_entry [OF assms(1,2)]
  by (subst assms(5)) (simp add: run_inv_def result_ok_def telemetry_ok_def registered_def)

lemma run_inv_main:
  assumes "run_inv conf r" and "main_step conf r r'"
  shows "run_inv conf r'"
  using assms(2,1)
proof (cases rule: main_step.cases)
  case telemetry_off
  with assms(1) run_inv_entry [OF assms(1)] show ?thesis
    by (simp add: run_inv_def spawnStart_def registered_def telemetry_ok_def)
next
  case (exporter_failed e)
  with run_inv_entry [OF assms(1)] show ?thesis by (intro run_inv_return [OF assms(1), of e]) simp_all
next
  case (metrics_failed e)
  then show ?thesis by (intro run_inv_return [OF assms(1), of e]) (simp_all add: setupTelemetry_def)
next
  case telemetry_on
  with assms(1) run_inv_entry [OF assms(1)] show ?thesis
    by (simp add: run_inv_def spawnStart_def registered_def telemetry_ok_def)
next
  case (interrupted src e)
  with assms(1) show ?thesis by (cases "src = FromStart"; cases "src = FromServe") (simp_all add: run_inv_def result_ok_def)
next
  case started
  with assms(1) show ?thesis by (auto simp: run_inv_def registered_def)
next
  case (setup_failed e)
  with assms(1) show ?thesis by (auto simp: run_inv_def result_ok_def)
next
  case servers_up
  with assms(1) show ?thesis by (auto simp: run_inv_def registered_def spawnServers_def)
next
  case receive
  with assms(1) show ?thesis by (auto simp: run_inv_def)
next
  case (received src e)
  then have "reason_ok conf e" "main_ok conf AtShutdown (rn_done r) (rn_closes r) (rn_reason r)"
    "phase_ok AtShutdown (rn_senders r FromStart \<noteq> Unspawned) (served r) (rn_client r) (rn_defers r)"
    using assms(1) by (auto simp: run_inv_def)
  from main_ok_receive [OF this(2,1)] phase_ok_receive [OF this(3), of e] received assms(1) show ?thesis
    by (cases "src = FromStart"; cases "src = FromServe") (simp_all add: run_inv_def afterReceive_def)
next
  case (slept e)
  with assms(1) show ?thesis by (auto simp: run_inv_def)
next
  case (deferred e d ds closeErr)
  then show ?thesis using run_inv_deferred [OF assms(1)] by simp
next
  case (exited e)
  with assms(1) show ?thesis by (auto simp: run_inv_def)
qed

lemma env_step_inv: "run_inv conf r \<Longrightarrow> env_step conf r r' \<Longrightarrow> run_inv conf r'"
  by (auto elim!: env_step_cases intro: run_inv_main run_inv_other run_inv_cancel)

interpretation run: step_invariant "env_step conf" "run_inv conf" for conf
  by unfold_locales (rule env_step_inv)

lemma run_reachable_inv: "(env_step conf)\<^sup>*\<^sup>* init_run r \<Longrightarrow> run_inv conf r"
  by (rule run.inv_steps) (auto intro: run_inv_init)

end
