(* ===== verification/Cmd_Shutdown.thy ===== *)
theory Cmd_Shutdown
  imports Cmd_Run
begin

text \<open>
  How a run of the command ends (model in \<open>Cmd_Run\<close>): exit codes, the order of the deferred
  calls, what the endpoints answer meanwhile, that the process returns, and a request for
  shutdown that is lost.
\<close>

section \<open>Facts about exit codes\<close>

lemmas exit_errors = errSigInt_def errSigTerm_def errSigTermZero_def errQuitQuitQuit_def

definition reason_code :: "go_error \<Rightarrow> int" where
  "reason_code why = (case why of ExitError code _ \<Rightarrow> code | _ \<Rightarrow> 1)"

lemma Execute_reason: "Execute (Some why) = reason_code why"
  by (simp add: Execute_def reason_code_def split: go_error.split)

lemma reason_ok_cases:
  assumes "reason_ok conf why"
  obtains (quit) "why = errQuitQuitQuit" "cf_QuitQuitQuit conf" | (int) "why = errSigInt"
  | (zero) "why = errSigTermZero" "cf_ExitZeroOnSigterm conf"
  | (sigterm) "why = errSigTerm" "\<not> cf_ExitZeroOnSigterm conf"
  | (other) "reason_code why = 1" "why = Canceled \<longrightarrow> cf_FUSEDir conf \<noteq> []"
proof -
  consider "why = errQuitQuitQuit" "cf_QuitQuitQuit conf" | s where "why = signalError conf s" | "serve_error conf True why"
    using assms by (auto simp: reason_ok_def)
  then show thesis
  proof cases
    case 1
    then show thesis by (rule quit)
  next
    case (2 s)
    then show thesis
      by (cases s; cases "cf_ExitZeroOnSigterm conf") (auto simp: signalError_def intro: int zero sigterm)
  next
    case 3
    then have "reason_code why = 1" "why = Canceled \<longrightarrow> cf_FUSEDir conf \<noteq> []"
      by (auto simp: serve_error_def library_error_def reason_code_def split: go_error.splits)
    then show thesis by (rule other)
  qed
qed

lemma reason_codes:
  assumes "reason_ok conf why"
  shows "reason_code why \<in> {0, 1, 130, 143}"
    "reason_code why = 143 \<Longrightarrow> why = errSigTerm \<and> \<not> cf_ExitZeroOnSigterm conf"
    "reason_code why = 0 \<Longrightarrow> why = errQuitQuitQuit \<and> cf_QuitQuitQuit conf \<or> why = errSigTermZero \<and> cf_ExitZeroOnSigterm conf"
    "why = Canceled \<Longrightarrow> cf_FUSEDir conf \<noteq> []" "reason_code why = 130 \<Longrightarrow> why = errSigInt"
  using assms by (cases rule: reason_ok_cases; simp add: reason_code_def exit_errors)+

lemma exited_result:
  assumes "run_inv conf r" and "rn_main r = Exited e"
  obtains why where "rn_reason r = Some why" "reason_ok conf why"
    "if rn_client r then rn_closes r = [None] \<and> e = why \<or> (\<exists>es. rn_closes r = [Some (MultiErr es)] \<and> e = MultiErr es)
     else rn_closes r = [] \<and> e = why"
proof -
  have fin: "rn_done r = registered (served r) (rn_client r) (exporting conf r)"
    using assms by (auto simp: run_inv_def)
  have "result_ok conf e (rn_client r) (rn_closes r) (rn_reason r)"
    using assms by (simp add: run_inv_def fin registered_members)
  then show thesis using that by (auto simp: result_ok_def)
qed

text \<open>The exit code, for what the run has recorded.\<close>

lemma exited_code:
  assumes "run_inv conf r" and "rn_main r = Exited e"
  shows "\<exists>why. rn_reason r = Some why
    \<and> length (rn_closes r) = (if rn_client r then 1 else 0)
    \<and> (if list_ex (\<lambda>x. x \<noteq> None) (rn_closes r) then Execute (Some e) = 1
       else e = why \<and> Execute (Some e) \<in> {0, 1, 130, 143}
         \<and> (Execute (Some e) = 0 \<longrightarrow> why = errQuitQuitQuit \<and> cf_QuitQuitQuit conf \<or> why = errSigTermZero \<and> cf_ExitZeroOnSigterm conf)
         \<and> (Execute (Some e) = 130 \<longrightarrow> why = errSigInt)
         \<and> (Execute (Some e) = 143 \<longrightarrow> why = errSigTerm \<and> \<not> cf_ExitZeroOnSigterm conf))"
proof -
  obtain why where why: "rn_reason r = Some why" "reason_ok conf why"
    "if rn_client r then rn_closes r = [None] \<and> e = why \<or> (\<exists>es. rn_closes r = [Some (MultiErr es)] \<and> e = MultiErr es)
     else rn_closes r = [] \<and> e = why"
    using exited_result [OF assms] by blast
  show ?thesis
    using why reason_codes [OF why(2)]
    by (intro exI [of _ why]) (auto simp: Execute_reason reason_code_def [of "MultiErr _"] split: if_splits)
qed

section \<open>Sample runs\<close>

lemmas run_simps = init_run_def send_def spawnStart_def spawnServers_def run_step_def

definition up_run :: "Config \<Rightarrow> main_phase \<Rightarrow> bool \<Rightarrow> run" where
  "up_run conf m q = (spawnServers conf (init_run\<lparr>rn_senders := (rn_senders init_run)(FromSignal := Idle, FromStart := Idle),
     rn_start := StartDone, rn_client := True, rn_defers := [DoClose, DoCancel, DoCleanup], rn_sdNotify := [''READY=1'']\<rparr>))
     \<lparr>rn_main := m, rn_quitOnce := q\<rparr>"

text \<open>Without telemetry the proxy can start and bring its servers up.\<close>

lemma up_run_reached:
  assumes "\<not> telemetryOn conf"
  shows "(run_step conf)\<^sup>*\<^sup>* init_run (up_run conf ServersUp False)"
proof -
  let ?a = "spawnStart init_run" and ?b = "(spawnStart init_run)\<lparr>rn_start := StartReady\<rparr>"
  let ?c = "?b\<lparr>rn_main := Setup, rn_start := StartDone, rn_client := True, rn_defers := DoClose # rn_defers ?b,
       rn_sdNotify := rn_sdNotify ?b @ [''READY=1'']\<rparr>"
  have "run_step conf init_run ?a"
    using telemetry_off [of init_run conf] assms by (simp add: run_simps)
  moreover have "run_step conf ?a ?b"
    using start_ready [of ?a conf] by (simp add: run_simps)
  moreover have "run_step conf ?b ?c"
    using started [of ?b conf] by (simp add: run_step_def spawnStart_def)
  moreover have "run_step conf ?c (up_run conf ServersUp False)"
    using servers_up [of ?c conf] by (simp add: run_simps up_run_def)
  ultimately show ?thesis
    by (meson converse_rtranclp_into_rtranclp rtranclp.rtrancl_refl)
qed

lemma up_run_receiving:
  assumes "\<not> telemetryOn conf"
  shows "(run_step conf)\<^sup>*\<^sup>* init_run (up_run conf AtShutdown False)"
proof -
  have "run_step conf (up_run conf ServersUp False) (up_run conf AtShutdown False)"
    using receive [of "up_run conf ServersUp False" conf] by (simp add: run_simps up_run_def)
  with up_run_reached [OF assms] show ?thesis by (rule rtranclp.rtrancl_into_rtrancl)
qed

lemma telemetryOn_zero [simp]: "cf_TelemetryProject conf = [] \<Longrightarrow> \<not> telemetryOn conf"
  by (simp add: telemetryOn_def)

section \<open>Properties\<close>

text \<open>
  How the process ends, in every interleaving and even if its context is cancelled from
  outside: it exits for a reason that a library call or one of the goroutines gave; a client
  that has started is closed exactly once, one that has not started never; if closing
  succeeds, the exit code is that of the reason, so 0 only for \<open>/quitquitquit\<close>, if enabled, or a
  SIGTERM with \<open>--exit-zero-on-sigterm\<close>, 143 only for a SIGTERM without it, 130 for SIGINT and 1
  otherwise; and if closing fails, the exit code is 1 whatever the reason.
\<close>

theorem run_exit_codes:
  assumes "(env_step conf)\<^sup>*\<^sup>* init_run r" and "rn_main r = Exited e"
  shows "\<exists>why. rn_reason r = Some why
    \<and> length (rn_closes r) = (if rn_client r then 1 else 0)
    \<and> (if list_ex (\<lambda>x. x \<noteq> None) (rn_closes r) then Execute (Some e) = 1
       else e = why \<and> Execute (Some e) \<in> {0, 1, 130, 143}
         \<and> (Execute (Some e) = 0 \<longrightarrow> why = errQuitQuitQuit \<and> cf_QuitQuitQuit conf \<or> why = errSigTermZero \<and> cf_ExitZeroOnSigterm conf)
         \<and> (Execute (Some e) = 130 \<longrightarrow> why = errSigInt)
         \<and> (Execute (Some e) = 143 \<longrightarrow> why = errSigTerm \<and> \<not> cf_ExitZeroOnSigterm conf))"
  using exited_code [OF run_reachable_inv [OF assms(1)] assms(2)] .

text \<open>A run that a SIGINT interrupts before the client has started.\<close>

definition interrupted_run :: "main_phase \<Rightarrow> nat \<Rightarrow> run" where
  "interrupted_run m k = (spawnStart init_run)\<lparr>rn_main := m, rn_reason := Some errSigInt, rn_sdNotify := [''STOPPING=1''],
     rn_senders := (\<lambda>_. Unspawned)(FromSignal := Sent, FromStart := Idle), rn_ctx := (0 < k),
     rn_defers := drop k [DoCancel, DoCleanup], rn_done := take k [DoCancel, DoCleanup]\<rparr>"

lemma interrupted_reached: "\<not> telemetryOn conf \<Longrightarrow> (env_step conf)\<^sup>*\<^sup>* init_run (interrupted_run (Exited errSigInt) 2)"
proof (rule run_steps_env)
  assume tele: "\<not> telemetryOn conf"
  let ?a = "spawnStart init_run" and ?r = "interrupted_run (Returning errSigInt)"
  have "run_step conf init_run ?a"
    using telemetry_off [of init_run conf] tele by (simp add: run_simps)
  moreover have "run_step conf ?a (send FromSignal errSigInt ?a)"
    using signalled [of ?a conf SIGINT] by (simp add: run_simps signalError_def)
  moreover have "run_step conf (send FromSignal errSigInt ?a) (?r 0)"
    using interrupted [of "send FromSignal errSigInt ?a" FromSignal errSigInt conf]
    by (simp add: run_simps interrupted_run_def fun_upd_twist)
  moreover have "run_step conf (?r 0) (?r 1)"
    using deferred [of "?r 0" errSigInt DoCancel "[DoCleanup]" conf None] by (simp add: run_simps interrupted_run_def)
  moreover have "run_step conf (?r 1) (?r 2)"
    using deferred [of "?r 1" errSigInt DoCleanup "[]" conf None] by (simp add: run_simps interrupted_run_def)
  moreover have "run_step conf (?r 2) (interrupted_run (Exited errSigInt) 2)"
    using exited [of "?r 2" errSigInt conf] by (simp add: run_simps interrupted_run_def)
  ultimately show "(run_step conf)\<^sup>*\<^sup>* init_run (interrupted_run (Exited errSigInt) 2)"
    by (meson converse_rtranclp_into_rtranclp rtranclp.rtrancl_refl)
qed

theorem run_exit_codes_witness: "Execute (Some errSigInt) \<in> {0, 1, 130, 143}"
  using run_exit_codes [OF interrupted_reached [of zero_Config], of errSigInt]
  by (auto simp: interrupted_run_def run_simps zero_Config_def)

text \<open>
  C23. The order of shutdown. When the process has exited, every deferred call that was
  registered has been made exactly once, in the reverse order: first the health check is told
  that the proxy stops (if serving had begun), then the client is closed (if it had started),
  then the telemetry is flushed and stopped (if it was set up), then the context is cancelled
  and the command cleaned up. The calls into the telemetry library are the set-up, followed by
  flush and stop.
\<close>

theorem run_shutdown_order:
  assumes "(env_step conf)\<^sup>*\<^sup>* init_run r" and "rn_main r = Exited e"
  shows "rn_done r = (if rn_senders r FromServe \<noteq> Unspawned then [DoStopped] else []) @ (if rn_client r then [DoClose] else [])
      @ (if telemetryOn conf \<and> rn_senders r FromStart \<noteq> Unspawned then [DoFlush] else []) @ [DoCancel, DoCleanup]
    \<and> rn_defers r = [] \<and> rn_ctx r
    \<and> (rn_senders r FromStart \<noteq> Unspawned \<longrightarrow>
        rn_telemetry r = (if telemetryOn conf then setupTelemetry conf @ [Flush, StopMetricsExporter] else []))"
proof -
  have inv: "run_inv conf r" using assms(1) by (rule run_reachable_inv)
  then have fin: "rn_done r = registered (served r) (rn_client r) (exporting conf r)" "rn_defers r = []"
    using assms(2) by (auto simp: run_inv_def)
  have "rn_ctx r" using inv fin(1) by (simp add: run_inv_def registered_def)
  moreover have "telemetry_ok conf (rn_senders r FromStart \<noteq> Unspawned) (exporting conf r) (rn_telemetry r)"
    using inv fin(1) unfolding run_inv_def by (simp add: registered_members)
  ultimately show ?thesis using fin by (auto simp: registered_def telemetry_ok_def)
qed

theorem run_shutdown_order_witness:
  "rn_done (interrupted_run (Exited errSigInt) 2) = [DoCancel, DoCleanup]"
  using run_shutdown_order [OF interrupted_reached [of zero_Config], of errSigInt]
  by (simp add: interrupted_run_def run_simps zero_Config_def)

text \<open>While readiness is reported, no deferred call has run.\<close>

lemma ready_not_stopped:
  assumes "run_inv conf r" and "cf_HealthCheck conf" and "fst (HandleReadiness counts (rn_check r)) = 200"
  shows "served r" "rn_client r" "rn_done r = []" "hd (rn_defers r) = DoStopped"
proof -
  have ck: "ck_started (rn_check r)" "\<not> ck_stopped (rn_check r)"
    using assms(3) by (auto simp: HandleReadiness_def split: if_splits)
  then show s: "served r" "rn_client r" using run_invD(9,10) [OF assms(1)] by auto
  then have "rn_done r @ rn_defers r = DoStopped # DoClose # (if exporting conf r then [DoFlush] else []) @ [DoCancel, DoCleanup]"
    using run_invD(1) [OF assms(1)] by (simp add: registered_def)
  moreover have "DoStopped \<notin> set (rn_done r)"
    using run_invD(6) [OF assms(1)] ck assms(2) by (auto simp: check_ok_def)
  ultimately show "rn_done r = []" "hd (rn_defers r) = DoStopped" by (auto simp: append_eq_Cons_conv)
qed

text \<open>
  A proxy that reports ready is not being shut down: as long as the readiness endpoint
  answers 200, the client has started and is open, and no deferred call has been made. So the
  endpoint refuses before the client begins to close.
\<close>

theorem ready_means_open:
  assumes "(env_step conf)\<^sup>*\<^sup>* init_run r" and "cf_HealthCheck conf"
    and "fst (HandleReadiness counts (rn_check r)) = 200"
  shows "rn_client r \<and> rn_closes r = [] \<and> rn_done r = [] \<and> (\<forall>e. rn_main r \<noteq> Exited e)"
proof -
  have inv: "run_inv conf r" using assms(1) by (rule run_reachable_inv)
  note ready = ready_not_stopped [OF inv assms(2,3)]
  then have "rn_defers r \<noteq> []" using run_invD(1) [OF inv] by (auto simp: registered_def)
  with ready run_invD(2,5) [OF inv] show ?thesis by (cases "rn_main r") (auto simp: result_ok_def)
qed

lemma ready_run_reached:
  assumes "\<not> telemetryOn conf" and "cf_HealthCheck conf"
  shows "(run_step conf)\<^sup>*\<^sup>* init_run ((up_run conf ServersUp False)\<lparr>rn_check := NewCheck\<lparr>ck_startedOnce := True, ck_started := True\<rparr>\<rparr>)"
proof -
  have "other_step conf (up_run conf ServersUp False)
      ((up_run conf ServersUp False)\<lparr>rn_check := NewCheck\<lparr>ck_startedOnce := True, ck_started := True\<rparr>\<rparr>)"
    by (rule serving) (use assms(2) in \<open>simp_all add: up_run_def run_simps NotifyStarted_def NewCheck_def close_chan_def\<close>)
  with up_run_reached [OF assms(1)] show ?thesis
    by (meson rtranclp.rtrancl_into_rtrancl run_step_def)
qed

theorem ready_means_open_witness:
  "rn_done ((up_run (zero_Config\<lparr>cf_HealthCheck := True\<rparr>) ServersUp False)\<lparr>rn_check := NewCheck\<lparr>ck_startedOnce := True, ck_started := True\<rparr>\<rparr>) = []"
  using ready_means_open [OF run_steps_env [OF ready_run_reached], of "zero_Config\<lparr>cf_HealthCheck := True\<rparr>" "(0, 0)"]
  by (simp add: zero_Config_def HandleReadiness_def NewCheck_def)

text \<open>
  Without cancellation from outside, the context ends only in the deferred call.
\<close>

definition http_inv :: "run \<Rightarrow> bool" where
  "http_inv r \<longleftrightarrow> (rn_ctx r \<longrightarrow> DoCancel \<in> set (rn_done r)) \<and> (\<forall>src. rn_http r src = ShutDown \<longrightarrow> rn_ctx r)"

lemma http_inv_other: "http_inv r \<Longrightarrow> other_step conf r r' \<Longrightarrow> http_inv r'"
  by (cases rule: other_step.cases, assumption)
    (auto simp: http_inv_def send_def quitquitquit_def split: if_splits)

lemma http_inv_deferred:
  assumes "http_inv r" and "run_deferred conf closeErr e d (r\<lparr>rn_defers := ds, rn_done := rn_done r @ [d]\<rparr>) = Ok r'"
  shows "http_inv r'"
  using assms by (cases d) (auto simp: http_inv_def NotifyStopped_def close_chan_def split: if_splits)

lemma http_inv_main: "http_inv r \<Longrightarrow> main_step conf r r' \<Longrightarrow> http_inv r'"
proof (erule main_step.cases)
  show "http_inv r'" if "http_inv r" "r = ra" "r' = rb" "rn_main ra = Returning e" "rn_defers ra = d # ds"
    "run_deferred conf closeErr e d (ra\<lparr>rn_defers := ds, rn_done := rn_done ra @ [d]\<rparr>) = Ok rb" for ra e d ds closeErr rb
    using that http_inv_deferred by blast
qed (auto simp: http_inv_def spawnStart_def spawnServers_def)

interpretation endpoints: step_invariant "run_step conf" http_inv for conf
  by unfold_locales (auto simp: run_step_def intro: http_inv_main http_inv_other)

text \<open>
  The endpoints outlive the client: in a process whose context is not cancelled from
  outside, an HTTP server is shut down only after the client has been closed, so the health
  check and the admin endpoints answer while connections drain.
\<close>

theorem endpoints_outlive_client:
  assumes "(run_step conf)\<^sup>*\<^sup>* init_run r" and "rn_http r src = ShutDown"
  shows "DoCancel \<in> set (rn_done r) \<and> (rn_client r \<longrightarrow> length (rn_closes r) = 1)"
proof -
  have "http_inv r" using assms(1) by (rule endpoints.inv_steps) (simp add: http_inv_def init_run_def)
  then have c: "DoCancel \<in> set (rn_done r)" using assms(2) by (auto simp: http_inv_def)
  have inv: "run_inv conf r" using run_reachable_inv [OF run_steps_env [OF assms(1)]] .
  have "length (rn_closes r) = 1" if "rn_client r"
  proof -
    have "DoClose \<in> set (rn_done r)"
      using inv c that by (auto simp: run_inv_def registered_def append_eq_append_conv2 append_eq_Cons_conv Cons_eq_append_conv split: if_splits)
    then show ?thesis using inv by (cases "rn_main r") (auto simp: run_inv_def result_ok_def)
  qed
  with c show ?thesis by blast
qed

section \<open>The process returns\<close>

text \<open>The steps the main goroutine has left once the result is set.\<close>

definition remaining :: "run \<Rightarrow> nat" where
  "remaining r = (case rn_main r of
     Sleeping _ \<Rightarrow> length (rn_defers r) + 2 | Returning _ \<Rightarrow> length (rn_defers r) + 1 | _ \<Rightarrow> 0)"

lemma remaining_le:
  assumes "run_inv conf r"
  shows "remaining r \<le> 7"
proof -
  have "length (rn_done r @ rn_defers r) \<le> 5" unfolding run_invD(1) [OF assms] by (simp add: registered_def)
  then show ?thesis by (auto simp: remaining_def split: main_phase.splits)
qed

lemma reason_phase:
  assumes "run_inv conf r" and "rn_reason r \<noteq> None"
  shows "\<exists>e. rn_main r \<in> {Sleeping e, Returning e, Exited e}"
  using run_invD(5) [OF assms(1)] assms(2) by (cases "rn_main r") auto

lemma deferred_runs:
  assumes "run_inv conf r" and "rn_defers r = d # ds"
  shows "\<exists>r'. run_deferred conf None e d (r\<lparr>rn_defers := ds, rn_done := rn_done r @ [d]\<rparr>) = Ok r'
    \<and> rn_http r' = rn_http r \<and> rn_reason r' = rn_reason r \<and> rn_defers r' = ds \<and> (rn_main r = Returning e \<longrightarrow> rn_main r' = Returning e)"
  using NotifyStopped_ok [OF run_invD(6) [OF assms(1)]] due_not_done [OF assms] by (cases d) auto

lemma main_progress:
  assumes "run_inv conf r" and "0 < remaining r"
  shows "\<exists>r'. main_step conf r r' \<and> rn_http r' = rn_http r \<and> rn_reason r' = rn_reason r \<and> remaining r' < remaining r"
proof -
  consider e where "rn_main r = Sleeping e" | e d ds where "rn_main r = Returning e" "rn_defers r = d # ds"
    | e where "rn_main r = Returning e" "rn_defers r = []"
    using assms(2) by (cases "rn_main r"; cases "rn_defers r") (auto simp: remaining_def)
  then show ?thesis
  proof cases
    case (1 e)
    then have "main_step conf r (r\<lparr>rn_main := Returning e\<rparr>)" by (rule slept)
    with 1 show ?thesis by (intro exI [of _ "r\<lparr>rn_main := Returning e\<rparr>"]) (simp add: remaining_def)
  next
    case (2 e d ds)
    then obtain r' where "run_deferred conf None e d (r\<lparr>rn_defers := ds, rn_done := rn_done r @ [d]\<rparr>) = Ok r'"
      "rn_http r' = rn_http r" "rn_reason r' = rn_reason r" "rn_defers r' = ds" "rn_main r' = Returning e"
      using deferred_runs [OF assms(1) 2(2), of e] by blast
    then show ?thesis using deferred [OF 2] 2 by (intro exI [of _ r']) (simp add: remaining_def)
  next
    case (3 e)
    then have "main_step conf r (r\<lparr>rn_main := Exited e\<rparr>)" by (rule exited)
    with 3 show ?thesis by (intro exI [of _ "r\<lparr>rn_main := Exited e\<rparr>"]) (simp add: remaining_def)
  qed
qed

lemma run_deferred_shape:
  "run_deferred conf closeErr e d r = Ok r' \<Longrightarrow> rn_main r = Returning e \<Longrightarrow>
   rn_defers r' = rn_defers r \<and> (\<exists>e'. rn_main r' = Returning e')"
  by (cases d) (auto simp: NotifyStopped_def close_chan_def split: if_splits)

lemma main_step_remaining:
  assumes "main_step conf r r'" and "rn_main r \<in> {Sleeping e, Returning e, Exited e}"
  shows "remaining r' < remaining r"
  using assms
proof (cases rule: main_step.cases)
  case (deferred e' d ds closeErr)
  with run_deferred_shape [OF deferred(3)] show ?thesis by (auto simp: remaining_def)
qed (auto simp: remaining_def)

lemma other_step_frame:
  assumes "other_step conf r r'" and "rn_main r \<noteq> AtShutdown"
  shows "rn_main r' = rn_main r \<and> rn_defers r' = rn_defers r"
  using assms
proof (cases rule: other_step.cases)
  case (quit meth status)
  then show ?thesis using assms(2) by (auto simp: quitquitquit_def split: if_splits)
qed (simp_all add: send_def)

lemma finish_run:
  assumes "run_inv conf r" and "rn_reason r \<noteq> None"
  shows "\<exists>r' e. (run_step conf)\<^sup>*\<^sup>* r r' \<and> rn_main r' = Exited e \<and> rn_http r' = rn_http r"
  using assms
proof (induction "remaining r" arbitrary: r rule: less_induct)
  case less
  show ?case
  proof (cases "remaining r = 0")
    case True
    then have "\<exists>e. rn_main r = Exited e" using reason_phase [OF less.prems] by (auto simp: remaining_def)
    then show ?thesis by blast
  next
    case False
    then obtain r1 where r1: "main_step conf r r1" "rn_http r1 = rn_http r" "rn_reason r1 = rn_reason r" "remaining r1 < remaining r"
      using main_progress [OF less.prems(1)] by auto
    with less.hyps [OF r1(4) run_inv_main [OF less.prems(1) r1(1)]] less.prems(2) show ?thesis
      by (metis converse_rtranclp_into_rtranclp run_step_def)
  qed
qed

text \<open>
  Once a reason to stop is known, the process exits: the main goroutine has at most seven
  steps left, always has the next one available, whatever the other goroutines do, and no step
  of any goroutine adds to them; when none is left, it has exited. (The sleep and \<open>Close\<close> count
  as one step each; that \<open>Close\<close> returns is shown in \<open>Process_Close\<close>.)
\<close>

theorem run_returns:
  assumes "(env_step conf)\<^sup>*\<^sup>* init_run r" and "rn_reason r \<noteq> None"
  shows "remaining r \<le> 7
    \<and> (if remaining r = 0 then \<exists>e. rn_main r = Exited e else \<exists>r'. main_step conf r r' \<and> remaining r' < remaining r)
    \<and> (\<forall>r'. env_step conf r r' \<longrightarrow> remaining r' \<le> remaining r)"
proof -
  have inv: "run_inv conf r" using assms(1) by (rule run_reachable_inv)
  obtain e where e: "rn_main r \<in> {Sleeping e, Returning e, Exited e}" using reason_phase [OF inv assms(2)] by blast
  have "remaining r \<le> 7" using inv by (rule remaining_le)
  moreover have "if remaining r = 0 then \<exists>e. rn_main r = Exited e else \<exists>r'. main_step conf r r' \<and> remaining r' < remaining r"
    using e main_progress [OF inv] by (auto simp: remaining_def)
  moreover have "remaining r' \<le> remaining r" if "env_step conf r r'" for r'
    using that
  proof (cases rule: env_step_cases)
    case main
    then show ?thesis using main_step_remaining [OF _ e] by (simp add: less_imp_le)
  next
    case other
    then have "rn_main r' = rn_main r \<and> rn_defers r' = rn_defers r" using e by (intro other_step_frame) auto
    then show ?thesis by (simp add: remaining_def cong: main_phase.case_cong)
  qed (simp add: remaining_def cancel_ctx_def cong: main_phase.case_cong)
  ultimately show ?thesis by blast
qed

theorem run_returns_witness: "remaining (interrupted_run (Exited errSigInt) 2) \<le> 7"
  using run_returns [OF interrupted_reached [of zero_Config]] by (simp add: interrupted_run_def zero_Config_def)

text \<open>A proxy with a health check that has been shut down, endpoints included.\<close>

lemma shut_down_reached:
  assumes "\<not> telemetryOn conf" and "cf_HealthCheck conf"
  shows "\<exists>r. (run_step conf)\<^sup>*\<^sup>* init_run r \<and> rn_http r FromHTTP = ShutDown"
proof -
  let ?a = "up_run conf AtShutdown False" and ?b = "send FromSignal errSigInt (up_run conf AtShutdown False)"
  let ?c = "?b\<lparr>rn_main := afterReceive errSigInt, rn_senders := (rn_senders ?b)(FromSignal := Sent), rn_reason := Some errSigInt\<rparr>"
  have "run_step conf ?a ?b"
    using signalled [of ?a conf SIGINT] by (simp add: run_simps up_run_def signalError_def)
  moreover have "run_step conf ?b ?c"
    using received [of ?b FromSignal errSigInt conf] by (simp add: run_step_def send_def up_run_def)
  ultimately have c: "(run_step conf)\<^sup>*\<^sup>* init_run ?c"
    using up_run_receiving [OF assms(1)] by (meson rtranclp.rtrancl_into_rtrancl)
  obtain r e where r: "(run_step conf)\<^sup>*\<^sup>* ?c r" "rn_main r = Exited e" "rn_http r = rn_http ?c"
    using finish_run [OF run_reachable_inv [OF run_steps_env [OF c]]] by auto
  have reach: "(run_step conf)\<^sup>*\<^sup>* init_run r" using c r(1) by (rule rtranclp_trans)
  have "rn_ctx r" using run_reachable_inv [OF run_steps_env [OF reach]] r(2) by (auto simp: run_inv_def registered_def)
  moreover have "rn_http r FromHTTP = Listening" using assms(2) r(3) by (simp add: run_simps up_run_def needsHTTPServer_def)
  ultimately have "run_step conf r (r\<lparr>rn_http := (rn_http r)(FromHTTP := ShutDown)\<rparr>)"
    using http_shutdown [of r FromHTTP conf] by (simp add: run_step_def)
  with reach show ?thesis by (intro exI conjI, rule rtranclp.rtrancl_into_rtrancl) auto
qed

theorem endpoints_outlive_client_witness:
  "\<exists>r. (run_step (zero_Config\<lparr>cf_HealthCheck := True\<rparr>))\<^sup>*\<^sup>* init_run r \<and> rn_http r FromHTTP = ShutDown \<and> DoCancel \<in> set (rn_done r)"
proof -
  have "\<not> telemetryOn (zero_Config\<lparr>cf_HealthCheck := True\<rparr>)" by (simp add: zero_Config_def)
  then obtain r where "(run_step (zero_Config\<lparr>cf_HealthCheck := True\<rparr>))\<^sup>*\<^sup>* init_run r" "rn_http r FromHTTP = ShutDown"
    using shut_down_reached [of "zero_Config\<lparr>cf_HealthCheck := True\<rparr>"] by auto
  with endpoints_outlive_client [OF this] show ?thesis by blast
qed

text \<open>
  C39. A \<open>/quitquitquit\<close> request can be lost: one that arrives after the admin server is up but
  before the main goroutine receives uses up the once-guard without effect. There is a
  reachable state in which the proxy runs and has no reason to stop, a request was accepted,
  no further request has any effect, and yet the \<open>shutdown\<close> command reports success.
\<close>

theorem quitquitquit_lost:
  assumes "cf_QuitQuitQuit conf" and "\<not> telemetryOn conf"
  shows "\<exists>r. (run_step conf)\<^sup>*\<^sup>* init_run r \<and> rn_main r = AtShutdown \<and> rn_quitOnce r \<and> rn_reason r = None
    \<and> (\<forall>src. rn_senders r src \<in> {Idle, Unspawned}) \<and> (\<forall>meth. snd (quitquitquit meth r) = r)
    \<and> (\<forall>p. runShutdownCmd (\<lambda>_. None) (\<lambda>_. Ok (quit_status (fst (quitquitquit ''POST'' r)), [])) p = Ok None)"
proof -
  have "run_step conf (up_run conf ServersUp False) (up_run conf ServersUp True)"
  proof -
    have "other_step conf (up_run conf ServersUp False) (up_run conf ServersUp True)"
      by (rule quit [of _ _ "''GET''" None])
        (use assms(1) in \<open>simp_all add: up_run_def run_simps quitquitquit_def needsAdminServer_def\<close>)
    then show ?thesis by (simp add: run_step_def)
  qed
  moreover have "run_step conf (up_run conf ServersUp True) (up_run conf AtShutdown True)"
    using receive [of "up_run conf ServersUp True" conf] by (simp add: run_simps up_run_def)
  ultimately have "(run_step conf)\<^sup>*\<^sup>* init_run (up_run conf AtShutdown True)"
    using up_run_reached [OF assms(2)] by (meson rtranclp.rtrancl_into_rtrancl)
  then show ?thesis
    by (intro exI [of _ "up_run conf AtShutdown True"])
      (simp add: quitquitquit_def quit_status_def runShutdownCmd_def up_run_def run_simps)
qed

theorem quitquitquit_lost_witness:
  "\<exists>r. (run_step (zero_Config\<lparr>cf_QuitQuitQuit := True\<rparr>))\<^sup>*\<^sup>* init_run r \<and> rn_main r = AtShutdown \<and> rn_quitOnce r"
  using quitquitquit_lost [of "zero_Config\<lparr>cf_QuitQuitQuit := True\<rparr>"] by (auto simp: zero_Config_def)

end
