(* ===== verification/Proxy_Conn.thy ===== *)
theory Proxy_Conn
  imports Errors "HOL-Library.Sublist"
begin

text \<open>
  The bidirectional copy of one connection (internal/proxy/proxy.go, \<open>proxyConn\<close>, lines
  1012-1077). Two loops run concurrently, one per direction, and share a \<open>sync.Once\<close> whose
  function closes both connections and logs. A step is one \<open>Read\<close>, one \<open>Write\<close>, entering the
  \<open>Once\<close>, one of the three calls of its function, or passing the \<open>Once\<close> that has run. The network is free within the contract of \<open>net.Conn\<close>: \<open>Read\<close> fills at most the
  buffer, \<open>Write\<close> returns an error when it accepts fewer bytes than given, and both fail on
  a closed connection.
\<close>

section \<open>State and steps\<close>

type_synonym byte = "8 word"

text \<open>
  \<open>Up\<close> copies from the client to the server, \<open>Down\<close> from the server to the client. A loop that
  failed is in \<open>cleanup\<close> with its description of the failure: before \<open>o.Do\<close> lets it in or through
  (\<open>Cleaning\<close>), or inside the function, before \<open>client.Close\<close>, before \<open>server.Close\<close>, before the log.
\<close>

datatype direction = Up | Down

datatype copy_phase =
    Reading
  | Writing "byte list" "go_error option"
  | Cleaning string bool
  | ClosingClient string bool
  | ClosingServer string bool
  | Logging string bool
  | Returned

text \<open>\<open>sync.Once\<close>: the function was not called, is being run by one of the loops, or has returned.\<close>

datatype once = NotRun | RunBy direction | HasRun

record copier =
  cp_phase :: copy_phase
  cp_read :: "byte list"
  cp_written :: "byte list"

record pipe =
  pp_copier :: "direction \<Rightarrow> copier"
  pp_once :: once
  pp_client_closes :: nat
  pp_server_closes :: nat
  pp_log :: "(bool \<times> string) list"

definition init_pipe :: pipe where
  "init_pipe = \<lparr>pp_copier = (\<lambda>_. \<lparr>cp_phase = Reading, cp_read = [], cp_written = []\<rparr>),
     pp_once = NotRun, pp_client_closes = 0, pp_server_closes = 0, pp_log = []\<rparr>"

definition buf_size :: nat where
  "buf_size = 8 * 1024"

definition src_closed :: "direction \<Rightarrow> pipe \<Rightarrow> bool" where
  "src_closed d p \<longleftrightarrow> 0 < (case d of Up \<Rightarrow> pp_client_closes p | Down \<Rightarrow> pp_server_closes p)"

definition dst_closed :: "direction \<Rightarrow> pipe \<Rightarrow> bool" where
  "dst_closed d p \<longleftrightarrow> 0 < (case d of Up \<Rightarrow> pp_server_closes p | Down \<Rightarrow> pp_client_closes p)"

text \<open>The switch at the end of both loop bodies: the description of the failure, if any.\<close>

definition src_name :: "direction \<Rightarrow> string" where
  "src_name d = (case d of Up \<Rightarrow> ''client'' | Down \<Rightarrow> ''instance'')"

definition dst_name :: "direction \<Rightarrow> string" where
  "dst_name d = (case d of Up \<Rightarrow> ''instance'' | Down \<Rightarrow> ''client'')"

definition copy_verdict :: "direction \<Rightarrow> string \<Rightarrow> go_error option \<Rightarrow> go_error option \<Rightarrow> (string \<times> bool) option" where
  "copy_verdict d inst rErr wErr =
     (let pre = ''['' @ inst @ ''] '' in
      case rErr of
        Some e \<Rightarrow>
          if e = EOF then Some (pre @ src_name d @ '' closed the connection'', False)
          else Some (pre @ ''connection aborted - error reading from '' @ src_name d @ '': '' @ Error e, True)
      | None \<Rightarrow>
          (case wErr of
             Some e \<Rightarrow>
               if e = EOF then Some (pre @ dst_name d @ '' closed the connection'', False)
               else Some (pre @ ''connection aborted - error writing to '' @ dst_name d @ '': '' @ Error e, True)
           | None \<Rightarrow> None))"

definition after_copy :: "direction \<Rightarrow> string \<Rightarrow> go_error option \<Rightarrow> go_error option \<Rightarrow> copy_phase" where
  "after_copy d inst rErr wErr =
     (case copy_verdict d inst rErr wErr of None \<Rightarrow> Reading | Some (desc, isErr) \<Rightarrow> Cleaning desc isErr)"

definition set_copier :: "direction \<Rightarrow> copier \<Rightarrow> pipe \<Rightarrow> pipe" where
  "set_copier d c p = p\<lparr>pp_copier := (pp_copier p)(d := c)\<rparr>"

definition set_phase :: "direction \<Rightarrow> copy_phase \<Rightarrow> pipe \<Rightarrow> pipe" where
  "set_phase d ph p = set_copier d ((pp_copier p d)\<lparr>cp_phase := ph\<rparr>) p"

text \<open>
  \<open>o.Do\<close> lets the first caller into the function; a later one waits until the function has
  returned, and then returns without running it.
\<close>

inductive proxy_step :: "string \<Rightarrow> pipe \<Rightarrow> pipe \<Rightarrow> bool" for inst :: string where
  read: "c = pp_copier p d \<Longrightarrow> cp_phase c = Reading \<Longrightarrow> length bs \<le> buf_size \<Longrightarrow>
     (src_closed d p \<Longrightarrow> bs = [] \<and> rErr \<noteq> None) \<Longrightarrow>
     proxy_step inst p (set_copier d
       (c\<lparr>cp_read := cp_read c @ bs,
          cp_phase := (if bs \<noteq> [] then Writing bs rErr else after_copy d inst rErr None)\<rparr>) p)"
| write_some: "c = pp_copier p d \<Longrightarrow> cp_phase c = Writing bs rErr \<Longrightarrow> m \<le> length bs \<Longrightarrow>
     (m < length bs \<Longrightarrow> wErr \<noteq> None) \<Longrightarrow> (dst_closed d p \<Longrightarrow> m = 0 \<and> wErr \<noteq> None) \<Longrightarrow>
     proxy_step inst p (set_copier d
       (c\<lparr>cp_written := cp_written c @ take m bs, cp_phase := after_copy d inst rErr wErr\<rparr>) p)"
| enter: "cp_phase (pp_copier p d) = Cleaning desc isErr \<Longrightarrow> pp_once p = NotRun \<Longrightarrow>
     proxy_step inst p (set_phase d (ClosingClient desc isErr) (p\<lparr>pp_once := RunBy d\<rparr>))"
| close_client: "cp_phase (pp_copier p d) = ClosingClient desc isErr \<Longrightarrow>
     proxy_step inst p (set_phase d (ClosingServer desc isErr) (p\<lparr>pp_client_closes := Suc (pp_client_closes p)\<rparr>))"
| close_server: "cp_phase (pp_copier p d) = ClosingServer desc isErr \<Longrightarrow>
     proxy_step inst p (set_phase d (Logging desc isErr) (p\<lparr>pp_server_closes := Suc (pp_server_closes p)\<rparr>))"
| log: "cp_phase (pp_copier p d) = Logging desc isErr \<Longrightarrow>
     proxy_step inst p (set_phase d Returned (p\<lparr>pp_log := pp_log p @ [(isErr, desc)], pp_once := HasRun\<rparr>))"
| pass: "cp_phase (pp_copier p d) = Cleaning desc isErr \<Longrightarrow> pp_once p = HasRun \<Longrightarrow>
     proxy_step inst p (set_phase d Returned p)"

section \<open>Invariant\<close>

fun copier_inv :: "copy_phase \<Rightarrow> byte list \<Rightarrow> byte list \<Rightarrow> bool" where
  "copier_inv Reading r w = (w = r)"
| "copier_inv (Writing bs e) r w = (bs \<noteq> [] \<and> length bs \<le> buf_size \<and> w @ bs = r)"
| "copier_inv _ r w = (prefix w r \<and> length r \<le> length w + buf_size)"

text \<open>The part of the function that is done, by where the loop that runs it is.\<close>

fun inside :: "copy_phase \<Rightarrow> bool" where
  "inside (ClosingClient _ _) = True"
| "inside (ClosingServer _ _) = True"
| "inside (Logging _ _) = True"
| "inside _ = False"

fun closes_at :: "copy_phase \<Rightarrow> nat \<times> nat" where
  "closes_at (ClosingServer _ _) = (1, 0)"
| "closes_at (Logging _ _) = (1, 1)"
| "closes_at _ = (0, 0)"

fun once_ok :: "once \<Rightarrow> pipe \<Rightarrow> bool" where
  "once_ok NotRun p \<longleftrightarrow> (\<forall>d. \<not> inside (cp_phase (pp_copier p d)) \<and> cp_phase (pp_copier p d) \<noteq> Returned)
     \<and> pp_client_closes p = 0 \<and> pp_server_closes p = 0 \<and> pp_log p = []"
| "once_ok (RunBy d) p \<longleftrightarrow> (\<forall>e. (inside (cp_phase (pp_copier p e)) \<longleftrightarrow> e = d) \<and> cp_phase (pp_copier p e) \<noteq> Returned)
     \<and> (pp_client_closes p, pp_server_closes p) = closes_at (cp_phase (pp_copier p d)) \<and> pp_log p = []"
| "once_ok HasRun p \<longleftrightarrow> (\<forall>d. \<not> inside (cp_phase (pp_copier p d))) \<and> (\<exists>d. cp_phase (pp_copier p d) = Returned)
     \<and> pp_client_closes p = 1 \<and> pp_server_closes p = 1 \<and> length (pp_log p) = 1"

definition pipe_inv :: "pipe \<Rightarrow> bool" where
  "pipe_inv p \<longleftrightarrow>
     (\<forall>d. copier_inv (cp_phase (pp_copier p d)) (cp_read (pp_copier p d)) (cp_written (pp_copier p d)))
     \<and> once_ok (pp_once p) p"

lemma after_copy_cases:
  "after_copy d inst rErr wErr = Reading \<and> rErr = None \<and> wErr = None
   \<or> (\<exists>m b. after_copy d inst rErr wErr = Cleaning m b) \<and> (rErr \<noteq> None \<or> wErr \<noteq> None)"
  by (auto simp: after_copy_def copy_verdict_def Let_def split: option.splits)

text \<open>A write of part of the buffer leaves a good state, because a short write is an error.\<close>

lemma copier_inv_after:
  assumes "w @ bs = r" and "length bs \<le> buf_size" and "m \<le> length bs"
    and "m < length bs \<Longrightarrow> wErr \<noteq> None"
  shows "copier_inv (after_copy d inst rErr wErr) r (w @ take m bs)"
proof -
  have "r = (w @ take m bs) @ drop m bs" and "length (drop m bs) \<le> buf_size"
    using assms(1,2) by simp_all
  then have "prefix (w @ take m bs) r \<and> length r \<le> length (w @ take m bs) + buf_size"
    by (metis add_le_cancel_left length_append prefixI)
  moreover have "w @ take m bs = r" if "wErr = None" using assms that by (cases "m < length bs") auto
  ultimately show ?thesis using after_copy_cases [of d inst rErr wErr] by auto
qed

lemma after_copy_not_Returned [simp]: "after_copy d inst rErr wErr \<noteq> Returned"
  using after_copy_cases [of d inst rErr wErr] by auto

lemma pipe_inv_init: "pipe_inv init_pipe"
  by (simp add: pipe_inv_def init_pipe_def)

lemma set_copier_simps [simp, frame]:
  "pp_once (set_copier d c p) = pp_once p" "pp_log (set_copier d c p) = pp_log p"
  "pp_client_closes (set_copier d c p) = pp_client_closes p"
  "pp_server_closes (set_copier d c p) = pp_server_closes p"
  "pp_copier (set_copier d c p) = (pp_copier p)(d := c)"
  by (simp_all add: set_copier_def)

lemma set_copier_set_copier [simp]: "set_copier d c (set_copier d c' p) = set_copier d c p"
  by (simp add: set_copier_def)

lemma set_phase_simps [simp, frame]:
  "pp_once (set_phase d ph p) = pp_once p" "pp_log (set_phase d ph p) = pp_log p"
  "pp_client_closes (set_phase d ph p) = pp_client_closes p"
  "pp_server_closes (set_phase d ph p) = pp_server_closes p"
  "pp_copier (set_phase d ph p) = (pp_copier p)(d := (pp_copier p d)\<lparr>cp_phase := ph\<rparr>)"
  by (simp_all add: set_phase_def)

lemma after_copy_not_inside [simp]: "\<not> inside (after_copy d inst rErr wErr)"
  using after_copy_cases [of d inst rErr wErr] by auto

lemma all_direction: "(\<forall>d. P d) \<longleftrightarrow> P Up \<and> P Down" "(\<exists>d. P d) \<longleftrightarrow> P Up \<or> P Down"
  by (metis direction.exhaust)+

text \<open>A loop outside \<open>cleanup\<close> leaves the \<open>Once\<close> alone.\<close>

lemma once_ok_copying:
  assumes "once_ok x p" and "\<not> inside (cp_phase (pp_copier p d))" and "cp_phase (pp_copier p d) \<noteq> Returned"
    and "\<not> inside (cp_phase c)" and "cp_phase c \<noteq> Returned"
  shows "once_ok x (set_copier d c p)"
  using assms by (cases x) auto

lemma pipe_inv_set_copier:
  assumes "pipe_inv p" and "\<not> inside (cp_phase (pp_copier p d))" and "cp_phase (pp_copier p d) \<noteq> Returned"
    and "copier_inv (cp_phase c) (cp_read c) (cp_written c)" and "\<not> inside (cp_phase c)" and "cp_phase c \<noteq> Returned"
  shows "pipe_inv (set_copier d c p)"
  using assms once_ok_copying [of "pp_once p" p d c] by (simp add: pipe_inv_def)

lemma pipe_inv_copier:
  "pipe_inv p \<Longrightarrow> cp_phase (pp_copier p d) = ph \<Longrightarrow> copier_inv ph (cp_read (pp_copier p d)) (cp_written (pp_copier p d))"
  by (auto simp: pipe_inv_def)

lemma inside_once: "once_ok x p \<Longrightarrow> inside (cp_phase (pp_copier p d)) \<Longrightarrow> x = RunBy d"
  by (cases x) auto

lemma proxy_step_inv:
  assumes "pipe_inv p" and "proxy_step inst p q"
  shows "pipe_inv q"
  using assms(2)
proof (cases rule: proxy_step.cases)
  case (read c d bs rErr)
  with pipe_inv_copier [OF assms(1), of d] after_copy_cases [of d inst rErr None] show ?thesis
    by (auto intro!: pipe_inv_set_copier [OF assms(1)])
next
  case (write_some c d bs rErr m wErr)
  have inv: "bs \<noteq> []" "length bs \<le> buf_size" "cp_written c @ bs = cp_read c"
    using pipe_inv_copier [OF assms(1), of d "Writing bs rErr"] write_some by simp_all
  from copier_inv_after [OF inv(3,2), of m wErr d inst rErr] write_some show ?thesis
    by (auto intro!: pipe_inv_set_copier [OF assms(1)])
next
  case (enter d desc isErr)
  with pipe_inv_copier [OF assms(1) enter(2)] assms(1) show ?thesis by (auto simp: pipe_inv_def)
next
  case (close_client d desc isErr)
  with inside_once [of "pp_once p" p d] pipe_inv_copier [OF assms(1) close_client(2)] assms(1) show ?thesis
    by (auto simp: pipe_inv_def)
next
  case (close_server d desc isErr)
  with inside_once [of "pp_once p" p d] pipe_inv_copier [OF assms(1) close_server(2)] assms(1) show ?thesis
    by (auto simp: pipe_inv_def)
next
  case (log d desc isErr)
  with inside_once [of "pp_once p" p d] pipe_inv_copier [OF assms(1) log(2)] assms(1) show ?thesis
    by (auto simp: pipe_inv_def)
next
  case (pass d desc isErr)
  with pipe_inv_copier [OF assms(1) pass(2)] assms(1) show ?thesis by (auto simp: pipe_inv_def)
qed

interpretation pipe: step_invariant "proxy_step inst" pipe_inv for inst
  by unfold_locales (rule proxy_step_inv)

lemma proxy_reachable_inv: "(proxy_step inst)\<^sup>*\<^sup>* init_pipe p \<Longrightarrow> pipe_inv p"
  by (rule pipe.inv_steps) (auto intro: pipe_inv_init)

text \<open>A loop that has returned has run or passed the \<open>Once\<close>.\<close>

lemma returned_once: "pipe_inv p \<Longrightarrow> cp_phase (pp_copier p d) = Returned \<Longrightarrow> pp_once p = HasRun"
  by (cases "pp_once p") (auto simp: pipe_inv_def)

section \<open>What is logged\<close>

text \<open>The description a loop carries in \<open>cleanup\<close>.\<close>

fun carried :: "copy_phase \<Rightarrow> (string \<times> bool) option" where
  "carried (Cleaning m b) = Some (m, b)"
| "carried (ClosingClient m b) = Some (m, b)"
| "carried (ClosingServer m b) = Some (m, b)"
| "carried (Logging m b) = Some (m, b)"
| "carried _ = None"

text \<open>
  \<open>p\<close> has come from a step in which loop \<open>e\<close> entered the \<open>Once\<close>, the first to do so, with its
  verdict \<open>v\<close> on the failure it met.
\<close>

definition entered_by :: "string \<Rightarrow> direction \<Rightarrow> string \<times> bool \<Rightarrow> pipe \<Rightarrow> bool" where
  "entered_by inst e v p \<longleftrightarrow>
     (\<exists>rErr wErr. copy_verdict e inst rErr wErr = Some v)
     \<and> (\<exists>q r. (proxy_step inst)\<^sup>*\<^sup>* init_pipe q \<and> pp_once q = NotRun \<and> cp_phase (pp_copier q e) = Cleaning (fst v) (snd v)
         \<and> proxy_step inst q r \<and> pp_once r = RunBy e \<and> (proxy_step inst)\<^sup>*\<^sup>* r p)"

definition log_ok :: "string \<Rightarrow> pipe \<Rightarrow> bool" where
  "log_ok inst p \<longleftrightarrow>
     (\<forall>d v. carried (cp_phase (pp_copier p d)) = Some v \<longrightarrow> (\<exists>rErr wErr. copy_verdict d inst rErr wErr = Some v))
     \<and> (\<forall>d v. inside (cp_phase (pp_copier p d)) \<longrightarrow> carried (cp_phase (pp_copier p d)) = Some v \<longrightarrow> entered_by inst d v p)
     \<and> (\<forall>l \<in> set (pp_log p). \<exists>e. entered_by inst e (snd l, fst l) p)"

lemma carried_after: "carried (after_copy d inst rErr wErr) = copy_verdict d inst rErr wErr"
  by (simp add: after_copy_def split: option.split prod.split)

lemma entered_by_step: "entered_by inst e v p \<Longrightarrow> proxy_step inst p q \<Longrightarrow> entered_by inst e v q"
  unfolding entered_by_def by (meson rtranclp.rtrancl_into_rtrancl)

lemma log_ok_step:
  assumes "(proxy_step inst)\<^sup>*\<^sup>* init_pipe p" and "log_ok inst p" and st: "proxy_step inst p q"
  shows "log_ok inst q"
proof -
  have verdict: "\<exists>rErr wErr. copy_verdict d inst rErr wErr = Some v" if "carried (cp_phase (pp_copier p d)) = Some v" for d v
    using that assms(2) unfolding log_ok_def by blast
  have within: "entered_by inst d v q" if "inside (cp_phase (pp_copier p d))" "carried (cp_phase (pp_copier p d)) = Some v" for d v
    using that assms(2) entered_by_step [OF _ st] unfolding log_ok_def by blast
  have logs: "\<exists>e. entered_by inst e (snd l, fst l) q" if "l \<in> set (pp_log p)" for l
    using that assms(2) entered_by_step [OF _ st] unfolding log_ok_def by blast
  have logged: "\<forall>l \<in> set (pp_log q). \<exists>e. entered_by inst e (snd l, fst l) q"
  proof (cases "pp_log q = pp_log p")
    case False
    with st obtain d desc isErr where "cp_phase (pp_copier p d) = Logging desc isErr" "pp_log q = pp_log p @ [(isErr, desc)]"
      by (auto elim!: proxy_step.cases)
    with logs within [of d "(desc, isErr)"] show ?thesis by auto
  qed (use logs in simp)
  moreover have "(\<exists>rErr wErr. copy_verdict d inst rErr wErr = Some v) \<and> (inside (cp_phase (pp_copier q d)) \<longrightarrow> entered_by inst d v q)"
    if v: "carried (cp_phase (pp_copier q d)) = Some v" for d v
    using st
  proof (cases rule: proxy_step.cases)
    case (enter e desc isErr)
    show ?thesis
    proof (cases "d = e")
      case True
      then have "v = (desc, isErr)" using enter v by simp
      moreover obtain rErr wErr where "copy_verdict e inst rErr wErr = Some (desc, isErr)"
        using verdict [of e "(desc, isErr)"] enter by auto
      moreover have "entered_by inst e (desc, isErr) q"
        unfolding entered_by_def using assms(1) st enter calculation by (intro conjI exI [of _ p] exI [of _ q]) auto
      ultimately show ?thesis using True by blast
    next
      case False
      then have "cp_phase (pp_copier q d) = cp_phase (pp_copier p d)" using enter by simp
      with v verdict within show ?thesis by metis
    qed
  next
    case (read c e bs rErr)
    with v verdict [of d v] within [of d v] show ?thesis by (auto simp: carried_after split: if_splits)
  next
    case (write_some c e bs rErr m wErr)
    with v verdict [of d v] within [of d v] show ?thesis by (auto simp: carried_after split: if_splits)
  next
    case (close_client e desc isErr)
    with v verdict [of d v] within [of d v] show ?thesis by (auto split: if_splits)
  next
    case (close_server e desc isErr)
    with v verdict [of d v] within [of d v] show ?thesis by (auto split: if_splits)
  next
    case (log e desc isErr)
    with v verdict [of d v] within [of d v] show ?thesis by (auto split: if_splits)
  next
    case (pass e desc isErr)
    with v verdict [of d v] within [of d v] show ?thesis by (auto split: if_splits)
  qed
  ultimately show ?thesis unfolding log_ok_def by blast
qed

lemma log_reachable: "(proxy_step inst)\<^sup>*\<^sup>* init_pipe p \<Longrightarrow> log_ok inst p"
proof (induction rule: rtranclp_induct)
  case base
  then show ?case by (simp add: log_ok_def init_pipe_def)
qed (rule log_ok_step)

section \<open>After the first failure\<close>

text \<open>
  Once the connections are closed a loop needs one more call and passing the \<open>Once\<close>; the loop
  that closed them has the log left.
\<close>

fun copy_rank :: "copy_phase \<Rightarrow> nat" where
  "copy_rank Reading = 2"
| "copy_rank (Writing _ _) = 2"
| "copy_rank Returned = 0"
| "copy_rank _ = 1"

definition pipe_rank :: "pipe \<Rightarrow> nat" where
  "pipe_rank p = copy_rank (cp_phase (pp_copier p Up)) + copy_rank (cp_phase (pp_copier p Down))"

definition both_closed :: "pipe \<Rightarrow> bool" where
  "both_closed p \<longleftrightarrow> 0 < pp_client_closes p \<and> 0 < pp_server_closes p"

lemma pipe_rank_le:
  assumes "pipe_inv p" and "both_closed p"
  shows "pipe_rank p \<le> 3"
proof -
  have le: "copy_rank ph \<le> 2" "inside ph \<Longrightarrow> copy_rank ph \<le> 1" for ph by (cases ph; simp)+
  obtain d where "copy_rank (cp_phase (pp_copier p d)) \<le> 1"
    using assms le(2)
    by (cases "pp_once p") (auto simp: pipe_inv_def both_closed_def, metis copy_rank.simps(3) le0)
  with le(1) [of "cp_phase (pp_copier p Up)"] le(1) [of "cp_phase (pp_copier p Down)"] show ?thesis
    by (cases d) (auto simp: pipe_rank_def)
qed

lemma pipe_rank_set_copier:
  "copy_rank (cp_phase c) < copy_rank (cp_phase (pp_copier p d)) \<Longrightarrow> pipe_rank (set_copier d c p) < pipe_rank p"
  by (cases d) (auto simp: pipe_rank_def)

lemma pipe_rank_set_phase:
  "pp_copier r = pp_copier p \<Longrightarrow> copy_rank ph < copy_rank (cp_phase (pp_copier p d)) \<Longrightarrow> pipe_rank (set_phase d ph r) < pipe_rank p"
  by (cases d) (auto simp: pipe_rank_def)

lemma closed_ends: "both_closed p \<Longrightarrow> src_closed d p \<and> dst_closed d p"
  by (cases d) (auto simp: both_closed_def src_closed_def dst_closed_def)

text \<open>After the two closes the function of the \<open>Once\<close> has nothing left but its log.\<close>

lemma closed_phases:
  assumes "pipe_inv p" and "both_closed p"
  shows "pp_once p \<noteq> NotRun" "cp_phase (pp_copier p d) \<noteq> ClosingClient m b" "cp_phase (pp_copier p d) \<noteq> ClosingServer m b"
  using assms inside_once [of "pp_once p" p d] by (auto simp: pipe_inv_def both_closed_def)

lemma proxy_step_closed_rank:
  assumes "pipe_inv p" and "both_closed p" and "proxy_step inst p q"
  shows "pipe_rank q < pipe_rank p"
  using assms(3)
proof (cases rule: proxy_step.cases)
  case (read c d bs rErr)
  then show ?thesis using closed_ends [OF assms(2), of d] after_copy_cases [of d inst rErr None]
    by (auto intro!: pipe_rank_set_copier)
next
  case (write_some c d bs rErr m wErr)
  then show ?thesis using closed_ends [OF assms(2), of d] after_copy_cases [of d inst rErr wErr]
    by (auto intro!: pipe_rank_set_copier)
qed (use closed_phases [OF assms(1,2)] in \<open>auto intro!: pipe_rank_set_phase\<close>)

lemma proxy_step_closed: "proxy_step inst p q \<Longrightarrow> both_closed p \<Longrightarrow> both_closed q"
  by (induction rule: proxy_step.induct) (auto simp: both_closed_def)

lemma proxy_step_once: "proxy_step inst p q \<Longrightarrow> pipe_inv p \<Longrightarrow> pp_once p = HasRun \<Longrightarrow> pp_once q = HasRun"
  by (induction rule: proxy_step.induct) auto

lemma proxy_steps_closed_rank:
  assumes "(proxy_step inst ^^ n) p q" and "pipe_inv p" and "both_closed p"
  shows "n + pipe_rank q \<le> pipe_rank p \<and> pipe_inv q \<and> both_closed q"
  using assms
proof (induction n arbitrary: q)
  case (Suc n)
  then obtain u where "(proxy_step inst ^^ n) p u" and st: "proxy_step inst u q" by auto
  with Suc have "n + pipe_rank u \<le> pipe_rank p" "pipe_inv u" "both_closed u" by auto
  with proxy_step_closed_rank [of u inst q] proxy_step_inv [of u inst q] proxy_step_closed [of inst u q] st
  show ?case by auto
qed simp

text \<open>
  A loop that has not returned can take a step, unless it waits for the function of the \<open>Once\<close>,
  which the other loop is running.
\<close>

lemma proxy_step_enabled:
  assumes "pipe_inv p" and "cp_phase (pp_copier p d) \<noteq> Returned"
  shows "\<exists>q. proxy_step inst p q"
proof (cases "cp_phase (pp_copier p d)")
  case Reading
  from read [OF refl Reading, of "[]" "Some EOF"] show ?thesis by auto
next
  case (Writing bs rErr)
  from write_some [OF refl Writing, of 0 "Some EOF"] show ?thesis by auto
next
  case (Cleaning desc isErr)
  show ?thesis
  proof (cases "pp_once p")
    case (RunBy e)
    with assms(1) have "inside (cp_phase (pp_copier p e))" by (simp add: pipe_inv_def)
    then show ?thesis by (cases "cp_phase (pp_copier p e)") (auto intro: close_client close_server log)
  qed (use Cleaning in \<open>blast intro: enter pass\<close>)+
qed (use assms(2) in \<open>auto intro: close_client close_server log\<close>)

section \<open>Properties\<close>

text \<open>
  C15. Integrity of the copy: in every reachable state and in both directions the bytes
  written are a prefix, in order and without gaps, of the bytes read; at most one buffer is
  in flight or lost; and a loop that is about to read has forwarded everything it read.
\<close>

theorem proxyConn_integrity:
  assumes "(proxy_step inst)\<^sup>*\<^sup>* init_pipe p"
  shows "prefix (cp_written (pp_copier p d)) (cp_read (pp_copier p d))
    \<and> length (cp_read (pp_copier p d)) \<le> length (cp_written (pp_copier p d)) + 8192
    \<and> (cp_phase (pp_copier p d) = Reading \<longrightarrow> cp_written (pp_copier p d) = cp_read (pp_copier p d))"
proof -
  have c: "copier_inv (cp_phase (pp_copier p d)) (cp_read (pp_copier p d)) (cp_written (pp_copier p d))"
    using proxy_reachable_inv [OF assms] by (simp add: pipe_inv_def)
  show ?thesis
  proof (cases "cp_phase (pp_copier p d)")
    case (Writing bs e)
    with c have "cp_read (pp_copier p d) = cp_written (pp_copier p d) @ bs" "length bs \<le> 8192"
      by (simp_all add: buf_size_def)
    with Writing show ?thesis by simp
  qed (use c in \<open>simp_all add: buf_size_def\<close>)
qed

definition sample_pipe :: pipe where
  "sample_pipe = set_copier Up \<lparr>cp_phase = Writing [1, 2] None, cp_read = [1, 2], cp_written = []\<rparr> init_pipe"

lemma sample_pipe_reached: "(proxy_step ''i'')\<^sup>*\<^sup>* init_pipe sample_pipe"
  using read [of _ init_pipe Up "[1, 2]" None "''i''"]
  by (intro r_into_rtranclp) (simp add: sample_pipe_def init_pipe_def buf_size_def src_closed_def)

theorem proxyConn_integrity_witness:
  "prefix (cp_written (pp_copier sample_pipe Up)) (cp_read (pp_copier sample_pipe Up))"
  using proxyConn_integrity [OF sample_pipe_reached, of Up] by simp

text \<open>
  C16. The cleanup of a connection happens once: in every reachable state each of the two
  connections has been closed at most once and at most one message was logged. When a loop
  has returned, so in particular when \<open>proxyConn\<close> (the \<open>Down\<close> loop) has, both connections
  are closed and the message is logged. Its text and level are the verdict, on its own failed
  read or write, of the loop that was the first to reach the \<open>Once\<close>, whichever failed first.
\<close>

theorem proxyConn_cleanup_once:
  assumes "(proxy_step inst)\<^sup>*\<^sup>* init_pipe p"
  shows "pp_client_closes p \<le> 1 \<and> pp_server_closes p \<le> 1 \<and> length (pp_log p) \<le> 1
    \<and> (cp_phase (pp_copier p d) = Returned \<longrightarrow> pp_client_closes p = 1 \<and> pp_server_closes p = 1 \<and> length (pp_log p) = 1)
    \<and> (\<forall>(isErr, desc) \<in> set (pp_log p). \<exists>e q r rErr wErr.
         (proxy_step inst)\<^sup>*\<^sup>* init_pipe q \<and> pp_once q = NotRun \<and> cp_phase (pp_copier q e) = Cleaning desc isErr
         \<and> copy_verdict e inst rErr wErr = Some (desc, isErr)
         \<and> proxy_step inst q r \<and> pp_once r = RunBy e \<and> (proxy_step inst)\<^sup>*\<^sup>* r p)"
proof (intro conjI ballI)
  have inv: "once_ok (pp_once p) p" using proxy_reachable_inv [OF assms] by (simp add: pipe_inv_def)
  have le: "fst (closes_at ph) \<le> 1 \<and> snd (closes_at ph) \<le> 1" for ph by (cases ph) auto
  have "pp_client_closes p \<le> 1 \<and> pp_server_closes p \<le> 1 \<and> length (pp_log p) \<le> 1"
  proof (cases "pp_once p")
    case (RunBy e)
    with inv le [of "cp_phase (pp_copier p e)"] show ?thesis by (cases "closes_at (cp_phase (pp_copier p e))") auto
  qed (use inv in auto)
  then show "pp_client_closes p \<le> 1" "pp_server_closes p \<le> 1" "length (pp_log p) \<le> 1" by blast+
  show "cp_phase (pp_copier p d) = Returned \<longrightarrow> pp_client_closes p = 1 \<and> pp_server_closes p = 1 \<and> length (pp_log p) = 1"
    using inv returned_once [OF proxy_reachable_inv [OF assms], of d] by auto
  fix l assume "l \<in> set (pp_log p)"
  then obtain e where "entered_by inst e (snd l, fst l) p" using log_reachable [OF assms] unfolding log_ok_def by blast
  then show "case l of (isErr, desc) \<Rightarrow> \<exists>e q r rErr wErr.
         (proxy_step inst)\<^sup>*\<^sup>* init_pipe q \<and> pp_once q = NotRun \<and> cp_phase (pp_copier q e) = Cleaning desc isErr
         \<and> copy_verdict e inst rErr wErr = Some (desc, isErr)
         \<and> proxy_step inst q r \<and> pp_once r = RunBy e \<and> (proxy_step inst)\<^sup>*\<^sup>* r p"
    unfolding entered_by_def by (cases l) (simp, blast)
qed

text \<open>A connection whose client has closed it, with the loop from the client through its cleanup.\<close>

definition closed_pipe :: pipe where
  "closed_pipe = \<lparr>pp_copier = (\<lambda>d. \<lparr>cp_phase = (if d = Up then Returned else Reading), cp_read = [], cp_written = []\<rparr>),
     pp_once = HasRun, pp_client_closes = 1, pp_server_closes = 1, pp_log = [(False, ''[i] client closed the connection'')]\<rparr>"

lemma closed_pipe_reached: "(proxy_step ''i'')\<^sup>*\<^sup>* init_pipe closed_pipe"
proof -
  let ?m = "''[i] client closed the connection''" and ?st = "proxy_step ''i''"
  let ?p = "set_copier Up \<lparr>cp_phase = Cleaning ?m False, cp_read = [], cp_written = []\<rparr> init_pipe"
  let ?a = "set_phase Up (ClosingClient ?m False) (?p\<lparr>pp_once := RunBy Up\<rparr>)"
  let ?b = "set_phase Up (ClosingServer ?m False) (?a\<lparr>pp_client_closes := Suc (pp_client_closes ?a)\<rparr>)"
  let ?c = "set_phase Up (Logging ?m False) (?b\<lparr>pp_server_closes := Suc (pp_server_closes ?b)\<rparr>)"
  have e: "set_phase Up Returned (?c\<lparr>pp_log := pp_log ?c @ [(False, ?m)], pp_once := HasRun\<rparr>) = closed_pipe"
    by (simp add: closed_pipe_def set_phase_def set_copier_def init_pipe_def fun_eq_iff)
  have "?st init_pipe ?p"
    using read [of _ init_pipe Up "[]" "Some EOF" "''i''"]
    by (simp add: init_pipe_def after_copy_def copy_verdict_def src_name_def)
  moreover have "?st ?p ?a" by (rule enter) (simp_all add: init_pipe_def)
  moreover have "?st ?a ?b" by (rule close_client) simp
  moreover have "?st ?b ?c" by (rule close_server) simp
  moreover have "?st ?c (set_phase Up Returned (?c\<lparr>pp_log := pp_log ?c @ [(False, ?m)], pp_once := HasRun\<rparr>))" by (rule log) simp
  ultimately have "?st\<^sup>*\<^sup>* init_pipe (set_phase Up Returned (?c\<lparr>pp_log := pp_log ?c @ [(False, ?m)], pp_once := HasRun\<rparr>))"
    by (intro converse_rtranclp_into_rtranclp [of ?st, OF _ converse_rtranclp_into_rtranclp [of ?st, OF _
      converse_rtranclp_into_rtranclp [of ?st, OF _ converse_rtranclp_into_rtranclp [of ?st, OF _ r_into_rtranclp]]]])
  then show ?thesis by (simp only: e)
qed

theorem proxyConn_cleanup_once_witness:
  "length (pp_log closed_pipe) = 1 \<and> (\<exists>e rErr wErr. copy_verdict e ''i'' rErr wErr = Some (''[i] client closed the connection'', False))"
  using proxyConn_cleanup_once [OF closed_pipe_reached, of Up] by (auto simp: closed_pipe_def)

text \<open>
  C17. Once both connections are closed, so in particular once a loop has been through the
  \<open>Once\<close>, both goroutines end: they take at most three more steps together, and when neither can
  take a step both have returned.
\<close>

theorem proxyConn_terminates:
  assumes "(proxy_step inst)\<^sup>*\<^sup>* init_pipe p" and "pp_once p = HasRun \<or> 0 < pp_client_closes p \<and> 0 < pp_server_closes p"
    and "(proxy_step inst ^^ n) p q"
  shows "n \<le> 3 \<and> ((\<nexists>u. proxy_step inst q u) \<longrightarrow> (\<forall>d. cp_phase (pp_copier q d) = Returned))"
proof -
  have inv: "pipe_inv p" using proxy_reachable_inv [OF assms(1)] .
  then have "both_closed p" using assms(2) by (auto simp: pipe_inv_def both_closed_def)
  from proxy_steps_closed_rank [OF assms(3) inv this] pipe_rank_le [OF inv this] show ?thesis
    using proxy_step_enabled [of q _ inst] by fastforce
qed

definition done_pipe :: pipe where
  "done_pipe = set_phase Down Returned closed_pipe"

lemma done_pipe_reached: "(proxy_step ''i'' ^^ 2) closed_pipe done_pipe"
proof -
  let ?m = "''[i] instance closed the connection''"
  let ?p = "set_copier Down \<lparr>cp_phase = Cleaning ?m False, cp_read = [], cp_written = []\<rparr> closed_pipe"
  have "proxy_step ''i'' closed_pipe ?p"
    using read [of _ closed_pipe Down "[]" "Some EOF" "''i''"]
    by (simp add: closed_pipe_def after_copy_def copy_verdict_def src_name_def)
  moreover have "proxy_step ''i'' ?p done_pipe"
    using pass [of ?p Down ?m False "''i''"] by (simp add: done_pipe_def closed_pipe_def set_phase_def)
  ultimately show ?thesis by (auto simp: numeral_2_eq_2)
qed

lemma proxy_step_active: "proxy_step inst p u \<Longrightarrow> \<exists>d. cp_phase (pp_copier p d) \<noteq> Returned"
  by (induction rule: proxy_step.induct) (metis copy_phase.distinct)+

lemma done_pipe_stuck: "\<nexists>u. proxy_step ''i'' done_pipe u"
proof -
  have "cp_phase (pp_copier done_pipe d) = Returned" for d
    by (cases d) (simp_all add: done_pipe_def closed_pipe_def)
  then show ?thesis using proxy_step_active by blast
qed

theorem proxyConn_terminates_witness: "pp_once closed_pipe = HasRun \<and> cp_phase (pp_copier done_pipe Down) = Returned"
  using proxyConn_terminates [OF closed_pipe_reached _ done_pipe_reached] done_pipe_stuck
  by (simp add: closed_pipe_def)

end
