(* ===== verification/Process.thy ===== *)
theory Process
  imports Cmd_Shutdown Proxy_Conn
begin

text \<open>
  The running process: \<open>runSignalWrapper\<close> (cmd/root.go) together with the client it starts,
  serves and closes (internal/proxy/proxy.go). \<open>Cmd_Run\<close> leaves open what \<open>NewClient\<close>, \<open>Serve\<close> and
  \<open>Close\<close> do; here they are the definitions of \<open>Client\<close>, \<open>Server\<close> and \<open>Proxy_Conn\<close>, running on one
  operating system and one connection counter. \<open>NewClient\<close> and \<open>Close\<close> are the sequences of their own
  steps: the first interleaves with the main goroutine, which may take a signal and leave, the
  second with the accept loops and the connections. The mode with FUSE is apart
  (\<open>Fuse_Process\<close>).
\<close>

section \<open>State\<close>

text \<open>What surrounds the process: credentials, dialer, system calls, and whether the caller gave a dialer and a notification.\<close>

record 't world =
  wd_cred :: "'t cred_env"
  wd_newDialer :: "'t Option list \<Rightarrow> go_error option"
  wd_sys :: sys
  wd_fuse :: fuse_env
  wd_given :: bool
  wd_notify :: bool

text \<open>\<open>Serve\<close>: not past its connection test, returned from a failed test, or its loops run.\<close>

datatype serve_phase = Unserved | TestFailed go_error | Loops serve_main

text \<open>
  \<open>Close\<close>: not called; in its wait loop, with the dialer's error and the events seen; closing
  the listeners, with the errors so far and the mounts left; returned.
\<close>

datatype close_phase =
    NotClosing
  | CloseWaiting "go_error option" "close_event list"
  | CloseListeners "go_error option" "close_event list" "go_error list" "socketMount list"
  | CloseReturned "go_error option"

record proc =
  pr_run :: run
  pr_os :: os
  pr_new :: new_phase
  pr_client :: "Client option"
  pr_server :: server
  pr_serve :: serve_phase
  pr_pipes :: "nat \<Rightarrow> pipe"
  pr_close :: close_phase

definition init_proc :: "os \<Rightarrow> proc" where
  "init_proc os0 = \<lparr>pr_run = init_run, pr_os = os0, pr_new = NewCalled, pr_client = None, pr_server = init_server [],
     pr_serve = Unserved, pr_pipes = (\<lambda>_. init_pipe), pr_close = NotClosing\<rparr>"

section \<open>Steps\<close>

text \<open>The main goroutine is in the deferred call of \<open>Close\<close>.\<close>

definition in_close :: "run \<Rightarrow> bool" where
  "in_close r \<longleftrightarrow> (case rn_main r of Returning _ \<Rightarrow> rn_defers r \<noteq> [] \<and> hd (rn_defers r) = DoClose | _ \<Rightarrow> False)"

text \<open>A step of a goroutine other than the main one, the one starting and the one serving.\<close>

definition bystander :: "run \<Rightarrow> run \<Rightarrow> bool" where
  "bystander r r' \<longleftrightarrow> rn_start r' = rn_start r \<and> rn_check r' = rn_check r
     \<and> rn_senders r' FromStart = rn_senders r FromStart \<and> rn_senders r' FromServe = rn_senders r FromServe"

definition listening :: "Client \<Rightarrow> os \<Rightarrow> nat \<Rightarrow> bool" where
  "listening c s i \<longleftrightarrow> sm_listener (cl_mnts c ! i) \<in> fst ` set (os_listeners s)"

text \<open>
  The steps of \<open>runSignalWrapper\<close> outside the client, and of the goroutine that starts the client: a
  step of \<open>NewClient\<close>, and then handing over the client or the error.
\<close>

abbreviation new_next :: "'t world \<Rightarrow> Config \<Rightarrow> new_phase \<Rightarrow> os \<Rightarrow> new_phase \<times> os" where
  "new_next w \<equiv> NewClient_next (wd_cred w) (wd_newDialer w) (wd_sys w) (wd_fuse w) (wd_given w) (wd_notify w)"

abbreviation new_rest :: "'t world \<Rightarrow> Config \<Rightarrow> new_phase \<Rightarrow> os \<Rightarrow> Client outcome \<times> os" where
  "new_rest w \<equiv> NewClient_rest (wd_cred w) (wd_newDialer w) (wd_sys w) (wd_fuse w) (wd_given w) (wd_notify w)"

inductive start_step :: "'t world \<Rightarrow> Config \<Rightarrow> proc \<Rightarrow> proc \<Rightarrow> bool" for w :: "'t world" and conf :: Config where
  main: "main_step conf (pr_run s) r \<Longrightarrow> \<not> in_close (pr_run s) \<Longrightarrow> start_step w conf s (s\<lparr>pr_run := r\<rparr>)"
| others: "other_step conf (pr_run s) r \<Longrightarrow> bystander (pr_run s) r \<Longrightarrow> start_step w conf s (s\<lparr>pr_run := r\<rparr>)"
| canceled: "start_step w conf s (s\<lparr>pr_run := cancel_ctx (pr_run s)\<rparr>)"
| start_moved: "rn_senders (pr_run s) FromStart = Idle \<Longrightarrow> rn_start (pr_run s) = Launching \<Longrightarrow> (\<And>r. pr_new s \<noteq> NewDone r) \<Longrightarrow>
     new_next w conf (pr_new s) (pr_os s) = (ph, s1) \<Longrightarrow> start_step w conf s (s\<lparr>pr_new := ph, pr_os := s1\<rparr>)"
| start_ok: "rn_senders (pr_run s) FromStart = Idle \<Longrightarrow> rn_start (pr_run s) = Launching \<Longrightarrow> pr_new s = NewDone (Ok c) \<Longrightarrow>
     start_step w conf s (s\<lparr>pr_run := (pr_run s)\<lparr>rn_start := StartReady\<rparr>, pr_client := Some c, pr_server := init_server (cl_mnts c)\<rparr>)"
| start_err: "rn_senders (pr_run s) FromStart = Idle \<Longrightarrow> rn_start (pr_run s) = Launching \<Longrightarrow> pr_new s = NewDone (Err e) \<Longrightarrow>
     start_step w conf s
       (s\<lparr>pr_run := send FromStart (ErrorString (''unable to start: '' @ Error e)) ((pr_run s)\<lparr>rn_start := StartDone\<rparr>)\<rparr>)"

text \<open>
  The goroutine of \<open>Serve\<close> and the accept loops. The dials of the connection test are free.
  \<open>Accept\<close> gives connections only while the listener is open; a loop that ends hands its error
  to \<open>Serve\<close> if that is receiving.
\<close>

inductive serving_step :: "Config \<Rightarrow> proc \<Rightarrow> proc \<Rightarrow> bool" for conf :: Config where
  test_failed: "rn_senders (pr_run s) FromServe = Idle \<Longrightarrow> pr_serve s = Unserved \<Longrightarrow> pr_client s = Some c \<Longrightarrow>
     (\<And>ms. mset (order ms) = mset ms) \<Longrightarrow> Serve_start rng order dial c = StartFailed err \<Longrightarrow>
     serving_step conf s (s\<lparr>pr_run := send FromServe err (pr_run s), pr_serve := TestFailed err\<rparr>)"
| loops_started: "rn_senders (pr_run s) FromServe = Idle \<Longrightarrow> pr_serve s = Unserved \<Longrightarrow> pr_client s = Some c \<Longrightarrow>
     (\<And>ms. mset (order ms) = mset ms) \<Longrightarrow> Serve_start rng order dial c = StartLoops \<Longrightarrow>
     serving_step conf s (s\<lparr>pr_serve := Loops Starting\<rparr>)"
| notify_called: "pr_serve s = Loops Starting \<Longrightarrow>
     (if cf_HealthCheck conf then NotifyStarted (rn_check (pr_run s)) else Ok (rn_check (pr_run s))) = Ok ck \<Longrightarrow>
     serving_step conf s (s\<lparr>pr_run := (pr_run s)\<lparr>rn_check := ck\<rparr>, pr_serve := Loops Receiving\<rparr>)"
| accepting: "pr_serve s = Loops sm \<Longrightarrow> pr_client s = Some c \<Longrightarrow> accept_step (pr_server s) sv \<Longrightarrow>
     sv_loops sv = sv_loops (pr_server s) \<Longrightarrow>
     (\<And>i. sv_conns sv = sv_conns (pr_server s) @ [(i, Accepted)] \<Longrightarrow> listening c (pr_os s) i) \<Longrightarrow>
     serving_step conf s (s\<lparr>pr_server := sv\<rparr>)"
| loop_ended: "pr_serve s = Loops sm \<Longrightarrow> i < length (sv_loops (pr_server s)) \<Longrightarrow> sv_loops (pr_server s) ! i = None \<Longrightarrow>
     \<not> is_timeout e \<Longrightarrow> library_error e \<Longrightarrow>
     serving_step conf s
       (s\<lparr>pr_server := (pr_server s)\<lparr>sv_loops := (sv_loops (pr_server s))[i := Some e]\<rparr>,
          pr_run := (if sm = Receiving then send FromServe e (pr_run s) else pr_run s),
          pr_serve := (if sm = Receiving then Loops (MainReturned e) else Loops sm)\<rparr>)"

text \<open>
  The goroutines of the connections. \<open>proxyConn\<close> returns when its own loop, which copies from
  the instance, has returned; the other loop may go on.
\<close>

inductive copying_step :: "Config \<Rightarrow> proc \<Rightarrow> proc \<Rightarrow> bool" for conf :: Config where
  conn_moved: "pr_client s = Some c \<Longrightarrow>
     conn_step (cf_MaxConnections conf) (cl_connRefuseNotify c) (cl_mnts c) (pr_server s) sv \<Longrightarrow>
     (\<And>k. k < length (sv_conns sv) \<Longrightarrow> snd (sv_conns (pr_server s) ! k) = Proxying \<Longrightarrow> snd (sv_conns sv ! k) \<noteq> Proxying \<Longrightarrow>
       cp_phase (pp_copier (pr_pipes s k) Down) = Returned) \<Longrightarrow>
     copying_step conf s (s\<lparr>pr_server := sv\<rparr>)"
| copied: "pr_client s = Some c \<Longrightarrow> k < length (sv_conns (pr_server s)) \<Longrightarrow> sv_conns (pr_server s) ! k = (i, ph) \<Longrightarrow>
     ph = Proxying \<or> pp_once (pr_pipes s k) = HasRun \<Longrightarrow> proxy_step (sm_inst (cl_mnts c ! i)) (pr_pipes s k) p \<Longrightarrow>
     copying_step conf s (s\<lparr>pr_pipes := (pr_pipes s)(k := p)\<rparr>)"

text \<open>What \<open>Close\<close> has collected when it returns.\<close>

definition closeErrors :: "Config \<Rightarrow> go_error option \<Rightarrow> go_error list \<Rightarrow> uint64 \<Rightarrow> go_error list" where
  "closeErrors conf dErr errs n_open =
     opt_list dErr @ errs @
       (if 0 < cf_WaitOnClose conf \<and> 0 < n_open
        then [ErrorString (show_nat (unat n_open) @ '' connection(s) still open after waiting '' @ duration_String (cf_WaitOnClose conf))]
        else [])"

definition nonempty :: "'a list \<Rightarrow> 'a list option" where
  "nonempty xs = (if xs = [] then None else Some xs)"

text \<open>
  The steps of \<open>Close\<close>, in the deferred call of the main goroutine: closing the dialer, a tick
  that loads the counter, the timeout, closing one listener, and returning after the counter
  is loaded for the last time.
\<close>

inductive closing_step :: "'t world \<Rightarrow> Config \<Rightarrow> proc \<Rightarrow> proc \<Rightarrow> bool" for w :: "'t world" and conf :: Config where
  dialer_closed: "in_close (pr_run s) \<Longrightarrow> pr_close s = NotClosing \<Longrightarrow>
     closing_step w conf s (s\<lparr>pr_close := CloseWaiting dErr []\<rparr>)"
| tick: "in_close (pr_run s) \<Longrightarrow> pr_client s = Some c \<Longrightarrow> pr_close s = CloseWaiting dErr evs \<Longrightarrow> n = sv_connCount (pr_server s) \<Longrightarrow>
     closing_step w conf s (s\<lparr>pr_close := (if 0 < n then CloseWaiting dErr (evs @ [Tick n])
       else CloseListeners dErr (evs @ [Tick n]) [] (cl_mnts c))\<rparr>)"
| timeout: "in_close (pr_run s) \<Longrightarrow> pr_client s = Some c \<Longrightarrow> pr_close s = CloseWaiting dErr evs \<Longrightarrow>
     closing_step w conf s (s\<lparr>pr_close := CloseListeners dErr (evs @ [Timeout]) [] (cl_mnts c)\<rparr>)"
| mount_closed: "in_close (pr_run s) \<Longrightarrow> pr_close s = CloseListeners dErr evs errs (m # ms) \<Longrightarrow>
     socketMount_Close (wd_sys w) m (pr_os s) = (e, s1) \<Longrightarrow>
     closing_step w conf s (s\<lparr>pr_os := s1, pr_close := CloseListeners dErr evs (errs @ opt_list e) ms\<rparr>)"
| closed: "rn_main (pr_run s) = Returning e \<Longrightarrow> rn_defers (pr_run s) = DoClose # ds \<Longrightarrow>
     pr_close s = CloseListeners dErr evs errs [] \<Longrightarrow>
     closeErr = nonempty (closeErrors conf dErr errs (sv_connCount (pr_server s))) \<Longrightarrow>
     run_deferred conf closeErr e DoClose ((pr_run s)\<lparr>rn_defers := ds, rn_done := rn_done (pr_run s) @ [DoClose]\<rparr>) = Ok r \<Longrightarrow>
     closing_step w conf s (s\<lparr>pr_run := r, pr_close := CloseReturned (map_option MultiErr closeErr)\<rparr>)"

definition proc_step :: "'t world \<Rightarrow> Config \<Rightarrow> proc \<Rightarrow> proc \<Rightarrow> bool" where
  "proc_step w conf s t \<longleftrightarrow>
     start_step w conf s t \<or> serving_step conf s t \<or> copying_step conf s t \<or> closing_step w conf s t"

lemma proc_step_cases:
  assumes "proc_step w conf s t"
  obtains (start) "start_step w conf s t" | (serving) "serving_step conf s t" | (copying) "copying_step conf s t"
  | (closing) "closing_step w conf s t"
  using assms by (auto simp: proc_step_def)

text \<open>The HTTP server's answer to a request, if it is listening.\<close>

definition http_get :: "nat \<times> string \<Rightarrow> Config \<Rightarrow> proc \<Rightarrow> string \<Rightarrow> (nat \<times> string) option" where
  "http_get metrics conf s path =
     (case pr_client s of
        None \<Rightarrow> None
      | Some c \<Rightarrow>
          if rn_http (pr_run s) FromHTTP = Listening
          then Some (serveHTTP metrics conf (ConnCount (pr_server s) c) (rn_check (pr_run s)) path) else None)"

end
