(* ===== verification/Process_Safety.thy ===== *)
theory Process_Safety
  imports Process
begin

text \<open>
  What holds in every state of the process (\<open>Process\<close>): its run is a run of \<open>Cmd_Run\<close>, its
  connections are a run of \<open>Server\<close>, its copies are runs of \<open>Proxy_Conn\<close>, and its \<open>Close\<close> is \<open>Client_Close\<close>.
\<close>

section \<open>Invariants\<close>

text \<open>How far \<open>Serve\<close> is and what its goroutine has sent.\<close>

definition serve_ok :: "sender \<Rightarrow> serve_phase \<Rightarrow> bool" where
  "serve_ok sd ph \<longleftrightarrow> (case sd of
       Unspawned \<Rightarrow> ph = Unserved
     | Idle \<Rightarrow> ph \<in> {Unserved, Loops Starting, Loops Receiving}
     | _ \<Rightarrow> \<exists>e. ph \<in> {TestFailed e, Loops (MainReturned e)})"

text \<open>The operating system after \<open>NewClient\<close> left \<open>s1\<close>, by how far \<open>Close\<close> is.\<close>

fun os_ok :: "sys \<Rightarrow> Config \<Rightarrow> Client \<Rightarrow> os \<Rightarrow> close_phase \<Rightarrow> os \<Rightarrow> bool" where
  "os_ok sys conf c s1 NotClosing s \<longleftrightarrow> s = s1"
| "os_ok sys conf c s1 (CloseWaiting dErr evs) s \<longleftrightarrow> s = s1 \<and> (\<forall>e \<in> set evs. \<exists>n. e = Tick n \<and> 0 < n)"
| "os_ok sys conf c s1 (CloseListeners dErr evs errs rest) s \<longleftrightarrow>
     waitLoop evs \<noteq> None \<and> (\<exists>fin. cl_mnts c = fin @ rest \<and> closeMounts sys fin s1 = (errs, s))"
| "os_ok sys conf c s1 (CloseReturned x) s \<longleftrightarrow>
     (\<exists>dErr evs errs n. waitLoop evs \<noteq> None \<and> closeMounts sys (cl_mnts c) s1 = (errs, s)
        \<and> x = map_option MultiErr (nonempty (closeErrors conf dErr errs n)))"

definition client_ok :: "'t world \<Rightarrow> Config \<Rightarrow> os \<Rightarrow> proc \<Rightarrow> bool" where
  "client_ok w conf os0 s \<longleftrightarrow> (case pr_client s of
       None \<Rightarrow> \<not> rn_client (pr_run s) \<and> rn_start (pr_run s) \<noteq> StartReady
         \<and> new_rest w conf (pr_new s) (pr_os s) = new_rest w conf NewCalled os0
         \<and> (rn_start (pr_run s) \<noteq> Launching \<longrightarrow> (\<exists>e. pr_new s = NewDone (Err e)))
         \<and> ((\<forall>l \<in> set (os_listeners os0). fst l < os_next os0) \<longrightarrow>
              opened (os_next os0) (os_listeners os0) (new_mounts (pr_new s)) (pr_os s))
         \<and> pr_server s = init_server [] \<and> pr_serve s = Unserved \<and> pr_close s = NotClosing
     | Some c \<Rightarrow> rn_start (pr_run s) \<noteq> Launching \<and> pr_new s = NewDone (Ok c) \<and> (rn_client (pr_run s) \<longleftrightarrow> rn_start (pr_run s) \<noteq> StartReady)
         \<and> (\<exists>warm s1. NewClient (wd_cred w) (wd_newDialer w) (wd_sys w) (wd_fuse w) (wd_given w) (wd_notify w) conf os0 = (Ok c, warm, s1)
              \<and> os_ok (wd_sys w) conf c s1 (pr_close s) (pr_os s))
         \<and> (serve_step (cf_MaxConnections conf) (cl_connRefuseNotify c) (cl_mnts c))\<^sup>*\<^sup>* (init_server (cl_mnts c)) (pr_server s))"

text \<open>How far \<open>Close\<close> is and where the main goroutine is.\<close>

fun close_ok :: "close_phase \<Rightarrow> run \<Rightarrow> bool" where
  "close_ok NotClosing r \<longleftrightarrow> DoClose \<notin> set (rn_done r)"
| "close_ok (CloseReturned x) r \<longleftrightarrow> DoClose \<in> set (rn_done r) \<and> rn_closes r = [x]"
| "close_ok _ r \<longleftrightarrow> in_close r"

text \<open>A connection that was not proxied has not copied; one that was, has been through the \<open>Once\<close>.\<close>

definition pipe_ok :: "string \<Rightarrow> phase \<Rightarrow> pipe \<Rightarrow> bool" where
  "pipe_ok inst ph p \<longleftrightarrow> (proxy_step inst)\<^sup>*\<^sup>* init_pipe p \<and> (case ph of Proxying \<Rightarrow> True | Leaving \<Rightarrow> p = init_pipe \<or> pp_once p = HasRun
     | Done \<Rightarrow> p = init_pipe \<or> pp_once p = HasRun | _ \<Rightarrow> p = init_pipe)"

definition pipes_ok :: "socketMount list \<Rightarrow> (nat \<times> phase) list \<Rightarrow> (nat \<Rightarrow> pipe) \<Rightarrow> bool" where
  "pipes_ok mnts cs ps \<longleftrightarrow>
     (\<forall>k. if k < length cs then pipe_ok (sm_inst (mnts ! fst (cs ! k))) (snd (cs ! k)) (ps k) else ps k = init_pipe)"

definition mounts :: "proc \<Rightarrow> socketMount list" where
  "mounts s = (case pr_client s of None \<Rightarrow> [] | Some c \<Rightarrow> cl_mnts c)"

declare mounts_def [simp]

text \<open>The health check is told of the start after the accept loops are running.\<close>

definition started_ok :: "Check \<Rightarrow> serve_phase \<Rightarrow> bool" where
  "started_ok ck ph \<longleftrightarrow> (ck_started ck \<longrightarrow> (\<exists>sm. ph = Loops sm \<and> sm \<noteq> Starting))"

definition proc_inv :: "'t world \<Rightarrow> Config \<Rightarrow> os \<Rightarrow> proc \<Rightarrow> bool" where
  "proc_inv w conf os0 s \<longleftrightarrow>
     run_inv conf (pr_run s) \<and> serve_ok (rn_senders (pr_run s) FromServe) (pr_serve s) \<and> client_ok w conf os0 s
     \<and> close_ok (pr_close s) (pr_run s) \<and> pipes_ok (mounts s) (sv_conns (pr_server s)) (pr_pipes s)
     \<and> started_ok (rn_check (pr_run s)) (pr_serve s)"

lemma proc_invD:
  assumes "proc_inv w conf os0 s"
  shows "run_inv conf (pr_run s)" "serve_ok (rn_senders (pr_run s) FromServe) (pr_serve s)" "client_ok w conf os0 s"
    "close_ok (pr_close s) (pr_run s)" "pipes_ok (mounts s) (sv_conns (pr_server s)) (pr_pipes s)"
    "started_ok (rn_check (pr_run s)) (pr_serve s)"
  using assms unfolding proc_inv_def by blast+

lemma proc_inv_init: "proc_inv w conf os0 (init_proc os0)"
  by (simp add: proc_inv_def init_proc_def run_inv_init serve_ok_def client_ok_def pipes_ok_def init_server_def)
    (simp add: init_run_def started_ok_def NewCheck_def opened_def)

section \<open>Every step of the process is a step of the run, or none\<close>

lemma start_step_run:
  assumes "start_step w conf s t"
  shows "pr_run t = pr_run s \<or> env_step conf (pr_run s) (pr_run t)"
  using assms
proof (cases rule: start_step.cases)
  case (start_ok c)
  then show ?thesis using start_ready [of "pr_run s" conf] by (simp add: env_step_def run_step_def)
next
  case (start_err e)
  then show ?thesis using start_failed [of "pr_run s" conf e] by (simp add: env_step_def run_step_def)
qed (auto simp: env_step_def run_step_def)

lemma serving_step_run:
  assumes "serving_step conf s t" and "serve_ok (rn_senders (pr_run s) FromServe) (pr_serve s)"
  shows "pr_run t = pr_run s \<or> other_step conf (pr_run s) (pr_run t)"
  using assms(1)
proof (cases rule: serving_step.cases)
  case (test_failed c order rng dial err)
  then show ?thesis using serve_ended [of "pr_run s" conf err] Serve_errors(1) [of rng order dial c err] by simp
next
  case (notify_called ck)
  then have "rn_senders (pr_run s) FromServe = Idle"
    using assms(2) by (auto simp: serve_ok_def split: sender.splits)
  then show ?thesis using serving [of "pr_run s" conf ck] notify_called by (cases "cf_HealthCheck conf") auto
next
  case (loop_ended sm i e)
  then have "rn_senders (pr_run s) FromServe = Idle" if "sm = Receiving"
    using assms(2) that by (auto simp: serve_ok_def split: sender.splits)
  then show ?thesis using serve_ended [of "pr_run s" conf e] loop_ended by (auto simp: serve_error_def)
qed simp_all

lemma closing_step_run:
  assumes "closing_step w conf s t"
  shows "pr_run t = pr_run s \<or> main_step conf (pr_run s) (pr_run t)"
  using assms
proof (cases rule: closing_step.cases)
  case (closed e ds dErr evs errs closeErr r)
  then show ?thesis using deferred [of "pr_run s" e DoClose ds conf closeErr r] by simp
qed simp_all

lemma copying_step_run: "copying_step conf s t \<Longrightarrow> pr_run t = pr_run s"
  by (auto elim: copying_step.cases)

lemma proc_step_run:
  assumes "proc_step w conf s t" and "proc_inv w conf os0 s"
  shows "pr_run t = pr_run s \<or> env_step conf (pr_run s) (pr_run t)"
  using assms(1)
proof (cases rule: proc_step_cases)
  case start
  then show ?thesis by (simp add: start_step_run)
next
  case serving
  then show ?thesis using serving_step_run [OF serving proc_invD(2) [OF assms(2)]] by (auto simp: env_step_def run_step_def)
next
  case copying
  then show ?thesis by (simp add: copying_step_run)
next
  case closing
  then show ?thesis using closing_step_run [OF closing] by (auto simp: env_step_def run_step_def)
qed

section \<open>Every step keeps the invariant\<close>

text \<open>What the steps of the run leave of the state of the client's goroutines.\<close>

lemma main_step_start:
  assumes "main_step conf r r'"
  shows "rn_start r' = rn_start r \<and> rn_client r' = rn_client r 
    \<or> rn_start r = StartReady \<and> rn_start r' = StartDone \<and> rn_client r'"
  using assms
proof (cases rule: main_step.cases)
  case (deferred e d ds closeErr)
  then show ?thesis by (cases d) (auto simp: NotifyStopped_def close_chan_def split: if_splits)
qed (auto simp: spawnStart_def spawnServers_def)

lemma main_step_serve:
  assumes "main_step conf r r'" and "run_inv conf r" and "serve_ok (rn_senders r FromServe) ph"
  shows "serve_ok (rn_senders r' FromServe) ph"
  using assms(1)
proof (cases rule: main_step.cases)
  case (deferred e d ds closeErr)
  then show ?thesis using assms(3) by (cases d) (auto simp: NotifyStopped_def close_chan_def split: if_splits)
next
  case servers_up
  then show ?thesis using run_invD(2) [OF assms(2)] assms(3) by (simp add: spawnServers_def serve_ok_def)
qed (use assms(3) in \<open>auto simp: serve_ok_def spawnStart_def\<close>)

lemma main_step_check:
  assumes "main_step conf r r'"
  shows "ck_started (rn_check r') = ck_started (rn_check r)"
  using assms
proof (cases rule: main_step.cases)
  case (deferred e d ds closeErr)
  then show ?thesis by (cases d) (auto simp: NotifyStopped_def close_chan_def split: if_splits)
qed (auto simp: spawnStart_def spawnServers_def)

lemma other_step_keeps:
  assumes "other_step conf r r'"
  shows "rn_client r' = rn_client r" "rn_done r' = rn_done r" "rn_closes r' = rn_closes r"
  using assms by (auto elim!: other_step.cases simp: send_def quitquitquit_def split: if_splits)

lemma in_close_Returning: "in_close r \<Longrightarrow> \<exists>e ds. rn_main r = Returning e \<and> rn_defers r = DoClose # ds"
  by (cases "rn_main r"; cases "rn_defers r") (auto simp: in_close_def)

lemma in_close_frame: "in_close r \<Longrightarrow> rn_main r' = rn_main r \<Longrightarrow> rn_defers r' = rn_defers r \<Longrightarrow> in_close r'"
  by (cases "rn_main r") (auto simp: in_close_def)

lemma other_step_close:
  assumes "other_step conf r r'" and "close_ok ph r"
  shows "close_ok ph r'"
proof -
  have "in_close r'" if "in_close r"
    using in_close_Returning [OF that] in_close_frame [OF that] other_step_frame [OF assms(1)] by auto
  with assms(2) other_step_keeps [OF assms(1)] show ?thesis by (cases ph) auto
qed

lemma main_step_close:
  assumes "main_step conf r r'" and "\<not> in_close r" and "close_ok ph r" and "run_inv conf r"
  shows "close_ok ph r'"
  using assms(1)
proof (cases rule: main_step.cases)
  case (deferred e d ds closeErr)
  then have "d \<noteq> DoClose" using assms(2) by (auto simp: in_close_def)
  with deferred assms(2,3) show ?thesis
    by (cases d; cases ph) (auto simp: NotifyStopped_def close_chan_def split: if_splits)
qed (use assms(2,3) in \<open>(cases ph; auto simp: spawnStart_def spawnServers_def)+\<close>)

lemma closeMounts_snoc:
  assumes "closeMounts sys ms s = (errs, s1)" and "socketMount_Close sys m s1 = (e, s2)"
  shows "closeMounts sys (ms @ [m]) s = (errs @ opt_list e, s2)"
  using assms
proof (induction ms arbitrary: s errs)
  case (Cons a ms)
  then show ?case by (auto split: prod.splits option.splits)
qed (auto simp: opt_list_def split: option.splits)

lemma waitLoop_append:
  "\<forall>e \<in> set evs. \<exists>n. e = Tick n \<and> 0 < n \<Longrightarrow> waitLoop (evs @ es) = waitLoop es"
  by (induction evs) auto

lemma start_step_inv:
  assumes "start_step w conf s t" and "proc_inv w conf os0 s"
  shows "proc_inv w conf os0 t"
proof -
  note inv = proc_invD [OF assms(2)]
  have run: "run_inv conf (pr_run t)" using start_step_run [OF assms(1)] inv(1) env_step_inv by auto
  show ?thesis using assms(1)
  proof (cases rule: start_step.cases)
    case (main r)
    with main_step_start [OF main(2)] inv(3) have "client_ok w conf os0 t"
      by (auto simp: client_ok_def split: option.splits)
    with main run main_step_serve [OF main(2) inv(1,2)] main_step_close [OF main(2,3) inv(4,1)] inv(5,6)
      main_step_check [OF main(2)] show ?thesis
      by (simp add: proc_inv_def started_ok_def)
  next
    case (others r)
    with other_step_keeps [OF others(2)] inv(3) have "client_ok w conf os0 t"
      by (auto simp: client_ok_def bystander_def split: option.splits)
    with others run inv other_step_close [OF others(2) inv(4)] show ?thesis by (simp add: proc_inv_def bystander_def)
  next
    case canceled
    have "close_ok ph (cancel_ctx r)" if "close_ok ph r" for ph r
      using that by (cases ph) (auto simp: cancel_ctx_def intro: in_close_frame)
    with canceled run inv show ?thesis
      by (auto simp: proc_inv_def cancel_ctx_def client_ok_def split: option.splits)
  next
    case (start_moved ph s1)
    then have none: "pr_client s = None" using inv(3) by (auto simp: client_ok_def split: option.splits)
    have "new_rest w conf ph s1 = new_rest w conf (pr_new s) (pr_os s)" using NewClient_next_rest [OF start_moved(5)] .
    moreover have "opened n ls (new_mounts ph) s1" if "opened n ls (new_mounts (pr_new s)) (pr_os s)" for n ls
      using NewClient_next_opened [OF that start_moved(5)] .
    ultimately have "client_ok w conf os0 t" using start_moved none inv(3) by (auto simp: client_ok_def)
    with start_moved run inv show ?thesis by (simp add: proc_inv_def)
  next
    case (start_ok c)
    then have none: "pr_client s = None" using inv(3) by (auto simp: client_ok_def split: option.splits)
    with inv(3) start_ok have s: "new_rest w conf NewCalled os0 = (Ok c, pr_os s)" "\<not> rn_client (pr_run s)" "pr_close s = NotClosing" "pr_server s = init_server []"
      by (auto simp: client_ok_def)
    then have "client_ok w conf os0 t" "pipes_ok (mounts t) (sv_conns (pr_server t)) (pr_pipes t)"
      using start_ok inv(5) none by (auto simp: client_ok_def init_server_def pipes_ok_def split: prod.splits)
    with start_ok run inv s show ?thesis by (simp add: proc_inv_def)
  next
    case (start_err e)
    then have none: "pr_client s = None" using inv(3) by (auto simp: client_ok_def split: option.splits)
    with inv(3) have "client_ok w conf os0 t" "pr_close s = NotClosing"
      using start_err by (auto simp: client_ok_def send_def)
    with start_err run inv show ?thesis by (simp add: proc_inv_def send_def)
  qed
qed

lemma pipes_okD: "pipes_ok mnts cs ps \<Longrightarrow> k < length cs \<Longrightarrow> pipe_ok (sm_inst (mnts ! fst (cs ! k))) (snd (cs ! k)) (ps k)"
  "pipes_ok mnts cs ps \<Longrightarrow> \<not> k < length cs \<Longrightarrow> ps k = init_pipe"
  by (metis pipes_ok_def)+

lemma pipes_ok_append:
  assumes "pipes_ok mnts cs ps"
  shows "pipes_ok mnts (cs @ [(i, Accepted)]) ps"
  using pipes_okD [OF assms] by (auto simp: pipes_ok_def nth_append less_Suc_eq pipe_ok_def)

lemma server_extend:
  "(serve_step m ntf mnts)\<^sup>*\<^sup>* sv0 sv \<Longrightarrow> accept_step sv sv' \<or> conn_step m ntf mnts sv sv' \<Longrightarrow> (serve_step m ntf mnts)\<^sup>*\<^sup>* sv0 sv'"
  by (meson rtranclp.rtrancl_into_rtrancl serve_step_def)

lemma serving_step_inv:
  assumes "serving_step conf s t" and "proc_inv w conf os0 s"
  shows "proc_inv w conf os0 t"
proof -
  note inv = proc_invD [OF assms(2)]
  have eq: "pr_run t = pr_run s \<or> other_step conf (pr_run s) (pr_run t)" using serving_step_run [OF assms(1) inv(2)] .
  then have run: "run_inv conf (pr_run t)" "close_ok (pr_close s) (pr_run t)"
    using inv(1,4) run_inv_other other_step_close by auto
  have some: "\<exists>c. pr_client s = Some c" "pr_client t = pr_client s" "pr_close t = pr_close s" "pr_pipes t = pr_pipes s"
      "pr_os t = pr_os s" "pr_new t = pr_new s" "rn_start (pr_run t) = rn_start (pr_run s)" "rn_client (pr_run t) = rn_client (pr_run s)"
    using assms(1) inv(3) by (auto elim!: serving_step.cases simp: client_ok_def send_def split: option.splits if_splits)
  have "serve_ok (rn_senders (pr_run t) FromServe) (pr_serve t)"
    using assms(1) inv(2) by (auto elim!: serving_step.cases simp: serve_ok_def send_def split: sender.splits)
  moreover have sv: "pr_server t = pr_server s \<or> accept_step (pr_server s) (pr_server t)"
    using assms(1) by (auto elim!: serving_step.cases intro: accept_fail)
  then have "client_ok w conf os0 t"
    using some inv(3) by (auto simp: client_ok_def intro: server_extend)
  moreover have "pipes_ok (mounts t) (sv_conns (pr_server t)) (pr_pipes t)"
    using sv inv(5) some(2,4) by (auto elim!: accept_step.cases intro: pipes_ok_append)
  moreover have "started_ok (rn_check (pr_run t)) (pr_serve t)"
    using assms(1) inv(6) by (auto elim!: serving_step.cases simp: started_ok_def send_def)
  ultimately show ?thesis using run some(3) by (simp add: proc_inv_def)
qed

lemma conn_step_pipes:
  assumes "conn_step m ntf mnts sv sv'" and "pipes_ok mnts (sv_conns sv) ps"
    and "\<And>k. k < length (sv_conns sv') \<Longrightarrow> snd (sv_conns sv ! k) = Proxying \<Longrightarrow> snd (sv_conns sv' ! k) \<noteq> Proxying \<Longrightarrow>
      cp_phase (pp_copier (ps k) Down) = Returned"
  shows "pipes_ok mnts (sv_conns sv') ps"
proof -
  have "pipe_ok (sm_inst (mnts ! fst (sv_conns sv' ! k))) (snd (sv_conns sv' ! k)) (ps k)" if k: "k < length (sv_conns sv)" for k
  proof -
    have p: "pipe_ok (sm_inst (mnts ! fst (sv_conns sv ! k))) (snd (sv_conns sv ! k)) (ps k)" using pipes_okD(1) [OF assms(2) k] .
    then have once: "cp_phase (pp_copier (ps k) Down) = Returned \<Longrightarrow> pp_once (ps k) = HasRun"
      using proxy_reachable_inv returned_once by (auto simp: pipe_ok_def)
    from assms(1) p once assms(3) [of k] k show ?thesis
      by (cases rule: conn_step.cases) (auto simp: pipe_ok_def nth_list_update split: if_splits)
  qed
  with assms(2) conn_step_length [OF assms(1)] show ?thesis by (simp add: pipes_ok_def)
qed

lemma copying_step_inv:
  assumes "copying_step conf s t" and "proc_inv w conf os0 s"
  shows "proc_inv w conf os0 t"
  using assms(1)
proof (cases rule: copying_step.cases)
  note inv = proc_invD [OF assms(2)]
  case (conn_moved c sv)
  with inv(3) have "client_ok w conf os0 t"
    by (auto simp: client_ok_def intro: server_extend)
  with conn_moved inv conn_step_pipes [OF conn_moved(3) _ conn_moved(4)] show ?thesis by (simp add: proc_inv_def)
next
  note inv = proc_invD [OF assms(2)]
  case (copied c k i ph p)
  have c: "mounts s = cl_mnts c" "mounts t = cl_mnts c" using copied by (simp_all add: mounts_def)
  have ok: "pipe_ok (sm_inst (cl_mnts c ! i)) ph (pr_pipes s k)"
    using pipes_okD(1) [OF inv(5) copied(3)] copied(4) c by simp
  then have p: "(proxy_step (sm_inst (cl_mnts c ! i)))\<^sup>*\<^sup>* init_pipe p" "pp_once (pr_pipes s k) = HasRun \<longrightarrow> pp_once p = HasRun"
      "pp_once init_pipe \<noteq> HasRun"
    using copied(6) proxy_step_once proxy_reachable_inv by (auto simp: pipe_ok_def init_pipe_def intro: rtranclp.rtrancl_into_rtrancl)
  then have "pipe_ok (sm_inst (cl_mnts c ! i)) ph p" using copied(5) ok by (auto simp: pipe_ok_def split: phase.splits)
  with copied inv(5) c have "pipes_ok (mounts t) (sv_conns (pr_server t)) (pr_pipes t)"
    using pipes_okD [OF inv(5)] by (auto simp: pipes_ok_def)
  with copied inv show ?thesis by (auto simp: proc_inv_def client_ok_def split: option.splits)
qed

lemma closing_step_os:
  assumes "closing_step w conf s t" and "pr_client s = Some c" and "os_ok (wd_sys w) conf c s1 (pr_close s) (pr_os s)"
  shows "os_ok (wd_sys w) conf c s1 (pr_close t) (pr_os t)"
  using assms(1)
proof (cases rule: closing_step.cases)
  case (tick c' dErr evs n)
  with assms(2,3) show ?thesis by (auto simp: waitLoop_append)
next
  case (timeout c' dErr evs)
  with assms(2,3) show ?thesis by (auto simp: waitLoop_append)
next
  case (mount_closed dErr evs errs m ms e s2)
  with assms(3) obtain fin where fin: "waitLoop evs \<noteq> None" "cl_mnts c = fin @ m # ms"
    "closeMounts (wd_sys w) fin s1 = (errs, pr_os s)" by auto
  from closeMounts_snoc [OF fin(3) mount_closed(4)] fin(1,2) mount_closed show ?thesis
    by (auto intro!: exI [of _ "fin @ [m]"])
qed (use assms(3) in auto)

lemma closing_step_inv:
  assumes "closing_step w conf s t" and "proc_inv w conf os0 s"
  shows "proc_inv w conf os0 t"
proof -
  note inv = proc_invD [OF assms(2)]
  have run: "run_inv conf (pr_run t)" using closing_step_run [OF assms(1)] inv(1) run_inv_main by auto
  have rest: "pr_client t = pr_client s" "pr_new t = pr_new s" "pr_server t = pr_server s" "pr_serve t = pr_serve s" "pr_pipes t = pr_pipes s"
    "rn_start (pr_run t) = rn_start (pr_run s)" "rn_senders (pr_run t) = rn_senders (pr_run s)"
    "rn_check (pr_run t) = rn_check (pr_run s)" "rn_client (pr_run t) = rn_client (pr_run s)"
    using assms(1) by (auto elim!: closing_step.cases)
  have "in_close (pr_run s)" using assms(1) by (auto elim!: closing_step.cases simp: in_close_def)
  then have "rn_client (pr_run s)" using run_invD(1) [OF inv(1)]
    by (auto dest!: in_close_Returning simp: registered_def append_eq_append_conv2 append_eq_Cons_conv Cons_eq_append_conv split: if_splits)
  then obtain c where c: "pr_client s = Some c" using inv(3) by (auto simp: client_ok_def split: option.splits)
  with inv(3) rest closing_step_os [OF assms(1)] have "client_ok w conf os0 t" by (auto simp: client_ok_def)
  moreover have "close_ok (pr_close t) (pr_run t)"
    using assms(1) inv(4)
  proof (cases rule: closing_step.cases)
    case (closed e ds dErr evs errs closeErr r)
    have "DoClose \<notin> set (rn_done (pr_run s))" using due_not_done [OF inv(1) closed(3)] .
    then have "rn_closes (pr_run s) = []"
      using run_invD(5) [OF inv(1)] closed(2) by (auto simp: result_ok_def)
    with closed show ?thesis by auto
  qed auto
  ultimately show ?thesis using run inv(2,5,6) rest by (simp add: proc_inv_def)
qed

lemma proc_step_inv: "proc_inv w conf os0 s \<Longrightarrow> proc_step w conf s t \<Longrightarrow> proc_inv w conf os0 t"
  by (erule proc_step_cases) (auto intro: start_step_inv serving_step_inv copying_step_inv closing_step_inv)

interpretation whole: simulation "proc_step w conf" "proc_inv w conf os0" "env_step conf" pr_run for w conf os0
proof
  show "proc_inv w conf os0 t" if "proc_inv w conf os0 s" "proc_step w conf s t" for s t
    using that by (rule proc_step_inv)
  show "(env_step conf)\<^sup>*\<^sup>* (pr_run s) (pr_run t)" if "proc_inv w conf os0 s" "proc_step w conf s t" for s t
    using proc_step_run [OF that(2,1)] by auto
qed

lemma proc_reachable_inv: "(proc_step w conf)\<^sup>*\<^sup>* (init_proc os0) s \<Longrightarrow> proc_inv w conf os0 s"
  by (rule whole.inv_steps [OF _ proc_inv_init])

section \<open>What the client's state says\<close>

lemma proc_client:
  assumes "proc_inv w conf os0 s" and "pr_client s = Some c"
  obtains warm s1 where
    "NewClient (wd_cred w) (wd_newDialer w) (wd_sys w) (wd_fuse w) (wd_given w) (wd_notify w) conf os0 = (Ok c, warm, s1)"
    "os_ok (wd_sys w) conf c s1 (pr_close s) (pr_os s)"
    "(serve_step (cf_MaxConnections conf) (cl_connRefuseNotify c) (cl_mnts c))\<^sup>*\<^sup>* (init_server (cl_mnts c)) (pr_server s)"
  using proc_invD(3) [OF assms(1)] assms(2) by (auto simp: client_ok_def)

lemma proc_unclosed:
  assumes "proc_inv w conf os0 s" and "pr_client s = Some c" and "pr_close s = NotClosing"
  obtains warm where
    "NewClient (wd_cred w) (wd_newDialer w) (wd_sys w) (wd_fuse w) (wd_given w) (wd_notify w) conf os0 = (Ok c, warm, pr_os s)"
  using proc_invD(3) [OF assms(1)] assms(2,3) by (auto simp: client_ok_def)

lemma proc_rn_client: "proc_inv w conf os0 s \<Longrightarrow> rn_client (pr_run s) \<Longrightarrow> \<exists>c. pr_client s = Some c"
  by (drule proc_invD(3)) (auto simp: client_ok_def split: option.splits)

text \<open>A \<open>Close\<close> that has returned did what \<open>Client_Close\<close> says.\<close>

lemma closed_is_Client_Close:
  assumes "closeMounts sys (cl_mnts c) s1 = (errs, s)" and "waitLoop evs \<noteq> None" and "fm_fuseDir (cl_fuse c) = []"
  shows "Client_Close sys fe dErr rng evs c2 n c s1 = Some (map_option MultiErr (nonempty (closeErrors (cl_conf c) dErr errs n)), s)"
  using assms by (simp add: Client_Close_def closeErrors_def nonempty_def Let_def)

text \<open>The step in which it returns, with the counter it loads then.\<close>

lemma close_returns:
  assumes "closing_step w conf s t" and "proc_inv w conf os0 s" and "pr_client s = Some c"
    and "os_ok (wd_sys w) conf c s1 (pr_close s) (pr_os s)" and "fm_fuseDir (cl_fuse c) = []" and "cl_conf c = conf"
    and "pr_close t = CloseReturned x"
  shows "\<exists>dErr evs errs. pr_close s = CloseListeners dErr evs errs []
    \<and> Client_Close (wd_sys w) fe dErr id evs c (sv_connCount (pr_server s)) c s1 = Some (x, pr_os t) \<and> rn_closes (pr_run t) = [x]"
  using assms(1)
proof (cases rule: closing_step.cases)
  case (closed e ds dErr evs errs closeErr r)
  have "waitLoop evs \<noteq> None" "closeMounts (wd_sys w) (cl_mnts c) s1 = (errs, pr_os s)" using assms(4) closed(4) by auto
  from closed_is_Client_Close [OF this(2,1) assms(5), of fe dErr id c "sv_connCount (pr_server s)"] closed assms(6,7)
  have "Client_Close (wd_sys w) fe dErr id evs c (sv_connCount (pr_server s)) c s1 = Some (x, pr_os t)" by simp
  moreover have "rn_closes (pr_run t) = [x]"
    using proc_invD(4) [OF closing_step_inv [OF assms(1,2)]] assms(7) by simp
  ultimately show ?thesis using closed(4) by blast
qed (use assms(7) in \<open>auto split: if_splits\<close>)

text \<open>The ticks that \<open>Close\<close> has recorded are values of the counter.\<close>

fun close_events :: "close_phase \<Rightarrow> close_event list" where
  "close_events (CloseWaiting dErr evs) = evs"
| "close_events (CloseListeners dErr evs errs rest) = evs"
| "close_events _ = []"

lemma proc_step_events:
  assumes "proc_step w conf s t" and "Tick n \<in> set (close_events (pr_close t))"
  shows "Tick n \<in> set (close_events (pr_close s)) \<or> sv_connCount (pr_server s) = n"
  using assms(1)
proof (cases rule: proc_step_cases)
  case start
  then show ?thesis using assms(2) by (auto elim!: start_step.cases)
next
  case serving
  then show ?thesis using assms(2) by (auto elim!: serving_step.cases)
next
  case copying
  then show ?thesis using assms(2) by (auto elim!: copying_step.cases)
next
  case closing
  then show ?thesis using assms(2) by (auto elim!: closing_step.cases split: if_splits)
qed

lemma ticks_seen:
  assumes "(proc_step w conf)\<^sup>*\<^sup>* (init_proc os0) s" and "Tick n \<in> set (close_events (pr_close s))"
  shows "\<exists>u. (proc_step w conf)\<^sup>*\<^sup>* (init_proc os0) u \<and> (proc_step w conf)\<^sup>*\<^sup>* u s \<and> sv_connCount (pr_server u) = n"
  using assms
proof (induction rule: rtranclp_induct)
  case base
  then show ?case by (simp add: init_proc_def)
next
  case (step s t)
  have "(proc_step w conf)\<^sup>*\<^sup>* s t" using step.hyps(2) by simp
  from proc_step_events [OF step.hyps(2) step.prems] show ?case
  proof
    assume "Tick n \<in> set (close_events (pr_close s))"
    from step.IH [OF this] obtain u where
      "(proc_step w conf)\<^sup>*\<^sup>* (init_proc os0) u" "(proc_step w conf)\<^sup>*\<^sup>* u s" "sv_connCount (pr_server u) = n" by blast
    with step.hyps(2) show ?thesis by (intro exI [of _ u]) (simp add: rtranclp.rtrancl_into_rtrancl)
  next
    assume "sv_connCount (pr_server s) = n"
    with step.hyps(1) \<open>(proc_step w conf)\<^sup>*\<^sup>* s t\<close> show ?thesis by blast
  qed
qed

text \<open>What readiness says about the client and its listeners.\<close>

lemma ready_listening:
  assumes "(proc_step w conf)\<^sup>*\<^sup>* (init_proc os0) s" and "cf_FUSEDir conf = []" and "\<forall>l \<in> set (os_listeners os0). fst l < os_next os0"
    and "cf_HealthCheck conf" and "http_get metrics conf s ''/readiness'' = Some (200, body)"
  shows "\<exists>c new sm. pr_client s = Some c \<and> os_listeners (pr_os s) = os_listeners os0 @ new
    \<and> map fst new = map sm_listener (cl_mnts c) \<and> distinct (map fst new)
    \<and> (\<not> cf_SkipFailedInstanceConfig conf \<longrightarrow> map sm_inst (cl_mnts c) = map ic_Name (cf_Instances conf))
    \<and> pr_serve s = Loops sm \<and> sm \<noteq> Starting
    \<and> \<not> (0 < cf_MaxConnections conf \<and> sv_connCount (pr_server s) = cf_MaxConnections conf)"
proof -
  have inv: "proc_inv w conf os0 s" using assms(1) by (rule proc_reachable_inv)
  obtain c where c: "pr_client s = Some c" "HandleReadiness (ConnCount (pr_server s) c) (rn_check (pr_run s)) = (200, body)"
    using assms(5) by (auto simp: http_get_def serveHTTP_readiness [OF assms(4)] split: option.splits if_splits)
  have ready: "rn_done (pr_run s) = []" "hd (rn_defers (pr_run s)) = DoStopped"
    using ready_not_stopped(3,4) [OF proc_invD(1) [OF inv] assms(4), of "ConnCount (pr_server s) c"] c(2) by simp_all
  then have close: "pr_close s = NotClosing"
    using proc_invD(4) [OF inv] in_close_Returning [of "pr_run s"] by (cases "pr_close s") auto
  obtain warm where n: "NewClient (wd_cred w) (wd_newDialer w) (wd_sys w) (wd_fuse w) (wd_given w) (wd_notify w) conf os0 = (Ok c, warm, pr_os s)"
    using proc_unclosed [OF inv c(1) close] .
  note cl = NewClient_opened [OF n assms(2,3)]
  have "ck_started (rn_check (pr_run s))" "\<not> (0 < cf_MaxConnections conf \<and> sv_connCount (pr_server s) = cf_MaxConnections conf)"
    using c(2) cl(3) by (auto simp: HandleReadiness_def ConnCount_def split: if_splits)
  moreover have "\<not> cf_SkipFailedInstanceConfig conf \<longrightarrow> map sm_inst (cl_mnts c) = map ic_Name (cf_Instances conf)"
    using arg_cong [where f = "map fst", OF NewClient_instances [OF n assms(2)]] by (auto simp: o_def)
  ultimately show ?thesis using c(1) cl(1) proc_invD(6) [OF inv] by (fastforce simp: opened_def started_ok_def)
qed

section \<open>Sample runs\<close>

text \<open>The process when \<open>Serve\<close> has called \<open>notify\<close> and waits for an accept loop to fail.\<close>

definition serving_proc :: "Config \<Rightarrow> Client \<Rightarrow> os \<Rightarrow> proc" where
  "serving_proc conf c s1 =
     \<lparr>pr_run = (up_run conf ServersUp False)\<lparr>rn_check := (if cf_HealthCheck conf then NewCheck\<lparr>ck_startedOnce := True, ck_started := True\<rparr> else NewCheck)\<rparr>,
      pr_os = s1, pr_new = NewDone (Ok c), pr_client = Some c, pr_server = init_server (cl_mnts c), pr_serve = Loops Receiving,
      pr_pipes = (\<lambda>_. init_pipe), pr_close = NotClosing\<rparr>"

text \<open>A configuration without FUSE, telemetry and connection test.\<close>

definition plain_conf :: "Config \<Rightarrow> bool" where
  "plain_conf conf \<longleftrightarrow> \<not> telemetryOn conf \<and> cf_FUSEDir conf = [] \<and> \<not> cf_RunConnectionTest conf"

lemma start_moves:
  assumes "rn_senders (pr_run s) FromStart = Idle" and "rn_start (pr_run s) = Launching" and "new_rest w conf (pr_new s) (pr_os s) = (r, s1)"
    and "r \<noteq> Panic"
  shows "(proc_step w conf)\<^sup>*\<^sup>* s (s\<lparr>pr_new := NewDone r, pr_os := s1\<rparr>)"
  using assms
proof (induction "new_left conf (pr_new s)" arbitrary: s rule: less_induct)
  case less
  show ?case
  proof (cases "new_left conf (pr_new s) = 0")
    case True
    then obtain r' where "pr_new s = NewDone r'" using less.prems(3,4) by (cases "pr_new s") auto
    with less.prems(3) have "s\<lparr>pr_new := NewDone r, pr_os := s1\<rparr> = s" by simp
    then show ?thesis by simp
  next
    case False
    obtain ph s2 where n: "new_next w conf (pr_new s) (pr_os s) = (ph, s2)" by (cases "new_next w conf (pr_new s) (pr_os s)")
    let ?t = "s\<lparr>pr_new := ph, pr_os := s2\<rparr>"
    have "pr_new s \<noteq> NewDone x" for x using False by auto
    then have "proc_step w conf s ?t" using start_moved [OF less.prems(1,2) _ n] by (simp add: proc_step_def)
    moreover have "(proc_step w conf)\<^sup>*\<^sup>* ?t (?t\<lparr>pr_new := NewDone r, pr_os := s1\<rparr>)"
      using less.hyps [of ?t] new_left_next [OF n False] NewClient_next_rest [OF n] less.prems by simp
    ultimately show ?thesis by (simp add: converse_rtranclp_into_rtranclp)
  qed
qed

lemma serving_reached:
  assumes "plain_conf conf" and "\<forall>l \<in> set (os_listeners os0). fst l < os_next os0"
    and "NewClient (wd_cred w) (wd_newDialer w) (wd_sys w) (wd_fuse w) (wd_given w) (wd_notify w) conf os0 = (Ok c, warm, s1)"
  shows "(proc_step w conf)\<^sup>*\<^sup>* (init_proc os0) (serving_proc conf c s1)"
proof -
  let ?st = "proc_step w conf" and ?i = "init_proc os0"
  let ?a = "?i\<lparr>pr_run := spawnStart init_run\<rparr>"
  let ?a' = "?a\<lparr>pr_new := NewDone (Ok c), pr_os := s1\<rparr>"
  let ?b = "?a'\<lparr>pr_run := (spawnStart init_run)\<lparr>rn_start := StartReady\<rparr>, pr_client := Some c, pr_server := init_server (cl_mnts c)\<rparr>"
  let ?r = "(spawnStart init_run)\<lparr>rn_start := StartReady\<rparr>"
  let ?q = "?r\<lparr>rn_main := Setup, rn_start := StartDone, rn_client := True, rn_defers := DoClose # rn_defers ?r,
       rn_sdNotify := rn_sdNotify ?r @ [''READY=1'']\<rparr>"
  let ?d = "?b\<lparr>pr_run := up_run conf ServersUp False\<rparr>"
  have conf: "\<not> telemetryOn conf" "cf_FUSEDir conf = []" "\<not> cf_RunConnectionTest conf" using assms(1) by (simp_all add: plain_conf_def)
  note cl = NewClient_opened [OF assms(3) conf(2) assms(2)]
  have "?st ?i ?a"
    using main [of conf ?i "spawnStart init_run" w] telemetry_off [of init_run conf] conf(1)
    by (simp add: proc_step_def init_proc_def init_run_def in_close_def)
  moreover have "?st\<^sup>*\<^sup>* ?a ?a'"
    using start_moves [of ?a w conf "Ok c" s1] assms(3) by (simp add: init_proc_def run_simps)
  moreover have "?st ?a' ?b"
    using start_ok [of ?a' c w conf] by (simp add: proc_step_def init_proc_def run_simps)
  moreover have "?st ?b (?b\<lparr>pr_run := ?q\<rparr>)"
    using main [of conf ?b ?q w] started [of ?r conf] by (simp add: proc_step_def in_close_def spawnStart_def)
  moreover have "?st (?b\<lparr>pr_run := ?q\<rparr>) ?d"
    using main [of conf "?b\<lparr>pr_run := ?q\<rparr>" "up_run conf ServersUp False" w] servers_up [of ?q conf]
    by (simp add: proc_step_def in_close_def run_simps up_run_def)
  moreover have "?st ?d (?d\<lparr>pr_serve := Loops Starting\<rparr>)"
    using loops_started [of ?d c id id "\<lambda>_. None" conf] cl(2,3) conf(3)
    by (simp add: proc_step_def up_run_def run_simps Serve_start_def init_proc_def)
  moreover have "?st (?d\<lparr>pr_serve := Loops Starting\<rparr>) (serving_proc conf c s1)"
    using notify_called [of "?d\<lparr>pr_serve := Loops Starting\<rparr>" conf "rn_check (pr_run (serving_proc conf c s1))"]
    by (simp add: proc_step_def serving_proc_def init_proc_def up_run_def run_simps NotifyStarted_def NewCheck_def close_chan_def
        split: if_splits)
  ultimately show ?thesis by (meson converse_rtranclp_into_rtranclp rtranclp.rtrancl_refl rtranclp_trans)
qed

text \<open>Two instances on a system where everything works, with a health check.\<close>

definition sample_world :: "nat world" where
  "sample_world = \<lparr>wd_cred = sample_env, wd_newDialer = (\<lambda>_. None), wd_sys = plain_sys (\<lambda>_. ''MYSQL_8_0''), wd_fuse = no_fuse,
     wd_given = True, wd_notify = False\<rparr>"

definition sample_conf :: "bool \<Rightarrow> int \<Rightarrow> Config" where
  "sample_conf health wait = two_ports\<lparr>cf_HealthCheck := health, cf_WaitOnClose := wait\<rparr>"

lemma sample_conf_simps [simp]:
  "cf_HealthCheck (sample_conf h d) = h" "cf_WaitOnClose (sample_conf h d) = d" "cf_FUSEDir (sample_conf h d) = []"
  "plain_conf (sample_conf h d)" "cf_MaxConnections (sample_conf h d) = 0" "cf_TelemetryProject (sample_conf h d) = []"
  by (simp_all add: sample_conf_def two_ports_def zero_Config_def plain_conf_def telemetryOn_def)

lemma sample_client:
  "\<exists>c warm s1. NewClient (wd_cred sample_world) (wd_newDialer sample_world) (wd_sys sample_world) (wd_fuse sample_world)
     (wd_given sample_world) (wd_notify sample_world) (sample_conf h d) (init_os []) = (Ok c, warm, s1)"
  by (simp add: NewClient_def initDialer_def sample_conf_def two_ports_def zero_Config_def zero_inst_def newSocketMount_def sample_world_def
      listenAddress_def networkType_def listenPort_def plain_sys_def nextPort_def newPortConfig_def
      net_Listen_def init_os_def Let_def)

lemma closeMounts_ok:
  assumes "\<forall>m \<in> set ms. sm_listener m \<in> fst ` set (os_listeners s)" and "distinct (map sm_listener ms)"
    and "\<And>s h. close_err sys s h = None"
  shows "closeMounts sys ms s = ([], s\<lparr>os_listeners := filter (\<lambda>l. fst l \<notin> sm_listener ` set ms) (os_listeners s)\<rparr>)"
  using assms(1,2)
proof (induction ms arbitrary: s)
  case (Cons m ms)
  let ?s = "s\<lparr>os_listeners := filter (\<lambda>l. fst l \<noteq> sm_listener m) (os_listeners s)\<rparr>"
  have "sm_listener x \<in> fst ` set (os_listeners ?s)" if "x \<in> set ms" for x
  proof -
    have "sm_listener x \<noteq> sm_listener m" using that Cons.prems(2) by (auto intro: rev_image_eqI)
    with that Cons.prems(1) show ?thesis by force
  qed
  with Cons.IH [of ?s] Cons.prems assms(3) show ?case
    by (simp add: socketMount_Close_def ln_Close_def conj_commute)
qed simp

lemma sample_serving:
  obtains c s1 m m' where
    "(proc_step sample_world (sample_conf h d))\<^sup>*\<^sup>* (init_proc (init_os [])) (serving_proc (sample_conf h d) c s1)"
    "cl_mnts c = [m, m']" "cl_conf c = sample_conf h d"
    "closeMounts (wd_sys sample_world) [m, m'] s1 = ([], s1\<lparr>os_listeners := []\<rparr>)"
    "map fst (os_listeners s1) = [sm_listener m, sm_listener m']"
proof -
  obtain c warm s1 where c: "NewClient (wd_cred sample_world) (wd_newDialer sample_world) (wd_sys sample_world) (wd_fuse sample_world)
      (wd_given sample_world) (wd_notify sample_world) (sample_conf h d) (init_os []) = (Ok c, warm, s1)"
    using sample_client by blast
  have os: "\<forall>l \<in> set (os_listeners (init_os [])). fst l < os_next (init_os [])" by (simp add: init_os_def)
  note cl = NewClient_opened [OF c _ os, simplified]
  have "length (cl_mnts c) = 2"
    using arg_cong [where f = length, OF NewClient_instances [OF c]] by (simp add: sample_conf_def two_ports_def zero_Config_def)
  then obtain m m' where m: "cl_mnts c = [m, m']" by (auto simp: length_Suc_conv numeral_2_eq_2)
  have fst: "map fst (os_listeners s1) = [sm_listener m, sm_listener m']" "distinct (map sm_listener [m, m'])"
    using cl(1) m by (auto simp: opened_def init_os_def)
  then have set: "fst ` set (os_listeners s1) = {sm_listener m, sm_listener m'}" by (metis empty_set list.set_map list.simps(15))
  then have "filter (\<lambda>l. fst l \<notin> sm_listener ` set [m, m']) (os_listeners s1) = []" by (auto simp: filter_empty_conv)
  then have "closeMounts (wd_sys sample_world) [m, m'] s1 = ([], s1\<lparr>os_listeners := []\<rparr>)"
    using closeMounts_ok [of "[m, m']" s1 "wd_sys sample_world"] set fst(2) by (simp add: sample_world_def plain_sys_def)
  with that [OF serving_reached [OF _ os c] m _ _ fst(1)] cl(3) show thesis by simp
qed

section \<open>Properties\<close>

text \<open>
  C2. The process is the composition of its components: in every state it reaches, the goroutines
  of the command are in a state their own model allows; a client, once created, is what
  \<open>NewClient\<close> returns on the operating system from before; the accept loops and connections are in a
  state that the server's model allows, with the client's mounts and limit, and every connection's
  copy loops in one that the copy's model allows, for the instance of the mount it was
  accepted on. And the step in which \<open>Close\<close> returns gives the result and the listeners of
  \<open>Client_Close\<close>, for the dialer's error and the events that were recorded on the way, of which every
  tick has the value the counter had in an earlier state, and for the counter at this step; it is
  the one result the command gets.
\<close>

theorem process_refines:
  assumes "(proc_step w conf)\<^sup>*\<^sup>* (init_proc os0) s" and "cf_FUSEDir conf = []" and "\<forall>l \<in> set (os_listeners os0). fst l < os_next os0"
  shows "(env_step conf)\<^sup>*\<^sup>* init_run (pr_run s)
    \<and> (\<forall>c. pr_client s = Some c \<longrightarrow>
        (\<exists>warm s1. NewClient (wd_cred w) (wd_newDialer w) (wd_sys w) (wd_fuse w) (wd_given w) (wd_notify w) conf os0 = (Ok c, warm, s1)
          \<and> (\<forall>t x. closing_step w conf s t \<and> pr_close t = CloseReturned x \<longrightarrow>
               (\<exists>dErr evs errs. pr_close s = CloseListeners dErr evs errs []
                  \<and> (\<forall>n. Tick n \<in> set evs \<longrightarrow>
                       (\<exists>u. (proc_step w conf)\<^sup>*\<^sup>* (init_proc os0) u \<and> (proc_step w conf)\<^sup>*\<^sup>* u s \<and> sv_connCount (pr_server u) = n))
                  \<and> Client_Close (wd_sys w) (wd_fuse w) dErr id evs c (sv_connCount (pr_server s)) c s1 = Some (x, pr_os t)
                  \<and> rn_closes (pr_run t) = [x])))
        \<and> (serve_step (cf_MaxConnections conf) (cl_connRefuseNotify c) (cl_mnts c))\<^sup>*\<^sup>* (init_server (cl_mnts c)) (pr_server s)
        \<and> (\<forall>k < length (sv_conns (pr_server s)).
             (proxy_step (sm_inst (cl_mnts c ! fst (sv_conns (pr_server s) ! k))))\<^sup>*\<^sup>* init_pipe (pr_pipes s k)))"
proof (intro conjI allI impI)
  have inv: "proc_inv w conf os0 s" using assms(1) by (rule proc_reachable_inv)
  show "(env_step conf)\<^sup>*\<^sup>* init_run (pr_run s)"
    using whole.abs_steps [OF assms(1) proc_inv_init] by (simp add: init_proc_def)
  fix c assume c: "pr_client s = Some c"
  obtain warm s1 where n: "NewClient (wd_cred w) (wd_newDialer w) (wd_sys w) (wd_fuse w) (wd_given w) (wd_notify w) conf os0 = (Ok c, warm, s1)"
    "os_ok (wd_sys w) conf c s1 (pr_close s) (pr_os s)"
    "(serve_step (cf_MaxConnections conf) (cl_connRefuseNotify c) (cl_mnts c))\<^sup>*\<^sup>* (init_server (cl_mnts c)) (pr_server s)"
    using proc_client [OF inv c] .
  show "(serve_step (cf_MaxConnections conf) (cl_connRefuseNotify c) (cl_mnts c))\<^sup>*\<^sup>* (init_server (cl_mnts c)) (pr_server s)"
    by (rule n)
  show "(proxy_step (sm_inst (cl_mnts c ! fst (sv_conns (pr_server s) ! k))))\<^sup>*\<^sup>* init_pipe (pr_pipes s k)"
    if "k < length (sv_conns (pr_server s))" for k
    using pipes_okD(1) [OF proc_invD(5) [OF inv] that] c by (simp add: pipe_ok_def)
  note cl = NewClient_opened(2,3) [OF n(1) assms(2,3)]
  note closes = close_returns [OF _ inv c n(2) cl, of _ _ "wd_fuse w"]
  from n(1) closes ticks_seen [OF assms(1)]
  show "\<exists>warm s1. NewClient (wd_cred w) (wd_newDialer w) (wd_sys w) (wd_fuse w) (wd_given w) (wd_notify w) conf os0 = (Ok c, warm, s1)
      \<and> (\<forall>t x. closing_step w conf s t \<and> pr_close t = CloseReturned x \<longrightarrow>
           (\<exists>dErr evs errs. pr_close s = CloseListeners dErr evs errs []
              \<and> (\<forall>n. Tick n \<in> set evs \<longrightarrow>
                   (\<exists>u. (proc_step w conf)\<^sup>*\<^sup>* (init_proc os0) u \<and> (proc_step w conf)\<^sup>*\<^sup>* u s \<and> sv_connCount (pr_server u) = n))
              \<and> Client_Close (wd_sys w) (wd_fuse w) dErr id evs c (sv_connCount (pr_server s)) c s1 = Some (x, pr_os t)
              \<and> rn_closes (pr_run t) = [x]))"
    by (intro exI [of _ warm] exI [of _ s1]) (metis close_events.simps(2))
qed

theorem process_refines_witness:
  "\<exists>c s1. (env_step (sample_conf True 0))\<^sup>*\<^sup>* init_run (pr_run (serving_proc (sample_conf True 0) c s1))
     \<and> (\<exists>warm s2. NewClient (wd_cred sample_world) (wd_newDialer sample_world) (wd_sys sample_world) (wd_fuse sample_world)
          (wd_given sample_world) (wd_notify sample_world) (sample_conf True 0) (init_os []) = (Ok c, warm, s2))"
proof -
  obtain c s1 m m' where
    "(proc_step sample_world (sample_conf True 0))\<^sup>*\<^sup>* (init_proc (init_os [])) (serving_proc (sample_conf True 0) c s1)"
    using sample_serving .
  from process_refines [OF this] show ?thesis by (intro exI [of _ c] exI [of _ s1]) (auto simp: init_os_def serving_proc_def)
qed

text \<open>
  C3. Ready means listening: while \<open>/readiness\<close> answers 200, the listeners of the client are all
  open in the operating system, on top of those open before, one per mount, for every configured
  instance unless failing ones are skipped; the accept loops have been started; and the
  counter is not at a set limit.
\<close>

theorem ready_means_listening:
  assumes "(proc_step w conf)\<^sup>*\<^sup>* (init_proc os0) s" and "cf_FUSEDir conf = []" and "\<forall>l \<in> set (os_listeners os0). fst l < os_next os0"
    and "cf_HealthCheck conf" and "http_get metrics conf s ''/readiness'' = Some (200, body)"
  shows "\<exists>c new sm. pr_client s = Some c \<and> os_listeners (pr_os s) = os_listeners os0 @ new
    \<and> map fst new = map sm_listener (cl_mnts c) \<and> distinct (map fst new)
    \<and> (\<not> cf_SkipFailedInstanceConfig conf \<longrightarrow> map sm_inst (cl_mnts c) = map ic_Name (cf_Instances conf))
    \<and> pr_serve s = Loops sm \<and> sm \<noteq> Starting
    \<and> \<not> (0 < cf_MaxConnections conf \<and> sv_connCount (pr_server s) = cf_MaxConnections conf)"
  by (rule ready_listening [OF assms])

theorem ready_means_listening_witness:
  "\<exists>c s1 new. (proc_step sample_world (sample_conf True 0))\<^sup>*\<^sup>* (init_proc (init_os [])) (serving_proc (sample_conf True 0) c s1)
     \<and> os_listeners s1 = new \<and> map fst new = map sm_listener (cl_mnts c) \<and> length (cl_mnts c) = 2"
proof -
  obtain c s1 m m' where c:
    "(proc_step sample_world (sample_conf True 0))\<^sup>*\<^sup>* (init_proc (init_os [])) (serving_proc (sample_conf True 0) c s1)"
    "cl_mnts c = [m, m']" "cl_conf c = sample_conf True 0" using sample_serving .
  have "http_get (200, []) (sample_conf True 0) (serving_proc (sample_conf True 0) c s1) ''/readiness'' = Some (200, ''ok'')"
    by (simp add: c(3) http_get_def serving_proc_def up_run_def run_simps needsHTTPServer_def serveHTTP_readiness HandleReadiness_def
        ConnCount_def NewCheck_def)
  from ready_means_listening [OF c(1) _ _ _ this] have "map fst (os_listeners s1) = map sm_listener (cl_mnts c)"
    by (auto simp: init_os_def serving_proc_def)
  with c(1,2) show ?thesis by (intro exI [of _ c] exI [of _ s1]) simp
qed

text \<open>
  C31. What a successful wait says about the other process: if the request sent at time \<open>u\<close> is answered
  by the process in the state \<open>at u\<close>, then the wait command returns nil only if that process has its
  health check enabled and, at the request that succeeded, had created its client and started
  its accept loops; and if it was not being closed then, all its listeners were open.
\<close>

theorem wait_means_serving:
  assumes "\<forall>u. (proc_step w conf)\<^sup>*\<^sup>* (init_proc os0) (at u)" and "cf_FUSEDir conf = []"
    and "\<forall>l \<in> set (os_listeners os0). fst l < os_next os0"
    and "get = (\<lambda>u. Some (took u, map_option fst (http_get metrics conf (at u) ''/startup'')))"
    and "runWaitCmd get deadline 0 = Some (None, t)"
  shows "cf_HealthCheck conf \<and> (\<exists>u c sm. 0 \<le> u \<and> u < deadline \<and> pr_client (at u) = Some c \<and> pr_serve (at u) = Loops sm \<and> sm \<noteq> Starting
    \<and> (pr_close (at u) = NotClosing \<longrightarrow>
        (\<forall>m \<in> set (cl_mnts c). sm_listener m \<in> fst ` set (os_listeners (pr_os (at u))))))"
proof -
  obtain u x where u: "0 \<le> u" "u < deadline" "get u = Some (x, Some 200)" using wait_success [OF assms(5)] by blast
  have inv: "proc_inv w conf os0 (at u)" using assms(1) proc_reachable_inv by blast
  obtain c body where c: "pr_client (at u) = Some c"
    "serveHTTP metrics conf (ConnCount (pr_server (at u)) c) (rn_check (pr_run (at u))) ''/startup'' = (200, body)"
    using u(3) assms(4) by (fastforce simp: http_get_def split: option.splits if_splits)
  then have h: "cf_HealthCheck conf" "ck_started (rn_check (pr_run (at u)))"
    by (auto simp: serveHTTP_startup HandleStartup_def split: if_splits)
  then obtain sm where "pr_serve (at u) = Loops sm" "sm \<noteq> Starting" using proc_invD(6) [OF inv] by (auto simp: started_ok_def)
  moreover have "\<forall>m \<in> set (cl_mnts c). sm_listener m \<in> fst ` set (os_listeners (pr_os (at u)))" if "pr_close (at u) = NotClosing"
  proof -
    note unclosed = that
    obtain warm where "NewClient (wd_cred w) (wd_newDialer w) (wd_sys w) (wd_fuse w) (wd_given w) (wd_notify w) conf os0 = (Ok c, warm, pr_os (at u))"
      using proc_unclosed [OF inv c(1) unclosed] .
    from opened_listening [OF NewClient_opened(1) [OF this assms(2,3)]] show ?thesis by blast
  qed
  ultimately show ?thesis using h(1) u(1,2) c(1) by blast
qed

theorem wait_means_serving_witness:
  "\<exists>c s1 sm. pr_serve (serving_proc (sample_conf True 0) c s1) = Loops sm \<and> sm \<noteq> Starting \<and> length (os_listeners s1) = 2"
proof -
  obtain c s1 m m' where c:
    "(proc_step sample_world (sample_conf True 0))\<^sup>*\<^sup>* (init_proc (init_os [])) (serving_proc (sample_conf True 0) c s1)"
    "cl_mnts c = [m, m']" "cl_conf c = sample_conf True 0"
    "closeMounts (wd_sys sample_world) [m, m'] s1 = ([], s1\<lparr>os_listeners := []\<rparr>)"
    "map fst (os_listeners s1) = [sm_listener m, sm_listener m']" using sample_serving .
  have "http_get (200, []) (sample_conf True 0) (serving_proc (sample_conf True 0) c s1) ''/startup'' = Some (200, ''ok'')"
    by (simp add: c(3) http_get_def serving_proc_def up_run_def run_simps needsHTTPServer_def serveHTTP_startup HandleStartup_def NewCheck_def)
  then have "runWaitCmd (\<lambda>u. Some (0, map_option fst (http_get (200, []) (sample_conf True 0) (serving_proc (sample_conf True 0) c s1) ''/startup'')))
      second 0 = Some (None, 0)" by (simp add: wait_done)
  from wait_means_serving [OF _ _ _ refl this, of sample_world "init_os []"] c(1)
  have "\<exists>sm. pr_serve (serving_proc (sample_conf True 0) c s1) = Loops sm \<and> sm \<noteq> Starting" by (auto simp: init_os_def)
  moreover have "length (os_listeners s1) = 2" using arg_cong [where f = length, OF c(5)] by simp
  ultimately show ?thesis by blast
qed

end
