(* ===== verification/Process_Close.thy ===== *)
theory Process_Close
  imports Process_Safety
begin

text \<open>
  How the process ends (model in \<open>Process\<close>): the main goroutine always gets to the exit, what is
  closed by then, and what \<open>Close\<close> says about connections.
\<close>

section \<open>The main goroutine\<close>

text \<open>
  How many steps the main goroutine has left, at most, once there is a reason to stop. Closing
  takes a step for the dialer, one for the end of the wait loop and one per listener; ticks
  are not counted.
\<close>

fun close_left :: "nat \<Rightarrow> close_phase \<Rightarrow> nat" where
  "close_left n NotClosing = n + 2"
| "close_left n (CloseWaiting _ _) = n + 1"
| "close_left n (CloseListeners _ _ _ rest) = length rest"
| "close_left n (CloseReturned _) = 0"

definition proc_left :: "proc \<Rightarrow> nat" where
  "proc_left s = remaining (pr_run s)
     + (if DoClose \<in> set (rn_defers (pr_run s)) then close_left (length (mounts s)) (pr_close s) else 0)"

definition main_goroutine :: "'t world \<Rightarrow> Config \<Rightarrow> proc \<Rightarrow> proc \<Rightarrow> bool" where
  "main_goroutine w conf s t \<longleftrightarrow>
     (\<exists>r. main_step conf (pr_run s) r \<and> \<not> in_close (pr_run s) \<and> t = s\<lparr>pr_run := r\<rparr>) \<or> closing_step w conf s t"

lemma main_step_defers:
  assumes "main_step conf r r'" and "rn_main r \<in> {Sleeping e, Returning e, Exited e}"
  shows "set (rn_defers r') \<subseteq> set (rn_defers r)"
  using assms
proof (cases rule: main_step.cases)
  case (deferred e' d ds closeErr)
  with run_deferred_shape [OF deferred(3)] show ?thesis by auto
qed auto

lemma proc_left_main:
  assumes "remaining r < remaining (pr_run s)" and "set (rn_defers r) \<subseteq> set (rn_defers (pr_run s))"
  shows "proc_left (s\<lparr>pr_run := r\<rparr>) < proc_left s"
  using assms by (auto simp: proc_left_def)

lemma remaining_cong: "rn_main r' = rn_main r \<Longrightarrow> rn_defers r' = rn_defers r \<Longrightarrow> remaining r' = remaining r"
  by (cases "rn_main r") (simp_all add: remaining_def)

lemma in_close_not_done: "run_inv conf r \<Longrightarrow> in_close r \<Longrightarrow> DoClose \<notin> set (rn_done r)"
  using due_not_done by (auto dest!: in_close_Returning)

lemma in_close_client:
  assumes "proc_inv w conf os0 s" and "in_close (pr_run s)"
  shows "\<exists>c. pr_client s = Some c"
proof -
  have "DoClose \<in> set (rn_done (pr_run s) @ rn_defers (pr_run s))" using in_close_Returning [OF assms(2)] by auto
  then show ?thesis
    using run_invD(1) [OF proc_invD(1) [OF assms(1)]] proc_rn_client [OF assms(1)] by (simp add: registered_members)
qed

text \<open>While \<open>Close\<close> runs, its next step is always possible.\<close>

lemma closing_progress:
  assumes "proc_inv w conf os0 s" and "in_close (pr_run s)"
  shows "\<exists>t. closing_step w conf s t \<and> proc_left t < proc_left s"
proof -
  note inv = proc_invD [OF assms(1)]
  obtain e ds where r: "rn_main (pr_run s) = Returning e" "rn_defers (pr_run s) = DoClose # ds"
    using in_close_Returning [OF assms(2)] by blast
  obtain c where c: "pr_client s = Some c" using in_close_client [OF assms] by blast
  have "DoClose \<notin> set ds"
    using distinct_registered [of "served (pr_run s)" "rn_client (pr_run s)" "exporting conf (pr_run s)"] r(2)
    by (auto simp flip: run_invD(1) [OF inv(1)])
  show ?thesis
  proof (cases "pr_close s")
    case NotClosing
    with dialer_closed [OF assms(2), of w conf None] r c show ?thesis by (fastforce simp: proc_left_def)
  next
    case (CloseWaiting dErr evs)
    with timeout [OF assms(2) c, of dErr evs w conf] r c show ?thesis by (fastforce simp: proc_left_def)
  next
    case (CloseListeners dErr evs errs rest)
    show ?thesis
    proof (cases rest)
      case Nil
      define x where "x = nonempty (closeErrors conf dErr errs (sv_connCount (pr_server s)))"
      let ?r = "(pr_run s)\<lparr>rn_defers := ds, rn_done := rn_done (pr_run s) @ [DoClose]\<rparr>"
      let ?q = "?r\<lparr>rn_main := Returning (case x of Some ce \<Rightarrow> MultiErr ce | None \<Rightarrow> e), rn_closes := rn_closes ?r @ [map_option MultiErr x]\<rparr>"
      have "closing_step w conf s (s\<lparr>pr_run := ?q, pr_close := CloseReturned (map_option MultiErr x)\<rparr>)"
        using closed [OF r, of dErr evs errs x conf ?q w] CloseListeners Nil by (simp add: x_def)
      with r CloseListeners \<open>DoClose \<notin> set ds\<close> show ?thesis
        by (intro exI conjI) (auto simp: proc_left_def remaining_def)
    next
      case (Cons m ms)
      obtain e' s1 where "socketMount_Close (wd_sys w) m (pr_os s) = (e', s1)" by (cases "socketMount_Close (wd_sys w) m (pr_os s)")
      with mount_closed [OF assms(2), of dErr evs errs m ms w e' s1 conf] CloseListeners Cons r c show ?thesis
        by (fastforce simp: proc_left_def)
    qed
  next
    case (CloseReturned x)
    with inv(4) in_close_not_done [OF inv(1) assms(2)] show ?thesis by simp
  qed
qed

lemma closing_left:
  assumes "proc_inv w conf os0 s" and "closing_step w conf s t"
  shows "proc_left t \<le> proc_left s"
proof -
  have "in_close (pr_run s)" using assms(2) by (auto elim!: closing_step.cases simp: in_close_def)
  then obtain e ds where r: "rn_main (pr_run s) = Returning e" "rn_defers (pr_run s) = DoClose # ds"
    using in_close_Returning by blast
  show ?thesis using assms(2)
    by (cases rule: closing_step.cases) (use r in \<open>auto simp: proc_left_def remaining_def split: option.splits\<close>)
qed

lemma starting_left:
  assumes "proc_inv w conf os0 s" and "start_step w conf s t" and e: "rn_main (pr_run s) \<in> {Sleeping e, Returning e, Exited e}"
  shows "proc_left t \<le> proc_left s"
  using assms(2)
proof (cases rule: start_step.cases)
  case (main r)
  with proc_left_main [OF main_step_remaining main_step_defers] e show ?thesis by (fastforce intro: less_imp_le)
next
  case (others r)
  then have "rn_main r = rn_main (pr_run s) \<and> rn_defers r = rn_defers (pr_run s)" using e by (intro other_step_frame) auto
  with others remaining_cong [of r "pr_run s"] show ?thesis by (simp add: proc_left_def)
next
  case canceled
  with remaining_cong [of "cancel_ctx (pr_run s)" "pr_run s"] show ?thesis by (simp add: proc_left_def cancel_ctx_def)
next
  case (start_moved ph s1)
  then show ?thesis by (simp add: proc_left_def)
next
  case (start_ok c)
  then have "\<not> rn_client (pr_run s)" using proc_invD(3) [OF assms(1)] by (auto simp: client_ok_def split: option.splits)
  then have "DoClose \<notin> set (rn_done (pr_run s) @ rn_defers (pr_run s))"
    using run_invD(1) [OF proc_invD(1) [OF assms(1)]] by (simp add: registered_members)
  with start_ok remaining_cong [of "(pr_run s)\<lparr>rn_start := StartReady\<rparr>" "pr_run s"] show ?thesis by (simp add: proc_left_def)
next
  case (start_err e')
  with remaining_cong [of "pr_run t" "pr_run s"] show ?thesis by (simp add: proc_left_def send_def)
qed

lemma serving_left:
  assumes "proc_inv w conf os0 s" and "serving_step conf s t" and e: "rn_main (pr_run s) \<in> {Sleeping e, Returning e, Exited e}"
  shows "proc_left t \<le> proc_left s"
proof -
  have "rn_main (pr_run t) = rn_main (pr_run s) \<and> rn_defers (pr_run t) = rn_defers (pr_run s)"
    using serving_step_run [OF assms(2) proc_invD(2) [OF assms(1)]] other_step_frame e by fastforce
  moreover have "pr_client t = pr_client s" "pr_close t = pr_close s" using assms(2) by (auto elim!: serving_step.cases)
  ultimately show ?thesis using remaining_cong [of "pr_run t" "pr_run s"] by (simp add: proc_left_def)
qed

section \<open>Runs that close the client\<close>

text \<open>Steps of the wrapper outside \<open>Close\<close> and outside the goroutines of the client.\<close>

definition outer_step :: "Config \<Rightarrow> run \<Rightarrow> run \<Rightarrow> bool" where
  "outer_step conf r r' \<longleftrightarrow> main_step conf r r' \<and> \<not> in_close r \<or> other_step conf r r' \<and> bystander r r'"

lemma outer_main: "main_step conf r r' \<Longrightarrow> \<not> in_close r \<Longrightarrow> outer_step conf r r'"
  by (simp add: outer_step_def)

lemma outer_proc: "outer_step conf (pr_run s) r \<Longrightarrow> proc_step w conf s (s\<lparr>pr_run := r\<rparr>)"
  using main [of conf s r w] others [of conf s r w] by (auto simp: outer_step_def proc_step_def)

lemma outer_steps_proc: "(outer_step conf)\<^sup>*\<^sup>* r r' \<Longrightarrow> r = pr_run s \<Longrightarrow> (proc_step w conf)\<^sup>*\<^sup>* s (s\<lparr>pr_run := r'\<rparr>)"
proof (induction rule: rtranclp_induct)
  case (step r1 r2)
  then have "proc_step w conf (s\<lparr>pr_run := r1\<rparr>) (s\<lparr>pr_run := r2\<rparr>)"
    using outer_proc [of conf "s\<lparr>pr_run := r1\<rparr>" r2 w] by simp
  with step.IH [OF step.prems] show ?case by (rule rtranclp.rtrancl_into_rtrancl)
qed simp

text \<open>A SIGINT takes a serving process to its deferred \<open>Close\<close>.\<close>

lemma outer_begins:
  assumes "run_inv conf q" and "rn_main q = ServersUp" and "rn_senders q FromSignal = Idle" and "rn_defers q = DoStopped # DoClose # ds"
  shows "\<exists>r. (outer_step conf)\<^sup>*\<^sup>* q r \<and> rn_main r = Returning errSigInt \<and> rn_defers r = DoClose # ds
    \<and> rn_reason r = Some errSigInt \<and> rn_start r = rn_start q \<and> rn_client r = rn_client q
    \<and> (rn_senders q FromServe = Idle \<longrightarrow> rn_senders r FromServe = Idle) \<and> check_inv (rn_check r)"
proof -
  let ?a = "q\<lparr>rn_main := AtShutdown\<rparr>" and ?b = "send FromSignal errSigInt (q\<lparr>rn_main := AtShutdown\<rparr>)"
  let ?c = "?b\<lparr>rn_main := afterReceive errSigInt, rn_senders := (rn_senders ?b)(FromSignal := Sent), rn_reason := Some errSigInt\<rparr>"
  let ?d = "?c\<lparr>rn_main := Returning errSigInt\<rparr>"
  have "DoStopped \<notin> set (rn_done q)" using due_not_done [OF assms(1,4)] .
  then obtain ck where ck: "cf_HealthCheck conf \<Longrightarrow> NotifyStopped (rn_check q) = Ok ck"
    using NotifyStopped_ok [OF run_invD(6) [OF assms(1)]] by auto
  let ?e = "(?d\<lparr>rn_defers := DoClose # ds, rn_done := rn_done q @ [DoStopped]\<rparr>)\<lparr>rn_check := (if cf_HealthCheck conf then ck else rn_check q)\<rparr>"
  have inv: "check_inv (rn_check q)" using run_invD(6) [OF assms(1)] by (simp add: check_ok_def)
  have "check_inv ck" if "cf_HealthCheck conf"
    using ck [OF that] inv by (auto simp: NotifyStopped_def check_inv_def close_chan_def split: if_splits)
  with inv have e_inv: "check_inv (rn_check ?e)" by simp
  have "outer_step conf q ?a"
    using receive [of q conf] assms(2) by (intro outer_main) (simp_all add: in_close_def)
  moreover have "outer_step conf ?a ?b"
    using signalled [of ?a conf SIGINT] assms(3) by (simp add: outer_step_def signalError_def bystander_def send_def)
  moreover have "outer_step conf ?b ?c"
    using received [of ?b FromSignal errSigInt conf] by (intro outer_main) (simp_all add: in_close_def send_def)
  moreover have "outer_step conf ?c ?d"
    using slept [of ?c errSigInt conf] by (intro outer_main) (simp_all add: in_close_def afterReceive_def)
  moreover have "main_step conf ?d ?e"
    by (rule deferred [of _ errSigInt DoStopped "DoClose # ds" _ None]) (use assms(4) ck in \<open>simp_all add: send_def\<close>)
  then have "outer_step conf ?d ?e" using assms(4) by (intro outer_main) (simp_all add: in_close_def send_def)
  ultimately have "(outer_step conf)\<^sup>*\<^sup>* q ?e" by (meson converse_rtranclp_into_rtranclp rtranclp.rtrancl_refl)
  with e_inv show ?thesis by (intro exI [of _ ?e]) (simp add: send_def)
qed

lemma closing_begins:
  assumes "run_inv conf (pr_run s)" and "rn_main (pr_run s) = ServersUp" and "rn_senders (pr_run s) FromSignal = Idle"
    and "rn_defers (pr_run s) = DoStopped # DoClose # ds"
  shows "\<exists>r. (proc_step w conf)\<^sup>*\<^sup>* s (s\<lparr>pr_run := r\<rparr>) \<and> rn_main r = Returning errSigInt \<and> rn_defers r = DoClose # ds
    \<and> rn_reason r = Some errSigInt \<and> rn_start r = rn_start (pr_run s) \<and> rn_client r = rn_client (pr_run s)"
  using outer_begins [OF assms] outer_steps_proc by blast

lemma mounts_close:
  assumes "in_close (pr_run s)" and "pr_close s = CloseListeners dErr evs errs ms" and "closeMounts (wd_sys w) ms (pr_os s) = (errs', s')"
  shows "(proc_step w conf)\<^sup>*\<^sup>* s (s\<lparr>pr_os := s', pr_close := CloseListeners dErr evs (errs @ errs') []\<rparr>)"
  using assms
proof (induction ms arbitrary: s errs errs')
  case (Cons m ms)
  obtain e s1 where m: "socketMount_Close (wd_sys w) m (pr_os s) = (e, s1)" by (cases "socketMount_Close (wd_sys w) m (pr_os s)")
  obtain es where es: "closeMounts (wd_sys w) ms s1 = (es, s')" "errs' = opt_list e @ es"
    using Cons.prems(3) m by (auto simp: opt_list_def split: prod.splits option.splits)
  let ?t = "s\<lparr>pr_os := s1, pr_close := CloseListeners dErr evs (errs @ opt_list e) ms\<rparr>"
  have "proc_step w conf s ?t" using mount_closed [OF Cons.prems(1,2) m] by (simp add: proc_step_def)
  moreover have "(proc_step w conf)\<^sup>*\<^sup>* ?t (?t\<lparr>pr_os := s', pr_close := CloseListeners dErr evs ((errs @ opt_list e) @ es) []\<rparr>)"
    using Cons.IH [of ?t "errs @ opt_list e" es] Cons.prems(1) es(1) by simp
  ultimately show ?case by (simp add: es(2) converse_rtranclp_into_rtranclp)
next
  case Nil
  then have "s\<lparr>pr_os := s', pr_close := CloseListeners dErr evs (errs @ errs') []\<rparr> = s" by simp
  then show ?case by simp
qed

text \<open>\<open>Close\<close> that times out with every listener closed without error and the counter at zero.\<close>

lemma close_quietly:
  assumes "rn_main (pr_run s) = Returning e" and "rn_defers (pr_run s) = DoClose # ds" and "pr_close s = NotClosing"
    and "pr_client s = Some c" and "closeMounts (wd_sys w) (cl_mnts c) (pr_os s) = ([], s')" and "sv_connCount (pr_server s) = 0"
  shows "\<exists>u r. (proc_step w conf)\<^sup>*\<^sup>* s u \<and> closing_step w conf u (s\<lparr>pr_os := s', pr_run := r, pr_close := CloseReturned None\<rparr>)
    \<and> pr_server u = pr_server s \<and> rn_main r = Returning e \<and> rn_defers r = ds \<and> rn_start r = rn_start (pr_run s) \<and> rn_client r = rn_client (pr_run s)"
proof -
  have ic: "in_close (pr_run s)" using assms(1,2) by (simp add: in_close_def)
  let ?st = "proc_step w conf" and ?a = "s\<lparr>pr_close := CloseWaiting None []\<rparr>"
  let ?b = "s\<lparr>pr_close := CloseListeners None [Timeout] [] (cl_mnts c)\<rparr>"
  let ?c = "s\<lparr>pr_os := s', pr_close := CloseListeners None [Timeout] [] []\<rparr>"
  let ?r = "(pr_run s)\<lparr>rn_defers := ds, rn_done := rn_done (pr_run s) @ [DoClose]\<rparr>"
  let ?q = "?r\<lparr>rn_main := Returning e, rn_closes := rn_closes ?r @ [None]\<rparr>"
  have "?st s ?a" using dialer_closed [OF ic assms(3), of w conf None] by (simp add: proc_step_def)
  moreover have "?st ?a ?b" using timeout [of ?a c None "[]" w conf] ic assms(4) by (simp add: proc_step_def)
  moreover have "?st\<^sup>*\<^sup>* ?b ?c" using mounts_close [of ?b None "[Timeout]" "[]" "cl_mnts c" w "[]" s' conf] ic assms(5) by simp
  ultimately have "?st\<^sup>*\<^sup>* s ?c" by (meson converse_rtranclp_into_rtranclp)
  moreover have "closing_step w conf ?c (s\<lparr>pr_os := s', pr_run := ?q, pr_close := CloseReturned None\<rparr>)"
    using closed [of ?c e ds None "[Timeout]" "[]" None conf ?q w] assms(1,2,6)
    by (simp add: closeErrors_def nonempty_def opt_list_def)
  ultimately show ?thesis by (intro exI [of _ ?c] exI [of _ ?q]) simp
qed

text \<open>The last deferred calls.\<close>

lemma outer_exit:
  assumes "rn_main q = Returning e" and "rn_defers q = [DoCancel, DoCleanup]"
  shows "\<exists>r. (outer_step conf)\<^sup>*\<^sup>* q r \<and> rn_main r = Exited e \<and> rn_start r = rn_start q \<and> rn_client r = rn_client q"
proof -
  let ?a = "q\<lparr>rn_defers := [DoCleanup], rn_done := rn_done q @ [DoCancel], rn_ctx := True\<rparr>"
  let ?b = "?a\<lparr>rn_defers := [], rn_done := rn_done ?a @ [DoCleanup]\<rparr>"
  have "outer_step conf q ?a"
    using deferred [OF assms, of conf None ?a] assms by (intro outer_main) (simp_all add: in_close_def)
  moreover have "outer_step conf ?a ?b"
    using deferred [of ?a e DoCleanup "[]" conf None ?b] assms by (intro outer_main) (simp_all add: in_close_def)
  moreover have "outer_step conf ?b (?b\<lparr>rn_main := Exited e\<rparr>)"
    using exited [of ?b e conf] assms by (intro outer_main) (simp_all add: in_close_def)
  ultimately have "(outer_step conf)\<^sup>*\<^sup>* q (?b\<lparr>rn_main := Exited e\<rparr>)"
    by (meson converse_rtranclp_into_rtranclp rtranclp.rtrancl_refl)
  then show ?thesis by (intro exI [of _ "?b\<lparr>rn_main := Exited e\<rparr>"]) simp
qed

lemma exit_follows:
  assumes "rn_main (pr_run s) = Returning e" and "rn_defers (pr_run s) = [DoCancel, DoCleanup]"
  shows "\<exists>r. (proc_step w conf)\<^sup>*\<^sup>* s (s\<lparr>pr_run := r\<rparr>) \<and> rn_main r = Exited e \<and> rn_start r = rn_start (pr_run s)
    \<and> rn_client r = rn_client (pr_run s)"
  using outer_exit [OF assms] outer_steps_proc by blast

text \<open>A connection that has been accepted goes on to be proxied, whatever the client does meanwhile.\<close>

lemma uncounted_served:
  assumes "pr_client s = Some c" and "cl_mnts c = m # ms" and "sv_conns (pr_server s) = [(0, Accepted)]" and "sv_connCount (pr_server s) = 0"
  shows "(proc_step w conf)\<^sup>*\<^sup>* s (s\<lparr>pr_server := (pr_server s)\<lparr>sv_connCount := 1,
     sv_dialed := sv_dialed (pr_server s) @ [(sm_inst m, sm_dialOpts m)], sv_conns := [(0, Proxying)]\<rparr>\<rparr>)"
proof -
  let ?st = "proc_step w conf" and ?ms = "cl_mnts c" and ?M = "cf_MaxConnections conf" and ?n = "cl_connRefuseNotify c"
  let ?sv = "pr_server s" and ?d = "sv_dialed (pr_server s) @ [(sm_inst m, sm_dialOpts m)]"
  let ?a = "?sv\<lparr>sv_connCount := 1, sv_conns := [(0, Counted 1)]\<rparr>"
  let ?b = "?a\<lparr>sv_dialed := ?d, sv_conns := [(0, Dialing)]\<rparr>"
  let ?c = "?b\<lparr>sv_conns := [(0, Proxying)]\<rparr>"
  have step: "?st (s\<lparr>pr_server := v\<rparr>) (s\<lparr>pr_server := v'\<rparr>)"
    if "conn_step ?M ?n ?ms v v'" "length (sv_conns v') = 1" "snd (sv_conns v ! 0) \<noteq> Proxying" for v v'
    using conn_moved [of "s\<lparr>pr_server := v\<rparr>" c conf v'] that assms(1) by (simp add: proc_step_def)
  have lim: "\<not> over_limit ?M 1" by (auto simp: over_limit_def word_less_nat_alt)
  have "?st s (s\<lparr>pr_server := ?a\<rparr>)"
    using step [OF count [of 0 ?sv 0 1 ?M ?n ?ms]] assms(3,4) by simp
  moreover have "?st (s\<lparr>pr_server := ?a\<rparr>) (s\<lparr>pr_server := ?b\<rparr>)"
    using step [OF dial [of 0 ?a 0 1 ?M ?n ?ms]] lim assms(2) by simp
  moreover have "?st (s\<lparr>pr_server := ?b\<rparr>) (s\<lparr>pr_server := ?c\<rparr>)"
    using step [OF dial_ok [of 0 ?b 0 ?M ?n ?ms]] by simp
  ultimately have "?st\<^sup>*\<^sup>* s (s\<lparr>pr_server := ?c\<rparr>)" by (meson converse_rtranclp_into_rtranclp rtranclp.rtrancl_refl)
  then show ?thesis by simp
qed

section \<open>Properties\<close>

text \<open>
  C5. Once a reason to stop is known, the process gets to its exit, \<open>Close\<close> included: the main
  goroutine has at most nine steps left and one per listener, besides ticks of the wait loop,
  which only wait for connections; whatever the other goroutines do, it always has the next
  of these steps available, and no step of any goroutine adds to them; when none is left, it
  has exited.
\<close>

theorem process_exits:
  assumes "(proc_step w conf)\<^sup>*\<^sup>* (init_proc os0) s" and "rn_reason (pr_run s) \<noteq> None"
  shows "proc_left s \<le> 9 + length (mounts s)
    \<and> (if proc_left s = 0 then \<exists>e. rn_main (pr_run s) = Exited e else \<exists>t. main_goroutine w conf s t \<and> proc_left t < proc_left s)
    \<and> (\<forall>t. proc_step w conf s t \<longrightarrow> proc_left t \<le> proc_left s)"
proof (intro conjI allI impI)
  have inv: "proc_inv w conf os0 s" using assms(1) by (rule proc_reachable_inv)
  note run = proc_invD(1) [OF inv]
  obtain e where e: "rn_main (pr_run s) \<in> {Sleeping e, Returning e, Exited e}" using reason_phase [OF run assms(2)] by blast
  have close: "close_left (length (mounts s)) (pr_close s) \<le> length (mounts s) + 2"
  proof (cases "pr_close s")
    case (CloseListeners dErr evs errs rest)
    with proc_invD(3) [OF inv] show ?thesis by (auto simp: client_ok_def split: option.splits)
  qed simp_all
  have "length (rn_done (pr_run s) @ rn_defers (pr_run s)) \<le> 5" unfolding run_invD(1) [OF run] by (simp add: registered_def)
  then show "proc_left s \<le> 9 + length (mounts s)" using e close by (auto simp: proc_left_def remaining_def)
  show "if proc_left s = 0 then \<exists>e. rn_main (pr_run s) = Exited e else \<exists>t. main_goroutine w conf s t \<and> proc_left t < proc_left s"
  proof (cases "in_close (pr_run s)")
    case True
    with closing_progress [OF inv] show ?thesis by (auto simp: main_goroutine_def)
  next
    case False
    show ?thesis
    proof (cases "remaining (pr_run s) = 0")
      case True
      then have "rn_main (pr_run s) = Exited e" using e by (auto simp: remaining_def)
      moreover have "rn_defers (pr_run s) = []" using run_invD(2) [OF run] calculation by simp
      ultimately show ?thesis using True by (simp add: proc_left_def)
    next
      case active: False
      then obtain r where r: "main_step conf (pr_run s) r" "remaining r < remaining (pr_run s)" using main_progress [OF run] by auto
      with proc_left_main [OF r(2) main_step_defers [OF r(1) e]] False active show ?thesis by (auto simp: main_goroutine_def)
    qed
  qed
  fix t assume "proc_step w conf s t"
  then show "proc_left t \<le> proc_left s"
  proof (cases rule: proc_step_cases)
    case copying
    then show ?thesis by (auto elim!: copying_step.cases simp: proc_left_def)
  qed (use starting_left [OF inv _ e] serving_left [OF inv _ e] closing_left [OF inv] in blast)+
qed

lemma interrupted_closing:
  assumes "plain_conf conf" and "\<forall>l \<in> set (os_listeners os0). fst l < os_next os0"
    and "NewClient (wd_cred w) (wd_newDialer w) (wd_sys w) (wd_fuse w) (wd_given w) (wd_notify w) conf os0 = (Ok c, warm, s1)"
  shows "\<exists>r. (proc_step w conf)\<^sup>*\<^sup>* (init_proc os0) ((serving_proc conf c s1)\<lparr>pr_run := r\<rparr>) \<and> rn_main r = Returning errSigInt
    \<and> rn_defers r = [DoClose, DoCancel, DoCleanup] \<and> rn_reason r = Some errSigInt \<and> rn_start r = StartDone \<and> rn_client r"
proof -
  let ?s = "serving_proc conf c s1"
  note r = serving_reached [OF assms]
  have "\<exists>r. (proc_step w conf)\<^sup>*\<^sup>* ?s (?s\<lparr>pr_run := r\<rparr>) \<and> rn_main r = Returning errSigInt
      \<and> rn_defers r = [DoClose, DoCancel, DoCleanup] \<and> rn_reason r = Some errSigInt \<and> rn_start r = StartDone \<and> rn_client r"
    using closing_begins [OF proc_invD(1) [OF proc_reachable_inv [OF r]], of "[DoCancel, DoCleanup]" w]
    by (simp add: serving_proc_def up_run_def run_simps)
  with r show ?thesis by (meson rtranclp_trans)
qed

theorem process_exits_witness:
  "\<exists>s t. proc_left s = 8 \<and> main_goroutine sample_world (sample_conf True 0) s t \<and> proc_left t < 8"
proof -
  obtain c warm s1 where c: "NewClient (wd_cred sample_world) (wd_newDialer sample_world) (wd_sys sample_world) (wd_fuse sample_world)
      (wd_given sample_world) (wd_notify sample_world) (sample_conf True 0) (init_os []) = (Ok c, warm, s1)"
    using sample_client by blast
  have "length (cl_mnts c) = 2"
    using arg_cong [where f = length, OF NewClient_instances [OF c]] by (simp add: sample_conf_def two_ports_def zero_Config_def)
  moreover obtain r where r: "(proc_step sample_world (sample_conf True 0))\<^sup>*\<^sup>* (init_proc (init_os []))
      ((serving_proc (sample_conf True 0) c s1)\<lparr>pr_run := r\<rparr>)" "rn_main r = Returning errSigInt"
    "rn_defers r = [DoClose, DoCancel, DoCleanup]" "rn_reason r = Some errSigInt"
    using interrupted_closing [OF _ _ c] by (auto simp: init_os_def)
  ultimately have "proc_left ((serving_proc (sample_conf True 0) c s1)\<lparr>pr_run := r\<rparr>) = 8"
    by (simp add: proc_left_def remaining_def serving_proc_def)
  with process_exits [OF r(1)] r(4) show ?thesis by fastforce
qed

text \<open>What is left of the client at exit: \<open>new_mounts\<close> are the mounts that an unfinished start has open.\<close>

lemma exited_restored:
  assumes "(proc_step w conf)\<^sup>*\<^sup>* (init_proc os0) s" and "cf_FUSEDir conf = []" and "\<forall>l \<in> set (os_listeners os0). fst l < os_next os0"
    and "rn_main (pr_run s) = Exited e"
  shows "(\<exists>new. os_listeners (pr_os s) = os_listeners os0 @ new
        \<and> map fst new = (if rn_start (pr_run s) = StartDone then [] else map sm_listener (new_mounts (pr_new s))))
    \<and> (rn_client (pr_run s) \<longrightarrow>
        (\<exists>x. pr_close s = CloseReturned x \<and> rn_closes (pr_run s) = [x] \<and> (x \<noteq> None \<longrightarrow> Execute (Some e) = 1)))"
proof -
  have inv: "proc_inv w conf os0 s" using assms(1) by (rule proc_reachable_inv)
  note run = proc_invD(1) [OF inv]
  have closed: "\<exists>x. pr_close s = CloseReturned x \<and> rn_closes (pr_run s) = [x]" if "rn_client (pr_run s)"
  proof -
    have "DoClose \<in> set (rn_done (pr_run s))"
      using run_invD(1,2) [OF run] assms(4) that registered_members(2) by (metis append_Nil2 phase_ok.simps(5))
    moreover have "\<not> in_close (pr_run s)" using assms(4) by (simp add: in_close_def)
    ultimately show ?thesis using proc_invD(4) [OF inv] by (cases "pr_close s") auto
  qed
  have "Execute (Some e) = 1" if "rn_closes (pr_run s) = [Some y]" for y
  proof -
    note y = that
    obtain es where "e = MultiErr es"
      by (rule exited_result [OF run assms(4)]) (use y in \<open>auto split: if_splits\<close>)
    then show ?thesis by (simp add: Execute_reason reason_code_def)
  qed
  moreover have "\<exists>new. os_listeners (pr_os s) = os_listeners os0 @ new
      \<and> map fst new = (if rn_start (pr_run s) = StartDone then [] else map sm_listener (new_mounts (pr_new s)))"
  proof (cases "pr_client s")
    case None
    with proc_invD(3) [OF inv] assms(3) have "opened (os_next os0) (os_listeners os0) (new_mounts (pr_new s)) (pr_os s)"
      "rn_start (pr_run s) = StartDone \<Longrightarrow> new_mounts (pr_new s) = []" by (auto simp: client_ok_def)
    then show ?thesis by (auto simp: opened_def)
  next
    case (Some c)
    obtain warm s1 where n: "NewClient (wd_cred w) (wd_newDialer w) (wd_sys w) (wd_fuse w) (wd_given w) (wd_notify w) conf os0 = (Ok c, warm, s1)"
      "os_ok (wd_sys w) conf c s1 (pr_close s) (pr_os s)" using proc_client [OF inv Some] .
    note op = NewClient_opened(1) [OF n(1) assms(2,3)]
    have c: "pr_new s = NewDone (Ok c)" "rn_client (pr_run s) \<longleftrightarrow> rn_start (pr_run s) \<noteq> StartReady" "rn_start (pr_run s) \<noteq> Launching"
      using proc_invD(3) [OF inv] Some by (simp_all add: client_ok_def)
    show ?thesis
    proof (cases "rn_client (pr_run s)")
      case True
      with closed n(2) obtain errs where "closeMounts (wd_sys w) (cl_mnts c) s1 = (errs, pr_os s)" by auto
      with opened_close [OF op, of "wd_sys w"] True c(2,3) show ?thesis by (cases "rn_start (pr_run s)") auto
    next
      case False
      then have "DoClose \<notin> set (rn_done (pr_run s))" using run_invD(1) [OF run] registered_members(2) by (metis UnCI set_append)
      then have "pr_close s = NotClosing" using proc_invD(4) [OF inv] assms(4) by (cases "pr_close s") (auto simp: in_close_def)
      with n(2) op False c show ?thesis by (auto simp: opened_def)
    qed
  qed
  ultimately show ?thesis using closed by fastforce
qed

text \<open>
  C6. When the process exits, it has given its listeners back: whether the client was closed, could
  not be started or was never begun, exactly the listeners from before are open. The exception
  is a start that was interrupted, which nobody undoes: then the mounts that \<open>NewClient\<close> had made by
  then, each from its \<open>Listen\<close> on, and no other listener, are open on top of those from before. And a client that was
  started has been closed once, whose error, if any, makes the exit code 1.
\<close>

theorem exit_restores_listeners:
  assumes "(proc_step w conf)\<^sup>*\<^sup>* (init_proc os0) s" and "cf_FUSEDir conf = []" and "\<forall>l \<in> set (os_listeners os0). fst l < os_next os0"
    and "rn_main (pr_run s) = Exited e"
  shows "(case pr_new s of
        MountNext insts pc mnts \<Rightarrow> \<exists>new. os_listeners (pr_os s) = os_listeners os0 @ new \<and> map fst new = map sm_listener mnts
      | Undo err mnts \<Rightarrow> \<exists>new. os_listeners (pr_os s) = os_listeners os0 @ new \<and> map fst new = map sm_listener mnts
      | Crashed mnts \<Rightarrow> \<exists>new. os_listeners (pr_os s) = os_listeners os0 @ new \<and> map fst new = map sm_listener mnts
      | NewDone (Ok c) \<Rightarrow>
          (\<exists>new. os_listeners (pr_os s) = os_listeners os0 @ new
             \<and> map fst new = (if rn_client (pr_run s) then [] else map sm_listener (cl_mnts c)))
      | _ \<Rightarrow> os_listeners (pr_os s) = os_listeners os0)
    \<and> (rn_client (pr_run s) \<longrightarrow>
        (\<exists>x. pr_close s = CloseReturned x \<and> rn_closes (pr_run s) = [x] \<and> (x \<noteq> None \<longrightarrow> Execute (Some e) = 1)))"
proof (intro conjI)
  have inv: "client_ok w conf os0 s" using proc_invD(3) [OF proc_reachable_inv [OF assms(1)]] .
  have started: "rn_start (pr_run s) = StartDone \<longleftrightarrow> rn_client (pr_run s)" if "pr_new s = NewDone (Ok c)" for c
    using inv that by (cases "rn_start (pr_run s)") (auto simp: client_ok_def split: option.splits)
  have early: "rn_start (pr_run s) \<noteq> StartDone \<or> (\<exists>r. pr_new s = NewDone r)"
    using inv by (auto simp: client_ok_def split: option.splits)
  obtain new where "os_listeners (pr_os s) = os_listeners os0 @ new"
    "map fst new = (if rn_start (pr_run s) = StartDone then [] else map sm_listener (new_mounts (pr_new s)))"
    using exited_restored [OF assms] by blast
  with started early
  show "case pr_new s of
        MountNext insts pc mnts \<Rightarrow> \<exists>new. os_listeners (pr_os s) = os_listeners os0 @ new \<and> map fst new = map sm_listener mnts
      | Undo err mnts \<Rightarrow> \<exists>new. os_listeners (pr_os s) = os_listeners os0 @ new \<and> map fst new = map sm_listener mnts
      | Crashed mnts \<Rightarrow> \<exists>new. os_listeners (pr_os s) = os_listeners os0 @ new \<and> map fst new = map sm_listener mnts
      | NewDone (Ok c) \<Rightarrow>
          (\<exists>new. os_listeners (pr_os s) = os_listeners os0 @ new
             \<and> map fst new = (if rn_client (pr_run s) then [] else map sm_listener (cl_mnts c)))
      | _ \<Rightarrow> os_listeners (pr_os s) = os_listeners os0"
    by (auto split: new_phase.splits outcome.splits if_splits)
  show "rn_client (pr_run s) \<longrightarrow>
      (\<exists>x. pr_close s = CloseReturned x \<and> rn_closes (pr_run s) = [x] \<and> (x \<noteq> None \<longrightarrow> Execute (Some e) = 1))"
    using exited_restored [OF assms] by blast
qed

text \<open>The sample process interrupted and closed, with the step in which \<open>Close\<close> returns.\<close>

lemma sample_closes:
  assumes "NewClient (wd_cred sample_world) (wd_newDialer sample_world) (wd_sys sample_world) (wd_fuse sample_world)
      (wd_given sample_world) (wd_notify sample_world) (sample_conf h d) (init_os []) = (Ok c, warm, s1)"
  shows "\<exists>s2. closeMounts (wd_sys sample_world) (cl_mnts c) s1 = ([], s2)"
proof -
  have o: "opened (os_next (init_os [])) (os_listeners (init_os [])) (cl_mnts c) s1"
    using NewClient_opened(1) [OF assms] by (simp add: init_os_def)
  then have "distinct (map sm_listener (cl_mnts c))" by (simp add: opened_def)
  moreover have "close_err (wd_sys sample_world) s h = None" for s h by (simp add: sample_world_def plain_sys_def)
  ultimately show ?thesis using closeMounts_ok [of "cl_mnts c" s1 "wd_sys sample_world"] opened_listening [OF o] by blast
qed

lemma sample_closed:
  obtains s t where "(proc_step sample_world (sample_conf h d))\<^sup>*\<^sup>* (init_proc (init_os [])) s" "closing_step sample_world (sample_conf h d) s t"
    "pr_close t = CloseReturned None" "rn_main (pr_run t) = Returning errSigInt" "rn_defers (pr_run t) = [DoCancel, DoCleanup]"
    "rn_start (pr_run t) = StartDone" "rn_client (pr_run t)" "sv_conns (pr_server s) = []"
proof -
  obtain c warm s1 where c: "NewClient (wd_cred sample_world) (wd_newDialer sample_world) (wd_sys sample_world) (wd_fuse sample_world)
      (wd_given sample_world) (wd_notify sample_world) (sample_conf h d) (init_os []) = (Ok c, warm, s1)"
    using sample_client by blast
  have os: "\<forall>l \<in> set (os_listeners (init_os [])). fst l < os_next (init_os [])" by (simp add: init_os_def)
  obtain r where r: "(proc_step sample_world (sample_conf h d))\<^sup>*\<^sup>* (init_proc (init_os [])) ((serving_proc (sample_conf h d) c s1)\<lparr>pr_run := r\<rparr>)"
    "rn_main r = Returning errSigInt" "rn_defers r = [DoClose, DoCancel, DoCleanup]" "rn_start r = StartDone" "rn_client r"
    using interrupted_closing [OF _ os c] by auto
  define a where "a = (serving_proc (sample_conf h d) c s1)\<lparr>pr_run := r\<rparr>"
  obtain s2 where "closeMounts (wd_sys sample_world) (cl_mnts c) s1 = ([], s2)" using sample_closes [OF c] by blast
  with close_quietly [of a errSigInt "[DoCancel, DoCleanup]" c sample_world s2 "sample_conf h d"] r(2,3)
  obtain u q where q: "(proc_step sample_world (sample_conf h d))\<^sup>*\<^sup>* a u"
    "closing_step sample_world (sample_conf h d) u (a\<lparr>pr_os := s2, pr_run := q, pr_close := CloseReturned None\<rparr>)"
    "pr_server u = pr_server a" "rn_main q = Returning errSigInt" "rn_defers q = [DoCancel, DoCleanup]" "rn_start q = rn_start r" "rn_client q = rn_client r"
    by (auto simp: a_def serving_proc_def init_server_def)
  show thesis
    by (rule that [OF rtranclp_trans [OF r(1) [folded a_def] q(1)] q(2)])
      (use q r(4,5) in \<open>simp_all add: a_def serving_proc_def init_server_def\<close>)
qed

theorem exit_restores_listeners_witness:
  "\<exists>s. (proc_step sample_world (sample_conf True 5))\<^sup>*\<^sup>* (init_proc (init_os [])) s \<and> rn_client (pr_run s) \<and> os_listeners (pr_os s) = []"
proof -
  let ?st = "proc_step sample_world (sample_conf True 5)"
  obtain s t where t: "?st\<^sup>*\<^sup>* (init_proc (init_os [])) s" "closing_step sample_world (sample_conf True 5) s t"
    "rn_main (pr_run t) = Returning errSigInt" "rn_defers (pr_run t) = [DoCancel, DoCleanup]" "rn_start (pr_run t) = StartDone" "rn_client (pr_run t)"
    using sample_closed .
  then have rt: "?st\<^sup>*\<^sup>* (init_proc (init_os [])) t" by (meson proc_step_def rtranclp.rtrancl_into_rtrancl)
  obtain r where r: "?st\<^sup>*\<^sup>* t (t\<lparr>pr_run := r\<rparr>)" "rn_main r = Exited errSigInt"
    "rn_start r = rn_start (pr_run t)" "rn_client r = rn_client (pr_run t)" using exit_follows [OF t(3,4)] by blast
  have u: "?st\<^sup>*\<^sup>* (init_proc (init_os [])) (t\<lparr>pr_run := r\<rparr>)" using rt r(1) by simp
  note inv = proc_reachable_inv [OF u]
  obtain c where "pr_client t = Some c" using proc_rn_client [OF inv] t(6) r(4) by auto
  then have "pr_new t = NewDone (Ok c)" using proc_invD(3) [OF inv] by (simp add: client_ok_def)
  with exit_restores_listeners [OF u, of errSigInt] r(2,4) t(6) have "os_listeners (pr_os t) = []" by (simp add: init_os_def)
  with u t(6) r(4) show ?thesis by (intro exI [of _ "t\<lparr>pr_run := r\<rparr>"]) simp
qed

text \<open>
  C8. What a \<open>Close\<close> without error says when \<open>--max-sigterm-delay\<close> is set: at the moment it loads the
  counter for the last time, with all listeners closed, every connection that a goroutine has
  counted is finished. Only connections that were accepted and not yet counted can be left.
\<close>

theorem graceful_close:
  assumes "(proc_step w conf)\<^sup>*\<^sup>* (init_proc os0) s" and "closing_step w conf s t" and "pr_close t = CloseReturned None"
    and "0 < cf_WaitOnClose conf" and "length (sv_conns (pr_server s)) < 2 ^ 64"
    and "cf_FUSEDir conf = []" and "\<forall>l \<in> set (os_listeners os0). fst l < os_next os0"
  shows "(\<forall>k < length (sv_conns (pr_server t)). snd (sv_conns (pr_server t) ! k) \<in> {Accepted, Done})
    \<and> os_listeners (pr_os t) = os_listeners os0"
proof -
  have inv: "proc_inv w conf os0 s" using assms(1) by (rule proc_reachable_inv)
  have zero: "sv_connCount (pr_server s) = 0" "pr_server t = pr_server s" "pr_client t = pr_client s"
    using assms(2-4) by (auto elim!: closing_step.cases simp: nonempty_def closeErrors_def word_gt_0 split: if_splits)
  have "in_close (pr_run s)" using assms(2) by (auto elim!: closing_step.cases simp: in_close_def)
  then obtain c where c: "pr_client s = Some c" using in_close_client [OF inv] by blast
  obtain warm s1 where n: "NewClient (wd_cred w) (wd_newDialer w) (wd_sys w) (wd_fuse w) (wd_given w) (wd_notify w) conf os0 = (Ok c, warm, s1)"
    "(serve_step (cf_MaxConnections conf) (cl_connRefuseNotify c) (cl_mnts c))\<^sup>*\<^sup>* (init_server (cl_mnts c)) (pr_server s)"
    using proc_client [OF inv c] .
  have "os_ok (wd_sys w) conf c s1 (pr_close t) (pr_os t)"
    using proc_client [OF closing_step_inv [OF assms(2) inv], of c] c zero(3) n(1) by (metis fst_conv outcome.inject(1) snd_conv)
  then obtain errs where "closeMounts (wd_sys w) (cl_mnts c) s1 = (errs, pr_os t)" using assms(3) by auto
  then have "os_listeners (pr_os t) = os_listeners os0"
    using opened_close [OF NewClient_opened(1) [OF n(1) assms(6,7)], of "wd_sys w"] by simp
  moreover have "snd (sv_conns (pr_server s) ! k) \<in> {Accepted, Done}" if "k < length (sv_conns (pr_server s))" for k
    using drained [OF server_reachable_inv [OF n(2)] zero(1) assms(5) that] .
  ultimately show ?thesis using zero(2) by simp
qed

theorem graceful_close_witness:
  "\<exists>s t. closing_step sample_world (sample_conf True 5) s t \<and> os_listeners (pr_os t) = []"
proof -
  obtain s t where t: "(proc_step sample_world (sample_conf True 5))\<^sup>*\<^sup>* (init_proc (init_os [])) s" "closing_step sample_world (sample_conf True 5) s t"
    "pr_close t = CloseReturned None" "sv_conns (pr_server s) = []" using sample_closed .
  from graceful_close [OF t(1-3)] t(2,4) show ?thesis by (auto simp: init_os_def)
qed

text \<open>
  C24. Such a connection can be left: \<open>Accept\<close> hands it to a goroutine that has yet to count it, so
  there are runs in which \<open>Close\<close> returns no error although a client is connected, and that
  client's connection is then dialed and proxied with the client closed.
\<close>

theorem close_misses_connection:
  assumes "plain_conf conf" and "\<forall>l \<in> set (os_listeners os0). fst l < os_next os0"
    and "NewClient (wd_cred w) (wd_newDialer w) (wd_sys w) (wd_fuse w) (wd_given w) (wd_notify w) conf os0 = (Ok c, warm, s1)"
    and "cl_mnts c = m # ms" and "closeMounts (wd_sys w) (cl_mnts c) s1 = ([], s2)"
  shows "\<exists>s t. (proc_step w conf)\<^sup>*\<^sup>* (init_proc os0) s \<and> pr_close s = CloseReturned None \<and> sv_conns (pr_server s) = [(0, Accepted)]
    \<and> (proc_step w conf)\<^sup>*\<^sup>* s t \<and> sv_conns (pr_server t) = [(0, Proxying)] \<and> sv_dialed (pr_server t) = [(sm_inst m, sm_dialOpts m)]
    \<and> pr_os t = s2"
proof -
  let ?st = "proc_step w conf"
  obtain r where r: "?st\<^sup>*\<^sup>* (init_proc os0) ((serving_proc conf c s1)\<lparr>pr_run := r\<rparr>)" "rn_main r = Returning errSigInt"
    "rn_defers r = [DoClose, DoCancel, DoCleanup]" using interrupted_closing [OF assms(1-3)] by blast
  define a where "a = (serving_proc conf c s1)\<lparr>pr_run := r\<rparr>"
  define b where "b = a\<lparr>pr_server := (pr_server a)\<lparr>sv_conns := [(0, Accepted)]\<rparr>\<rparr>"
  have "cf_FUSEDir conf = []" "m \<in> set (cl_mnts c)" using assms(1,4) by (simp_all add: plain_conf_def)
  then have "sm_listener m \<in> fst ` set (os_listeners s1)" using opened_listening NewClient_opened(1) [OF assms(3) _ assms(2)] by blast
  then have "?st a b"
    using accepting [of a Receiving c "pr_server b" conf] accept [of 0 "pr_server a"] assms(4)
    by (simp add: proc_step_def a_def b_def serving_proc_def init_server_def listening_def)
  moreover obtain u q where q: "?st\<^sup>*\<^sup>* b u" "closing_step w conf u (b\<lparr>pr_os := s2, pr_run := q, pr_close := CloseReturned None\<rparr>)"
    using close_quietly [of b errSigInt "[DoCancel, DoCleanup]" c w s2 conf] r(2,3) assms(5)
    by (auto simp: a_def b_def serving_proc_def init_server_def)
  define s where "s = b\<lparr>pr_os := s2, pr_run := q, pr_close := CloseReturned None\<rparr>"
  have s: "pr_client s = Some c" "sv_conns (pr_server s) = [(0, Accepted)]" "sv_connCount (pr_server s) = 0" "sv_dialed (pr_server s) = []"
    "pr_close s = CloseReturned None" "pr_os s = s2"
    by (simp_all add: s_def b_def a_def serving_proc_def init_server_def)
  have "?st\<^sup>*\<^sup>* (init_proc os0) s"
    using r(1) q calculation unfolding a_def [symmetric] s_def
    by (meson converse_rtranclp_into_rtranclp proc_step_def rtranclp.rtrancl_into_rtrancl rtranclp_trans)
  with uncounted_served [OF s(1) assms(4) s(2,3), of w conf] s show ?thesis
    by (intro exI [of _ s] exI [of _ "s\<lparr>pr_server := (pr_server s)\<lparr>sv_connCount := 1, sv_dialed := [(sm_inst m, sm_dialOpts m)], sv_conns := [(0, Proxying)]\<rparr>\<rparr>"])
      simp
qed

theorem close_misses_connection_witness:
  "\<exists>s t. (proc_step sample_world (sample_conf True 5))\<^sup>*\<^sup>* (init_proc (init_os [])) s \<and> pr_close s = CloseReturned None
     \<and> (proc_step sample_world (sample_conf True 5))\<^sup>*\<^sup>* s t \<and> sv_conns (pr_server t) = [(0, Proxying)]"
proof -
  obtain c warm s1 where c: "NewClient (wd_cred sample_world) (wd_newDialer sample_world) (wd_sys sample_world) (wd_fuse sample_world)
      (wd_given sample_world) (wd_notify sample_world) (sample_conf True 5) (init_os []) = (Ok c, warm, s1)"
    using sample_client by blast
  have os: "\<forall>l \<in> set (os_listeners (init_os [])). fst l < os_next (init_os [])" by (simp add: init_os_def)
  obtain m ms where m: "cl_mnts c = m # ms"
    using arg_cong [where f = length, OF NewClient_instances [OF c]]
    by (cases "cl_mnts c") (auto simp: sample_conf_def two_ports_def zero_Config_def)
  obtain s2 where "closeMounts (wd_sys sample_world) (cl_mnts c) s1 = ([], s2)" using sample_closes [OF c] by blast
  from close_misses_connection [OF _ os c m this] show ?thesis by fastforce
qed

text \<open>
  C25. A start that is interrupted just after its client was created leaves the client open: the
  main goroutine takes the signal and not the client, the process exits, and \<open>Close\<close> is never
  called, so that its listeners are still there, and with them the files of Unix sockets.
\<close>

theorem interrupted_start_leaks:
  assumes "\<not> telemetryOn conf" and "cf_FUSEDir conf = []" and "\<forall>l \<in> set (os_listeners os0). fst l < os_next os0"
    and "NewClient (wd_cred w) (wd_newDialer w) (wd_sys w) (wd_fuse w) (wd_given w) (wd_notify w) conf os0 = (Ok c, warm, s1)"
  shows "\<exists>s new. (proc_step w conf)\<^sup>*\<^sup>* (init_proc os0) s \<and> rn_main (pr_run s) = Exited errSigInt \<and> pr_close s = NotClosing
    \<and> os_listeners (pr_os s) = os_listeners os0 @ new \<and> map fst new = map sm_listener (cl_mnts c)"
proof -
  let ?st = "proc_step w conf" and ?i = "init_proc os0"
  let ?r = "(spawnStart init_run)\<lparr>rn_start := StartReady\<rparr>"
  let ?a = "?i\<lparr>pr_run := spawnStart init_run\<rparr>"
  let ?a' = "?a\<lparr>pr_new := NewDone (Ok c), pr_os := s1\<rparr>"
  let ?b = "?a'\<lparr>pr_run := ?r, pr_client := Some c, pr_server := init_server (cl_mnts c)\<rparr>"
  let ?q = "send FromSignal errSigInt ?r"
  let ?e = "?q\<lparr>rn_main := Returning errSigInt, rn_senders := (rn_senders ?q)(FromSignal := Sent), rn_reason := Some errSigInt,
       rn_sdNotify := rn_sdNotify ?q @ [''STOPPING=1'']\<rparr>"
  have "?st ?i ?a"
    using main [of conf ?i "spawnStart init_run" w] telemetry_off [of init_run conf] assms(1)
    by (simp add: proc_step_def init_proc_def init_run_def in_close_def)
  moreover have "?st\<^sup>*\<^sup>* ?a ?a'"
    using start_moves [of ?a w conf "Ok c" s1] assms(4) by (simp add: init_proc_def run_simps)
  moreover have "?st ?a' ?b"
    using start_ok [of ?a' c w conf] by (simp add: proc_step_def init_proc_def run_simps)
  moreover have "?st ?b (?b\<lparr>pr_run := ?q\<rparr>)"
    using others [of conf ?b ?q w] signalled [of ?r conf SIGINT]
    by (simp add: proc_step_def signalError_def bystander_def send_def spawnStart_def)
  moreover have "?st (?b\<lparr>pr_run := ?q\<rparr>) (?b\<lparr>pr_run := ?e\<rparr>)"
    using outer_proc [OF outer_main, of conf "?b\<lparr>pr_run := ?q\<rparr>" ?e w] interrupted [of ?q FromSignal errSigInt conf]
    by (simp add: in_close_def send_def spawnStart_def)
  ultimately have e: "?st\<^sup>*\<^sup>* ?i (?b\<lparr>pr_run := ?e\<rparr>)"
    by (meson converse_rtranclp_into_rtranclp rtranclp.rtrancl_refl rtranclp_trans)
  have "\<exists>r. ?st\<^sup>*\<^sup>* (?b\<lparr>pr_run := ?e\<rparr>) (?b\<lparr>pr_run := r\<rparr>) \<and> rn_main r = Exited errSigInt"
    using exit_follows [of "?b\<lparr>pr_run := ?e\<rparr>" errSigInt w conf] by (auto simp: send_def spawnStart_def init_run_def)
  then obtain r where "?st\<^sup>*\<^sup>* ?i (?b\<lparr>pr_run := r\<rparr>)" "rn_main r = Exited errSigInt" using e by (meson rtranclp_trans)
  moreover obtain new where "os_listeners s1 = os_listeners os0 @ new" "map fst new = map sm_listener (cl_mnts c)"
    using NewClient_opened(1) [OF assms(4,2,3)] by (auto simp: opened_def)
  ultimately show ?thesis
    by (intro exI [of _ "?b\<lparr>pr_run := r\<rparr>"] exI [of _ new]) (simp add: init_proc_def)
qed

theorem interrupted_start_leaks_witness:
  "\<exists>s. (proc_step sample_world (sample_conf True 5))\<^sup>*\<^sup>* (init_proc (init_os [])) s \<and> rn_main (pr_run s) = Exited errSigInt
     \<and> pr_close s = NotClosing \<and> length (os_listeners (pr_os s)) = 2"
proof -
  obtain c warm s1 where c: "NewClient (wd_cred sample_world) (wd_newDialer sample_world) (wd_sys sample_world) (wd_fuse sample_world)
      (wd_given sample_world) (wd_notify sample_world) (sample_conf True 5) (init_os []) = (Ok c, warm, s1)"
    using sample_client by blast
  have os: "\<forall>l \<in> set (os_listeners (init_os [])). fst l < os_next (init_os [])" by (simp add: init_os_def)
  have two: "length (cl_mnts c) = 2"
    using arg_cong [where f = length, OF NewClient_instances [OF c]] by (simp add: sample_conf_def two_ports_def zero_Config_def)
  have conf: "\<not> telemetryOn (sample_conf True 5)" "cf_FUSEDir (sample_conf True 5) = []" by simp_all
  obtain s new where s: "(proc_step sample_world (sample_conf True 5))\<^sup>*\<^sup>* (init_proc (init_os [])) s"
    "rn_main (pr_run s) = Exited errSigInt" "pr_close s = NotClosing"
    "os_listeners (pr_os s) = os_listeners (init_os []) @ new" "map fst new = map sm_listener (cl_mnts c)"
    using interrupted_start_leaks [OF conf os c] by blast
  have "length new = 2" using two arg_cong [where f = length, OF s(5)] by simp
  with s(1-4) show ?thesis by (intro exI [of _ s]) (simp add: init_os_def)
qed

end
