(* ===== verification/Fuse_System.thy ===== *)
theory Fuse_System
  imports Fuse_Process Process_Close
begin

text \<open>
  The running process with FUSE: \<open>runSignalWrapper\<close> (cmd/root.go) around \<open>serveFuse\<close>, the lookups, and
  \<open>Close\<close> (\<open>Fuse_Process\<close>), and around the accept loops and connections (\<open>Server\<close>), whose mounts are
  here the sockets that lookups have created, in order. Every socket counts its connections in the
  client's one counter. The copies of a connection are those of \<open>Proxy_Conn\<close> and left out.
\<close>

section \<open>State\<close>

text \<open>The goroutine of a socket: its socket is in the registry, or taken out, or it has called \<open>fuseWg.Done\<close> too.\<close>

datatype keeper = Registered | Removed | Gone

text \<open>
  How far \<open>NewClient\<close> is; the client with its directory and operating system, once started; all sockets
  that lookups ever created, with their goroutines.
\<close>

record fuse_system =
  fw_run :: run
  fw_os :: os
  fw_new :: new_phase
  fw_proc :: "fuse_proc option"
  fw_server :: server
  fw_sockets :: "socketMount list"
  fw_keepers :: "keeper list"

definition init_fuse_system :: "os \<Rightarrow> fuse_system" where
  "init_fuse_system os0 = \<lparr>fw_run = init_run, fw_os = os0, fw_new = NewCalled, fw_proc = None, fw_server = init_server [],
     fw_sockets = [], fw_keepers = []\<rparr>"

section \<open>Steps\<close>

text \<open>The steps of \<open>runSignalWrapper\<close> outside the client, and of the goroutine that starts the client.\<close>

inductive fuse_start_step :: "'t world \<Rightarrow> Config \<Rightarrow> fuse_system \<Rightarrow> fuse_system \<Rightarrow> bool" for w :: "'t world" and conf :: Config where
  wrapper: "main_step conf (fw_run s) r \<Longrightarrow> \<not> in_close (fw_run s) \<Longrightarrow> fuse_start_step w conf s (s\<lparr>fw_run := r\<rparr>)"
| beside: "other_step conf (fw_run s) r \<Longrightarrow> bystander (fw_run s) r \<Longrightarrow> fuse_start_step w conf s (s\<lparr>fw_run := r\<rparr>)"
| cancelled: "fuse_start_step w conf s (s\<lparr>fw_run := cancel_ctx (fw_run s)\<rparr>)"
| configuring: "rn_senders (fw_run s) FromStart = Idle \<Longrightarrow> rn_start (fw_run s) = Launching \<Longrightarrow> (\<And>r. fw_new s \<noteq> NewDone r) \<Longrightarrow>
     new_next w conf (fw_new s) (fw_os s) = (ph, s1) \<Longrightarrow> fuse_start_step w conf s (s\<lparr>fw_new := ph, fw_os := s1\<rparr>)"
| configured: "rn_senders (fw_run s) FromStart = Idle \<Longrightarrow> rn_start (fw_run s) = Launching \<Longrightarrow> fw_new s = NewDone (Ok c) \<Longrightarrow>
     fuse_start_step w conf s (s\<lparr>fw_run := (fw_run s)\<lparr>rn_start := StartReady\<rparr>, fw_proc := Some (init_fuse_proc c (fw_os s))\<rparr>)"
| not_configured: "rn_senders (fw_run s) FromStart = Idle \<Longrightarrow> rn_start (fw_run s) = Launching \<Longrightarrow> fw_new s = NewDone (Err e) \<Longrightarrow>
     fuse_start_step w conf s
       (s\<lparr>fw_run := send FromStart (ErrorString (''unable to start: '' @ Error e)) ((fw_run s)\<lparr>rn_start := StartDone\<rparr>)\<rparr>)"

text \<open>
  The goroutine of \<open>Serve\<close>: it mounts the directory, records the server, calls \<open>notify\<close>, reaches its
  \<open>select\<close>, and returns the error of a mount, of an accept loop, or of the context.
\<close>

inductive fuse_serve_step :: "fuse_env \<Rightarrow> Config \<Rightarrow> fuse_system \<Rightarrow> fuse_system \<Rightarrow> bool" for fe :: fuse_env and conf :: Config where
  mount_ok: "rn_senders (fw_run s) FromServe = Idle \<Longrightarrow> fw_proc s = Some f \<Longrightarrow>
     fm_serving (cl_fuse (fp_client f)) = NotServing \<Longrightarrow> mount_error fe (fp_client f) = None \<Longrightarrow>
     fuse_serve_step fe conf s
       (s\<lparr>fw_proc := Some (f\<lparr>fp_client := set_serving Mounted (fp_client f), fp_mounted := True\<rparr>)\<rparr>)"
| mount_err: "rn_senders (fw_run s) FromServe = Idle \<Longrightarrow> fw_proc s = Some f \<Longrightarrow>
     fm_serving (cl_fuse (fp_client f)) = NotServing \<Longrightarrow> mount_error fe (fp_client f) = Some e \<Longrightarrow>
     fuse_serve_step fe conf s
       (s\<lparr>fw_run := send FromServe e (fw_run s), fw_proc := Some (f\<lparr>fp_client := set_serving (ServeReturned e) (fp_client f)\<rparr>)\<rparr>)"
| recorded: "fw_proc s = Some f \<Longrightarrow> fm_serving (cl_fuse (fp_client f)) = Mounted \<Longrightarrow>
     fuse_serve_step fe conf s (s\<lparr>fw_proc := Some (f\<lparr>fp_client := record_server (fp_client f)\<rparr>)\<rparr>)"
| notifying: "fw_proc s = Some f \<Longrightarrow> fm_serving (cl_fuse (fp_client f)) = Recorded \<Longrightarrow>
     (if cf_HealthCheck conf then NotifyStarted (rn_check (fw_run s)) else Ok (rn_check (fw_run s))) = Ok ck \<Longrightarrow>
     fuse_serve_step fe conf s
       (s\<lparr>fw_run := (fw_run s)\<lparr>rn_check := ck\<rparr>, fw_proc := Some (f\<lparr>fp_client := set_serving Notified (fp_client f)\<rparr>)\<rparr>)"
| at_select: "fw_proc s = Some f \<Longrightarrow> fm_serving (cl_fuse (fp_client f)) = Notified \<Longrightarrow>
     fuse_serve_step fe conf s (s\<lparr>fw_proc := Some (f\<lparr>fp_client := set_serving Waiting (fp_client f)\<rparr>)\<rparr>)"
| context_ended: "fw_proc s = Some f \<Longrightarrow> fm_serving (cl_fuse (fp_client f)) = Waiting \<Longrightarrow> rn_ctx (fw_run s) \<Longrightarrow>
     fuse_serve_step fe conf s
       (s\<lparr>fw_run := send FromServe Canceled (fw_run s), fw_proc := Some (f\<lparr>fp_client := serveFuse_done (fp_client f)\<rparr>)\<rparr>)"

text \<open>
  Lookups, each of which may create a socket with its accept loop; \<open>Accept\<close>, while the listener is
  open; the end of an accept loop; its goroutine taking the socket out of the registry, whose
  error \<open>serveFuse\<close> returns if it is in its \<open>select\<close>, and then leaving the wait group; and the
  connections.
\<close>

definition created_socket :: "Client \<Rightarrow> Client \<Rightarrow> string \<Rightarrow> socketMount list" where
  "created_socket c c' inst =
     (if map_of (fm_fuseSockets (cl_fuse c)) inst = None
      then (case map_of (fm_fuseSockets (cl_fuse c')) inst of Some ss \<Rightarrow> [ss_socket ss] | None \<Rightarrow> []) else [])"

inductive fuse_socket_step :: "sys \<Rightarrow> Config \<Rightarrow> fuse_system \<Rightarrow> fuse_system \<Rightarrow> bool" for sys :: sys and conf :: Config where
  lookup: "fw_proc s = Some f \<Longrightarrow> fp_mounted f \<Longrightarrow> Lookup sys inst (fp_client f) (fp_os f) = (r, c, s1) \<Longrightarrow>
     new = created_socket (fp_client f) c inst \<Longrightarrow>
     fuse_socket_step sys conf s
       (s\<lparr>fw_proc := Some (f\<lparr>fp_client := c, fp_os := s1\<rparr>), fw_sockets := fw_sockets s @ new,
          fw_keepers := fw_keepers s @ map (\<lambda>_. Registered) new, fw_server := (fw_server s)\<lparr>sv_loops := sv_loops (fw_server s) @ map (\<lambda>_. None) new\<rparr>\<rparr>)"
| accepted: "fw_proc s = Some f \<Longrightarrow> accept_step (fw_server s) sv \<Longrightarrow> sv_loops sv = sv_loops (fw_server s) \<Longrightarrow>
     (\<And>i. sv_conns sv = sv_conns (fw_server s) @ [(i, Accepted)] \<Longrightarrow>
        sm_listener (fw_sockets s ! i) \<in> fst ` set (os_listeners (fp_os f))) \<Longrightarrow>
     fuse_socket_step sys conf s (s\<lparr>fw_server := sv\<rparr>)"
| ended: "fw_proc s = Some f \<Longrightarrow> i < length (sv_loops (fw_server s)) \<Longrightarrow> sv_loops (fw_server s) ! i = None \<Longrightarrow>
     \<not> is_timeout e \<Longrightarrow> library_error e \<Longrightarrow>
     fuse_socket_step sys conf s (s\<lparr>fw_server := (fw_server s)\<lparr>sv_loops := (sv_loops (fw_server s))[i := Some e]\<rparr>\<rparr>)"
| taken_out: "fw_proc s = Some f \<Longrightarrow> i < length (sv_loops (fw_server s)) \<Longrightarrow> sv_loops (fw_server s) ! i = Some e \<Longrightarrow>
     fw_keepers s ! i = Registered \<Longrightarrow>
     fuse_socket_step sys conf s
       (s\<lparr>fw_keepers := (fw_keepers s)[i := Removed],
          fw_run := (if fm_serving (cl_fuse (fp_client f)) = Waiting then send FromServe e (fw_run s) else fw_run s),
          fw_proc := Some (f\<lparr>fp_client := remove_socket (sm_inst (fw_sockets s ! i)) e (fp_client f)\<rparr>)\<rparr>)"
| left_group: "fw_proc s = Some f \<Longrightarrow> i < length (fw_keepers s) \<Longrightarrow> fw_keepers s ! i = Removed \<Longrightarrow>
     fuse_socket_step sys conf s
       (s\<lparr>fw_keepers := (fw_keepers s)[i := Gone], fw_proc := Some (f\<lparr>fp_client := fuseWg_Done (fp_client f)\<rparr>)\<rparr>)"
| conn: "fw_proc s = Some f \<Longrightarrow>
     conn_step (cf_MaxConnections conf) (cl_connRefuseNotify (fp_client f)) (fw_sockets s) (fw_server s) sv \<Longrightarrow>
     fuse_socket_step sys conf s (s\<lparr>fw_server := sv\<rparr>)"

text \<open>
  The steps of \<open>Close\<close> in the deferred call, its wait for the goroutines included, and its return, with
  the value the counter has then.
\<close>

inductive fuse_closing_step :: "sys \<Rightarrow> Config \<Rightarrow> fuse_system \<Rightarrow> fuse_system \<Rightarrow> bool" for sys :: sys and conf :: Config where
  close_moved: "in_close (fw_run s) \<Longrightarrow> fw_proc s = Some f \<Longrightarrow> fuse_close_step sys conf f f' \<Longrightarrow> (\<And>x. fp_close f' \<noteq> FuseReturned x) \<Longrightarrow>
     fuse_closing_step sys conf s (s\<lparr>fw_proc := Some f'\<rparr>)"
| close_returned: "rn_main (fw_run s) = Returning e \<Longrightarrow> rn_defers (fw_run s) = DoClose # ds \<Longrightarrow>
     fw_proc s = Some f \<Longrightarrow> fp_close f = FuseDrained mErr \<Longrightarrow>
     closeErr = nonempty (closeErrors conf None mErr (sv_connCount (fw_server s))) \<Longrightarrow>
     run_deferred conf closeErr e DoClose ((fw_run s)\<lparr>rn_defers := ds, rn_done := rn_done (fw_run s) @ [DoClose]\<rparr>) = Ok r \<Longrightarrow>
     fuse_closing_step sys conf s
       (s\<lparr>fw_run := r, fw_proc := Some (f\<lparr>fp_close := FuseReturned (map_option MultiErr closeErr)\<rparr>)\<rparr>)"

definition fuse_system_step :: "'t world \<Rightarrow> Config \<Rightarrow> fuse_system \<Rightarrow> fuse_system \<Rightarrow> bool" where
  "fuse_system_step w conf s t \<longleftrightarrow>
     fuse_start_step w conf s t \<or> fuse_serve_step (wd_fuse w) conf s t \<or> fuse_socket_step (wd_sys w) conf s t
     \<or> fuse_closing_step (wd_sys w) conf s t"

lemma fuse_system_step_cases:
  assumes "fuse_system_step w conf s t"
  obtains (start) "fuse_start_step w conf s t" | (serve) "fuse_serve_step (wd_fuse w) conf s t"
  | (socket) "fuse_socket_step (wd_sys w) conf s t" | (closing) "fuse_closing_step (wd_sys w) conf s t"
  using assms by (auto simp: fuse_system_step_def)

text \<open>The HTTP server's answer to a request; \<open>ConnCount\<close> reads the counter.\<close>

definition fuse_http_get :: "nat \<times> string \<Rightarrow> Config \<Rightarrow> fuse_system \<Rightarrow> string \<Rightarrow> (nat \<times> string) option" where
  "fuse_http_get metrics conf s path =
     (case fw_proc s of
        None \<Rightarrow> None
      | Some f \<Rightarrow>
          if rn_http (fw_run s) FromHTTP = Listening
          then Some (serveHTTP metrics conf (ConnCount (fw_server s) (fp_client f)) (rn_check (fw_run s)) path) else None)"

end
