(* ===== verification/Fuse_System_Safety.thy ===== *)
theory Fuse_System_Safety
  imports Fuse_System
begin

text \<open>
  What holds in every state of the process with FUSE (\<open>Fuse_System\<close>): it refines the command and the
  client with its directory, and it keeps the invariants of the server, of the sockets and of their
  goroutines.
\<close>

section \<open>Invariants\<close>

text \<open>What \<open>serveFuse\<close> has sent, if it has returned.\<close>

definition mounting_ok :: "sender \<Rightarrow> serving \<Rightarrow> bool" where
  "mounting_ok sd sg \<longleftrightarrow> (case sd of
       Unspawned \<Rightarrow> sg = NotServing
     | Idle \<Rightarrow> \<forall>e. sg \<noteq> ServeReturned e
     | _ \<Rightarrow> \<exists>e. sg = ServeReturned e)"

text \<open>How far \<open>Close\<close> is, as in a process without FUSE.\<close>

fun close_phase_of :: "fuse_close \<Rightarrow> close_phase" where
  "close_phase_of FuseOpen = NotClosing"
| "close_phase_of (FuseReturned x) = CloseReturned x"
| "close_phase_of _ = CloseWaiting None []"

text \<open>A socket that a lookup of a valid instance name has created.\<close>

definition lookup_socket :: "Config \<Rightarrow> socketMount \<Rightarrow> bool" where
  "lookup_socket conf m \<longleftrightarrow> is_Ok (parseConnName (sm_inst m))
     \<and> sm_dialOpts m = dialOptions (withUnixSocket conf (cf_FUSETempDir conf)) (zero_inst\<lparr>ic_Name := sm_inst m\<rparr>)"

text \<open>
  A goroutine that has not taken its socket out has it in the registry, under a name of its own; an
  accept loop that runs is before that; and the goroutines between the two are those that count
  as leaving.
\<close>

definition loops_ok :: "(string \<times> socketSymlink) list \<Rightarrow> socketMount list \<Rightarrow> keeper list \<Rightarrow> bool" where
  "loops_ok reg ms ks \<longleftrightarrow>
     (\<forall>i < length ms. ks ! i = Registered \<longrightarrow> (\<exists>ss. map_of reg (sm_inst (ms ! i)) = Some ss \<and> ss_socket ss = ms ! i))
     \<and> (\<forall>i < length ms. \<forall>j < length ms. ks ! i = Registered \<longrightarrow> ks ! j = Registered \<longrightarrow> sm_inst (ms ! i) = sm_inst (ms ! j) \<longrightarrow> i = j)"

definition keepers_ok :: "nat \<Rightarrow> nat \<Rightarrow> go_error option list \<Rightarrow> keeper list \<Rightarrow> bool" where
  "keepers_ok n leaving ls ks \<longleftrightarrow>
     length ks = n \<and> length (filter (\<lambda>k. k = Removed) ks) = leaving
     \<and> (\<forall>i < n. ls ! i = None \<longrightarrow> ks ! i = Registered) \<and> (\<forall>e. Some e \<in> set ls \<longrightarrow> library_error e)"

text \<open>The client's part of the state.\<close>

definition fuse_client_ok :: "'t world \<Rightarrow> Config \<Rightarrow> os \<Rightarrow> fuse_system \<Rightarrow> bool" where
  "fuse_client_ok w conf os0 s \<longleftrightarrow> (case fw_proc s of
       None \<Rightarrow> \<not> rn_client (fw_run s) \<and> rn_start (fw_run s) \<noteq> StartReady
         \<and> new_rest w conf (fw_new s) (fw_os s) = new_rest w conf NewCalled os0
         \<and> fw_sockets s = [] \<and> fw_server s = init_server [] \<and> fw_keepers s = []
     | Some f \<Rightarrow> rn_start (fw_run s) \<noteq> Launching
         \<and> (\<exists>c warm s1. NewClient (wd_cred w) (wd_newDialer w) (wd_sys w) (wd_fuse w) (wd_given w) (wd_notify w) conf os0 = (Ok c, warm, s1)
              \<and> (fuse_proc_step (wd_sys w) (wd_fuse w) conf)\<^sup>*\<^sup>* (init_fuse_proc c s1) f)
         \<and> mounting_ok (rn_senders (fw_run s) FromServe) (fm_serving (cl_fuse (fp_client f)))
         \<and> close_ok (close_phase_of (fp_close f)) (fw_run s)
         \<and> loops_ok (registry f) (fw_sockets s) (fw_keepers s)
         \<and> keepers_ok (length (fw_sockets s)) (fm_leaving (cl_fuse (fp_client f))) (sv_loops (fw_server s)) (fw_keepers s)
         \<and> (ck_started (rn_check (fw_run s)) \<longrightarrow> fp_mounted f \<or> fp_close f \<noteq> FuseOpen))"

definition fuse_system_inv :: "'t world \<Rightarrow> Config \<Rightarrow> os \<Rightarrow> fuse_system \<Rightarrow> bool" where
  "fuse_system_inv w conf os0 s \<longleftrightarrow>
     run_inv conf (fw_run s) \<and> fuse_client_ok w conf os0 s
     \<and> server_inv (cf_MaxConnections conf) (fw_server s) \<and> conns_inv (fw_sockets s) (fw_server s)
     \<and> (\<forall>m \<in> set (fw_sockets s). lookup_socket conf m)"

lemma fuse_system_invD:
  assumes "fuse_system_inv w conf os0 s"
  shows "run_inv conf (fw_run s)" "fuse_client_ok w conf os0 s" "server_inv (cf_MaxConnections conf) (fw_server s)"
    "conns_inv (fw_sockets s) (fw_server s)" "\<forall>m \<in> set (fw_sockets s). lookup_socket conf m"
  using assms unfolding fuse_system_inv_def by blast+

lemma fuse_system_inv_init: "fuse_system_inv w conf os0 (init_fuse_system os0)"
  by (simp add: fuse_system_inv_def init_fuse_system_def run_inv_init fuse_client_ok_def server_inv_init conns_inv_init)
    (simp add: init_run_def)

text \<open>The client keeps its configuration.\<close>

lemma fuse_proc_step_keeps:
  assumes "fuse_proc_step sys fe conf f g"
  shows "cl_conf (fp_client g) = cl_conf (fp_client f) \<and> fm_fuseTempDir (cl_fuse (fp_client g)) = fm_fuseTempDir (cl_fuse (fp_client f))
    \<and> cl_connRefuseNotify (fp_client g) = cl_connRefuseNotify (fp_client f)"
  using assms
proof (cases rule: fuse_proc_step.cases)
  case calm
  then show ?thesis
  proof (cases rule: calm_step.cases)
    case (looked_up inst r c s1)
    then show ?thesis by (cases rule: Lookup_cases [of inst sys "fp_client f" "fp_os f"]) (auto simp: add_socket_def)
  qed (auto simp: serveFuse_done_def set_serving_def record_server_def remove_socket_def fuseWg_Done_def)
next
  case closing
  then show ?thesis by (cases rule: fuse_close_step.cases) auto
qed (simp add: remove_socket_def)

lemma fuse_system_client:
  assumes "fuse_client_ok w conf os0 s" and "fw_proc s = Some f" and "cf_FUSEDir conf \<noteq> []"
  shows "fuse_proc_inv f" "cl_conf (fp_client f) = conf" "fm_fuseTempDir (cl_fuse (fp_client f)) = cf_FUSETempDir conf"
    "cl_connRefuseNotify (fp_client f) = wd_notify w"
proof -
  obtain c warm s1 where c: "NewClient (wd_cred w) (wd_newDialer w) (wd_sys w) (wd_fuse w) (wd_given w) (wd_notify w) conf os0 = (Ok c, warm, s1)"
    "(fuse_proc_step (wd_sys w) (wd_fuse w) conf)\<^sup>*\<^sup>* (init_fuse_proc c s1) f"
    using assms(1,2) by (auto simp: fuse_client_ok_def)
  then obtain c0 where conf: "configureFUSE (wd_sys w) (wd_fuse w) c0 conf os0 = (Ok c, s1)" "cl_conf c0 = conf"
    "cl_connRefuseNotify c0 = wd_notify w" using assms(3) by (auto simp: NewClient_def Let_def split: outcome.splits prod.splits)
  then show "fuse_proc_inv f" using fuse_whole.inv_steps [OF c(2) fuse_proc_inv_init] by blast
  have "cl_conf c = conf \<and> fm_fuseTempDir (cl_fuse c) = cf_FUSETempDir conf \<and> cl_connRefuseNotify c = wd_notify w"
    using conf by (auto simp: configureFUSE_def split: option.splits)
  with c(2) show "cl_conf (fp_client f) = conf" "fm_fuseTempDir (cl_fuse (fp_client f)) = cf_FUSETempDir conf"
    "cl_connRefuseNotify (fp_client f) = wd_notify w"
    by (induction rule: rtranclp_induct) (auto simp: init_fuse_proc_def dest: fuse_proc_step_keeps)
qed

section \<open>Every step is a step of the run, or none, and of the client, or none\<close>

lemma fuse_start_step_run:
  assumes "fuse_start_step w conf s t"
  shows "fw_run t = fw_run s \<or> env_step conf (fw_run s) (fw_run t)"
  using assms
proof (cases rule: fuse_start_step.cases)
  case (configured c)
  then show ?thesis using start_ready [of "fw_run s" conf] by (simp add: env_step_def run_step_def)
next
  case (not_configured e)
  then show ?thesis using start_failed [of "fw_run s" conf e] by (simp add: env_step_def run_step_def)
qed (auto simp: env_step_def run_step_def)

lemma serving_idle: "mounting_ok sd sg \<Longrightarrow> sg \<in> {Recorded, Waiting} \<Longrightarrow> sd = Idle"
  by (auto simp: mounting_ok_def split: sender.splits)

lemma fuse_serve_step_run:
  assumes "fuse_serve_step fe conf s t" and "fuse_client_ok w conf os0 s" and "cf_FUSEDir conf \<noteq> []"
  shows "fw_run t = fw_run s \<or> other_step conf (fw_run s) (fw_run t)"
  using assms(1)
proof (cases rule: fuse_serve_step.cases)
  case (notifying f ck)
  then have "rn_senders (fw_run s) FromServe = Idle" using assms(2) by (auto simp: fuse_client_ok_def intro: serving_idle)
  then show ?thesis using serving [of "fw_run s" conf ck] notifying by (cases "cf_HealthCheck conf") auto
next
  case (mount_err f e)
  then have "fst (serveFuse fe (fp_client f)) = Some e" by (simp add: serveFuse_def)
  then show ?thesis using mount_err serve_ended [of "fw_run s" conf e] Serve_errors(2) [of fe "fp_client f" e] by simp
next
  case (context_ended f)
  then have "rn_senders (fw_run s) FromServe = Idle" using assms(2) by (auto simp: fuse_client_ok_def intro: serving_idle)
  then show ?thesis using serve_ended [of "fw_run s" conf Canceled] context_ended assms(3) by (simp add: serve_error_def)
qed simp_all

lemma fuse_socket_step_run:
  assumes "fuse_socket_step sys conf s t" and "fuse_client_ok w conf os0 s"
  shows "fw_run t = fw_run s \<or> other_step conf (fw_run s) (fw_run t)"
  using assms(1)
proof (cases rule: fuse_socket_step.cases)
  case (taken_out f i e)
  then have "rn_senders (fw_run s) FromServe = Idle" if "fm_serving (cl_fuse (fp_client f)) = Waiting"
    using assms(2) that by (auto simp: fuse_client_ok_def intro: serving_idle)
  moreover have "library_error e"
    using assms(2) taken_out(2-4) nth_mem [OF taken_out(3)] by (auto simp: fuse_client_ok_def keepers_ok_def)
  ultimately show ?thesis using serve_ended [of "fw_run s" conf e] taken_out by (auto simp: serve_error_def)
qed simp_all

lemma fuse_closing_step_run:
  assumes "fuse_closing_step sys conf s t"
  shows "fw_run t = fw_run s \<or> main_step conf (fw_run s) (fw_run t)"
  using assms
proof (cases rule: fuse_closing_step.cases)
  case (close_returned e ds f mErr closeErr r)
  then show ?thesis using deferred [of "fw_run s" e DoClose ds conf closeErr r] by simp
qed simp

lemma fuse_system_step_run:
  assumes "fuse_system_step w conf s t" and "fuse_client_ok w conf os0 s" and "cf_FUSEDir conf \<noteq> []"
  shows "fw_run t = fw_run s \<or> env_step conf (fw_run s) (fw_run t)"
  using assms(1)
proof (cases rule: fuse_system_step_cases)
  case start
  then show ?thesis by (simp add: fuse_start_step_run)
next
  case serve
  then show ?thesis using fuse_serve_step_run [OF serve assms(2,3)] by (auto simp: env_step_def run_step_def)
next
  case socket
  then show ?thesis using fuse_socket_step_run [OF socket assms(2)] by (auto simp: env_step_def run_step_def)
next
  case closing
  then show ?thesis using fuse_closing_step_run [OF closing] by (auto simp: env_step_def run_step_def)
qed

text \<open>The client with its directory only makes its own steps.\<close>

lemma fuse_serve_step_proc:
  assumes "fuse_serve_step fe conf s t" and "fw_proc s = Some f"
  shows "\<exists>g. fw_proc t = Some g \<and> fuse_proc_step sys fe conf f g"
  using assms
  by (cases rule: fuse_serve_step.cases) (auto intro!: calm intro: calm_step.intros)

lemma keepers_leaving: "keepers_ok n leaving ls ks \<Longrightarrow> i < length ks \<Longrightarrow> ks ! i = Removed \<Longrightarrow> 0 < leaving"
  by (auto simp: keepers_ok_def filter_empty_conv)

lemma fuse_socket_step_proc:
  assumes "fuse_socket_step sys conf s t" and "fw_proc s = Some f" and "loops_ok (registry f) (fw_sockets s) (fw_keepers s)"
    and "keepers_ok (length (fw_sockets s)) (fm_leaving (cl_fuse (fp_client f))) (sv_loops (fw_server s)) (fw_keepers s)"
    and "conns_inv (fw_sockets s) (fw_server s)"
  shows "\<exists>g. fw_proc t = Some g \<and> (g = f \<or> fuse_proc_step sys fe conf f g)"
  using assms(1)
proof (cases rule: fuse_socket_step.cases)
  case (lookup f' inst r c s1 new)
  then have "calm_step sys fe f (f\<lparr>fp_client := c, fp_os := s1\<rparr>)" using assms(2) looked_up [of f sys inst r c s1 fe] by simp
  then show ?thesis using lookup assms(2) calm by auto
next
  case (taken_out f' i e)
  then have "map_of (registry f) (sm_inst (fw_sockets s ! i)) \<noteq> None"
    using assms(2,3,5) by (auto simp: loops_ok_def conns_inv_def)
  then show ?thesis using taken_out assms(2) accept_failed [of f "sm_inst (fw_sockets s ! i)" sys fe conf e] by simp
next
  case (left_group f' i)
  then have "calm_step sys fe f (f\<lparr>fp_client := fuseWg_Done (fp_client f)\<rparr>)"
    using keepers_leaving [OF assms(4)] assms(2) by (intro goroutine_left) simp
  then show ?thesis using left_group assms(2) calm by auto
qed (use assms(2) in auto)

lemma fuse_closing_step_proc:
  assumes "fuse_closing_step sys conf s t" and "fw_proc s = Some f"
  shows "\<exists>g. fw_proc t = Some g \<and> fuse_close_step sys conf f g"
  using assms(1)
proof (cases rule: fuse_closing_step.cases)
  case (close_returned e ds f' mErr closeErr r)
  then show ?thesis
    using assms(2) returned [OF close_returned(5) refl, where conf = conf and n = "sv_connCount (fw_server s)" and sys = sys]
    by (auto simp: closeErrors_def nonempty_def opt_list_def)
qed (use assms(2) in auto)

section \<open>Every step keeps the invariant\<close>

lemma main_step_mounting:
  assumes "main_step conf r r'" and "run_inv conf r" and "mounting_ok (rn_senders r FromServe) sg"
  shows "mounting_ok (rn_senders r' FromServe) sg"
  using assms(1)
proof (cases rule: main_step.cases)
  case (deferred e d ds closeErr)
  then show ?thesis using assms(3) by (cases d) (auto simp: NotifyStopped_def close_chan_def split: if_splits)
next
  case servers_up
  then show ?thesis using run_invD(2) [OF assms(2)] assms(3) by (simp add: spawnServers_def mounting_ok_def)
qed (use assms(3) in \<open>auto simp: mounting_ok_def spawnStart_def\<close>)

text \<open>A step of the wrapper alone keeps what is known of the client.\<close>

lemma fuse_client_ok_run:
  assumes "fuse_client_ok w conf os0 s" and "rn_client r = rn_client (fw_run s) \<or> rn_start (fw_run s) = StartReady"
    and "rn_start r = rn_start (fw_run s) \<or> rn_start (fw_run s) = StartReady \<and> rn_start r = StartDone"
    and "\<And>sg. mounting_ok (rn_senders (fw_run s) FromServe) sg \<Longrightarrow> mounting_ok (rn_senders r FromServe) sg"
    and "\<And>ph. close_ok ph (fw_run s) \<Longrightarrow> close_ok ph r" and "ck_started (rn_check r) = ck_started (rn_check (fw_run s))"
  shows "fuse_client_ok w conf os0 (s\<lparr>fw_run := r\<rparr>)"
  using assms by (auto simp: fuse_client_ok_def split: option.splits)

lemma cancel_ctx_close: "close_ok ph r \<Longrightarrow> close_ok ph (cancel_ctx r)"
  by (cases ph) (auto simp: cancel_ctx_def intro: in_close_frame)

lemma NewClient_fuse:
  assumes "NewClient cred newDialer sys fe given ntf conf s = (Ok c, warm, s1)" and "cf_FUSEDir conf \<noteq> []"
  shows "fm_serving (cl_fuse c) = NotServing" "fm_fuseSockets (cl_fuse c) = []" "os_listeners s1 = os_listeners s"
    "fm_leaving (cl_fuse c) = 0"
  using assms by (auto simp: NewClient_def configureFUSE_def zero_fuseMount_def Let_def split: outcome.splits prod.splits option.splits)

lemma fuse_start_step_inv:
  assumes "fuse_start_step w conf s t" and "fuse_system_inv w conf os0 s" and "cf_FUSEDir conf \<noteq> []"
  shows "fuse_system_inv w conf os0 t"
proof -
  note inv = fuse_system_invD [OF assms(2)]
  have run: "run_inv conf (fw_run t)" using fuse_start_step_run [OF assms(1)] inv(1) env_step_inv by auto
  show ?thesis using assms(1)
  proof (cases rule: fuse_start_step.cases)
    case (wrapper r)
    have "fuse_client_ok w conf os0 t" unfolding wrapper(1)
      by (rule fuse_client_ok_run [OF inv(2)])
        (use main_step_start [OF wrapper(2)] main_step_mounting [OF wrapper(2) inv(1)]
          main_step_close [OF wrapper(2,3) _ inv(1)] main_step_check [OF wrapper(2)] in auto)
    with wrapper run inv show ?thesis by (simp add: fuse_system_inv_def)
  next
    case (beside r)
    have "fuse_client_ok w conf os0 t" unfolding beside(1)
      by (rule fuse_client_ok_run [OF inv(2)])
        (use beside(3) other_step_keeps [OF beside(2)] other_step_close [OF beside(2)] in \<open>auto simp: bystander_def\<close>)
    with beside run inv show ?thesis by (simp add: fuse_system_inv_def)
  next
    case cancelled
    have "fuse_client_ok w conf os0 t" unfolding cancelled
      by (rule fuse_client_ok_run [OF inv(2)]) (use cancel_ctx_close in \<open>auto simp: cancel_ctx_def\<close>)
    with cancelled run inv show ?thesis by (simp add: fuse_system_inv_def)
  next
    case (configuring ph s1)
    then have none: "fw_proc s = None" using inv(2) by (auto simp: fuse_client_ok_def split: option.splits)
    have "new_rest w conf ph s1 = new_rest w conf (fw_new s) (fw_os s)" using NewClient_next_rest [OF configuring(5)] .
    with configuring none inv(2) have "fuse_client_ok w conf os0 t" by (simp add: fuse_client_ok_def)
    with configuring run inv show ?thesis by (simp add: fuse_system_inv_def)
  next
    case (configured c)
    then have none: "fw_proc s = None" using inv(2) by (auto simp: fuse_client_ok_def split: option.splits)
    with inv(2) configured(3,4) have s: "\<not> rn_client (fw_run s)" "fw_sockets s = []" "fw_keepers s = []" "sv_loops (fw_server s) = []"
      by (auto simp: fuse_client_ok_def init_server_def)
    from none inv(2) configured(4) obtain warm where
      n: "NewClient (wd_cred w) (wd_newDialer w) (wd_sys w) (wd_fuse w) (wd_given w) (wd_notify w) conf os0 = (Ok c, warm, fw_os s)"
      by (auto simp: fuse_client_ok_def split: prod.splits)
    have "rn_senders (fw_run s) FromServe = Unspawned" "\<not> ck_started (rn_check (fw_run s))"
      using run_invD(9,10) [OF inv(1)] s(1) by auto
    moreover have "DoClose \<notin> set (rn_done (fw_run s))"
      using run_invD(1) [OF inv(1)] s(1) registered_members by (metis UnI1 set_append)
    ultimately have "fuse_client_ok w conf os0 t"
      using configured n s(2-4) NewClient_fuse(1,4) [OF n assms(3)]
      by (auto simp: fuse_client_ok_def init_fuse_proc_def mounting_ok_def loops_ok_def keepers_ok_def)
    with configured run inv show ?thesis by (simp add: fuse_system_inv_def)
  next
    case (not_configured e)
    then have "fw_proc s = None" using inv(2) by (auto simp: fuse_client_ok_def split: option.splits)
    with inv(2) not_configured have "fuse_client_ok w conf os0 t" by (simp add: fuse_client_ok_def send_def)
    with not_configured run inv show ?thesis by (simp add: fuse_system_inv_def)
  qed
qed

text \<open>A step of the client's goroutines keeps the wrapper's part.\<close>

lemma fuse_client_ok_proc:
  assumes "fuse_client_ok w conf os0 s" and "fw_proc s = Some f" and "fw_proc t = Some g"
    and "g = f \<or> fuse_proc_step (wd_sys w) (wd_fuse w) conf f g"
    and "fw_run t = fw_run s \<or> other_step conf (fw_run s) (fw_run t)" and "rn_start (fw_run t) = rn_start (fw_run s)"
    and "fp_close g = fp_close f"
    and "mounting_ok (rn_senders (fw_run t) FromServe) (fm_serving (cl_fuse (fp_client g)))"
    and "loops_ok (registry g) (fw_sockets t) (fw_keepers t)"
    and "keepers_ok (length (fw_sockets t)) (fm_leaving (cl_fuse (fp_client g))) (sv_loops (fw_server t)) (fw_keepers t)"
    and "ck_started (rn_check (fw_run t)) \<longrightarrow> fp_mounted g \<or> fp_close g \<noteq> FuseOpen"
  shows "fuse_client_ok w conf os0 t"
proof -
  obtain c warm s1 where c: "NewClient (wd_cred w) (wd_newDialer w) (wd_sys w) (wd_fuse w) (wd_given w) (wd_notify w) conf os0 = (Ok c, warm, s1)"
    "(fuse_proc_step (wd_sys w) (wd_fuse w) conf)\<^sup>*\<^sup>* (init_fuse_proc c s1) f"
    using assms(1,2) by (auto simp: fuse_client_ok_def)
  from c(2) assms(4) have "(fuse_proc_step (wd_sys w) (wd_fuse w) conf)\<^sup>*\<^sup>* (init_fuse_proc c s1) g"
    by (auto intro: rtranclp.rtrancl_into_rtrancl)
  moreover have "close_ok (close_phase_of (fp_close g)) (fw_run t)"
    using assms(1,2,5,7) other_step_close by (auto simp: fuse_client_ok_def)
  ultimately show ?thesis using assms c(1) by (auto simp: fuse_client_ok_def)
qed

lemma fuse_serve_step_inv:
  assumes "fuse_serve_step (wd_fuse w) conf s t" and "fuse_system_inv w conf os0 s" and "cf_FUSEDir conf \<noteq> []"
  shows "fuse_system_inv w conf os0 t"
proof -
  note inv = fuse_system_invD [OF assms(2)]
  note step = fuse_serve_step_run [OF assms(1) inv(2) assms(3)]
  have run: "run_inv conf (fw_run t)" using step inv(1) run_inv_other by auto
  obtain f where f: "fw_proc s = Some f" using assms(1) by (auto elim: fuse_serve_step.cases)
  obtain g where g: "fw_proc t = Some g" "fuse_proc_step (wd_sys w) (wd_fuse w) conf f g"
    using fuse_serve_step_proc [OF assms(1) f] by blast
  have served: "serving_ok f" using fuse_proc_invD(3) [OF fuse_system_client(1) [OF inv(2) f assms(3)]] .
  have old: "loops_ok (registry f) (fw_sockets s) (fw_keepers s)"
    "keepers_ok (length (fw_sockets s)) (fm_leaving (cl_fuse (fp_client f))) (sv_loops (fw_server s)) (fw_keepers s)"
    "mounting_ok (rn_senders (fw_run s) FromServe) (fm_serving (cl_fuse (fp_client f)))"
    "ck_started (rn_check (fw_run s)) \<longrightarrow> fp_mounted f \<or> fp_close f \<noteq> FuseOpen"
    using inv(2) f by (simp_all add: fuse_client_ok_def)
  have same: "fw_sockets t = fw_sockets s" "fw_server t = fw_server s" "fw_keepers t = fw_keepers s"
    using assms(1) by (auto elim: fuse_serve_step.cases)
  have reg: "registry g = registry f" "fm_leaving (cl_fuse (fp_client g)) = fm_leaving (cl_fuse (fp_client f))"
    "rn_start (fw_run t) = rn_start (fw_run s)" "fp_close g = fp_close f"
    using assms(1) f g(1) by (auto elim!: fuse_serve_step.cases simp: send_def)
  have "mounting_ok (rn_senders (fw_run t) FromServe) (fm_serving (cl_fuse (fp_client g)))"
    using assms(1) f g(1) old(3)
    by (cases rule: fuse_serve_step.cases)
      (auto simp: mounting_ok_def send_def serveFuse_done_def split: sender.splits)
  moreover have "ck_started (rn_check (fw_run t)) \<longrightarrow> fp_mounted g \<or> fp_close g \<noteq> FuseOpen"
    using assms(1) f g(1) old(4) served by (cases rule: fuse_serve_step.cases) (auto simp: send_def serving_ok_def)
  ultimately have "fuse_client_ok w conf os0 t"
    using fuse_client_ok_proc [OF inv(2) f g(1) _ step] g(2) reg old(1,2) same by simp
  with run inv same show ?thesis by (simp add: fuse_system_inv_def)
qed

lemma loops_ok_new:
  assumes "loops_ok reg ms ks" and "length ks = length ms" and "map_of reg (sm_inst (ss_socket ss)) = None"
  shows "loops_ok (AList.update (sm_inst (ss_socket ss)) ss reg) (ms @ [ss_socket ss]) (ks @ [Registered])"
proof -
  have fresh: "sm_inst (ms ! i) \<noteq> sm_inst (ss_socket ss)" if "i < length ms" "ks ! i = Registered" for i
    using assms(1,3) that by (auto simp: loops_ok_def)
  with assms(1,2) fresh [symmetric] show ?thesis
    by (auto simp: loops_ok_def nth_append less_Suc_eq update_conv' all_conj_distrib)
qed

lemma loops_ok_removed:
  assumes "loops_ok reg ms ks" and "length ks = length ms" and "i < length ks" and "ks ! i = Registered"
  shows "loops_ok (AList.delete (sm_inst (ms ! i)) reg) ms (ks[i := Removed])"
proof -
  have ne: "sm_inst (ms ! j) \<noteq> sm_inst (ms ! i)" if "j < length ms" "j \<noteq> i" "ks ! j = Registered" for j
    using assms that unfolding loops_ok_def by (metis (no_types, lifting))
  have "\<exists>ss. map_of (AList.delete (sm_inst (ms ! i)) reg) (sm_inst (ms ! j)) = Some ss \<and> ss_socket ss = ms ! j"
    if "j < length ms" "ks[i := Removed] ! j = Registered" for j
  proof -
    have "j \<noteq> i" "ks ! j = Registered" using that assms(2,3) by (auto simp: nth_list_update split: if_splits)
    with ne [OF that(1)] that(1) assms(1) show ?thesis by (auto simp: loops_ok_def delete_conv')
  qed
  moreover have "j = k" if "j < length ms" "k < length ms" "ks[i := Removed] ! j = Registered" "ks[i := Removed] ! k = Registered"
      "sm_inst (ms ! j) = sm_inst (ms ! k)" for j k
  proof -
    have "ks ! j = Registered" "ks ! k = Registered" using that assms(2,3) by (auto simp: nth_list_update split: if_splits)
    with assms(1) that show ?thesis unfolding loops_ok_def by blast
  qed
  ultimately show ?thesis unfolding loops_ok_def by blast
qed

lemma loops_ok_gone:
  assumes "loops_ok reg ms ks" and "ks ! i \<noteq> Registered"
  shows "loops_ok reg ms (ks[i := Gone])"
proof -
  have "ks ! j = Registered" if "ks[i := Gone] ! j = Registered" for j
    using that by (metis keeper.simps(4) linorder_not_less list_update_beyond nth_list_update)
  with assms(1) show ?thesis unfolding loops_ok_def by blast
qed

text \<open>One goroutine moves on.\<close>

lemma count_update:
  "i < length ks \<Longrightarrow> length (filter P (ks[i := k])) + (if P (ks ! i) then 1 else 0) = length (filter P ks) + (if P k then 1 else 0)"
proof (induction ks arbitrary: i)
  case (Cons a ks)
  then show ?case by (cases i) auto
qed simp

lemma keepers_ok_new:
  assumes "keepers_ok n m ls ks" and "length ls = n"
  shows "keepers_ok (n + length new) m (ls @ map (\<lambda>_. None) new) (ks @ map (\<lambda>_. Registered) new)"
  using assms by (auto simp: keepers_ok_def nth_append)

lemma keepers_ok_ended:
  assumes "keepers_ok n m ls ks" and "library_error e" and "length ls = n"
  shows "keepers_ok n m (ls[i := Some e]) ks"
proof -
  have "ls ! j = None" if "j < n" "ls[i := Some e] ! j = None" for j
    using that assms(3) by (cases "j = i") auto
  moreover have "library_error x" if "Some x \<in> set (ls[i := Some e])" for x
    using that assms(1,2) set_update_subset_insert [of ls i "Some e"] by (auto simp: keepers_ok_def)
  ultimately show ?thesis using assms(1) by (auto simp: keepers_ok_def)
qed

lemma keepers_ok_removed:
  assumes "keepers_ok n m ls ks" and "i < n" and "ks ! i = Registered" and "ls ! i = Some e"
  shows "keepers_ok n (Suc m) ls (ks[i := Removed])"
  using assms count_update [of i ks "\<lambda>k. k = Removed" Removed] by (auto simp: keepers_ok_def nth_list_update)

lemma keepers_ok_gone:
  assumes "keepers_ok n m ls ks" and "i < n" and "ks ! i = Removed"
  shows "keepers_ok n (m - 1) ls (ks[i := Gone])"
  using assms count_update [of i ks "\<lambda>k. k = Removed" Gone] by (auto simp: keepers_ok_def nth_list_update)

lemma lookup_registers:
  assumes "Lookup sys inst c s = (r, c', s1)" and "cl_conf c = conf" and "fm_fuseTempDir (cl_fuse c) = cf_FUSETempDir conf"
  shows "fm_fuseSockets (cl_fuse c') = fm_fuseSockets (cl_fuse c) \<and> created_socket c c' inst = []
    \<or> (\<exists>ss. map_of (fm_fuseSockets (cl_fuse c)) (sm_inst (ss_socket ss)) = None \<and> created_socket c c' inst = [ss_socket ss]
        \<and> fm_fuseSockets (cl_fuse c') = AList.update (sm_inst (ss_socket ss)) ss (fm_fuseSockets (cl_fuse c))
        \<and> lookup_socket conf (ss_socket ss))"
proof (cases rule: Lookup_cases [of inst sys c s])
  case (created m s' network address)
  with assms show ?thesis
    by (intro disjI2 exI [of _ "\<lparr>ss_socket = m, ss_symlink = join2 (fm_fuseTempDir (cl_fuse c)) inst\<rparr>"])
      (auto simp: created_socket_def lookup_socket_def update_conv')
qed (use assms(1) in \<open>auto simp: created_socket_def split: option.splits\<close>)

lemma conn_step_loops: "conn_step m ntf mnts s t \<Longrightarrow> sv_loops t = sv_loops s"
  by (induction rule: conn_step.induct) auto

lemma accept_step_server_inv: "server_inv m s \<Longrightarrow> accept_step s t \<Longrightarrow> server_inv m t"
  using serve_step_inv [of m s False "[]"] by (simp add: serve_step_def)

lemma conn_step_server_inv: "server_inv m s \<Longrightarrow> conn_step m ntf mnts s t \<Longrightarrow> server_inv m t"
  using serve_step_inv [of m s ntf mnts] by (simp add: serve_step_def)

lemma conns_inv_more:
  assumes "conns_inv ms sv"
  shows "conns_inv (ms @ new) (sv\<lparr>sv_loops := sv_loops sv @ map (\<lambda>_. None) new\<rparr>)"
  using assms by (auto simp: conns_inv_def)

lemma fuse_socket_step_inv:
  assumes "fuse_socket_step (wd_sys w) conf s t" and "fuse_system_inv w conf os0 s" and "cf_FUSEDir conf \<noteq> []"
  shows "fuse_system_inv w conf os0 t"
proof -
  note inv = fuse_system_invD [OF assms(2)]
  note step = fuse_socket_step_run [OF assms(1) inv(2)]
  have run: "run_inv conf (fw_run t)" using step inv(1) run_inv_other by auto
  obtain f where f: "fw_proc s = Some f" using assms(1) by (auto elim: fuse_socket_step.cases)
  note client = fuse_system_client [OF inv(2) f assms(3)]
  have old: "loops_ok (registry f) (fw_sockets s) (fw_keepers s)"
    "keepers_ok (length (fw_sockets s)) (fm_leaving (cl_fuse (fp_client f))) (sv_loops (fw_server s)) (fw_keepers s)"
    "mounting_ok (rn_senders (fw_run s) FromServe) (fm_serving (cl_fuse (fp_client f)))"
    "ck_started (rn_check (fw_run s)) \<longrightarrow> fp_mounted f \<or> fp_close f \<noteq> FuseOpen"
    using inv(2) f by (simp_all add: fuse_client_ok_def)
  have len: "length (sv_loops (fw_server s)) = length (fw_sockets s)" "length (fw_keepers s) = length (fw_sockets s)"
    using inv(4) old(2) by (simp_all add: conns_inv_def keepers_ok_def)
  obtain g where g: "fw_proc t = Some g" "g = f \<or> fuse_proc_step (wd_sys w) (wd_fuse w) conf f g"
    using fuse_socket_step_proc [OF assms(1) f old(1,2) inv(4)] by blast
  have same: "rn_start (fw_run t) = rn_start (fw_run s)" "fp_close g = fp_close f"
    "ck_started (rn_check (fw_run t)) \<longrightarrow> fp_mounted g \<or> fp_close g \<noteq> FuseOpen"
    using assms(1) f g(1) old(4) by (auto elim!: fuse_socket_step.cases simp: send_def split: if_splits)
  have rest: "mounting_ok (rn_senders (fw_run t) FromServe) (fm_serving (cl_fuse (fp_client g)))
      \<and> loops_ok (registry g) (fw_sockets t) (fw_keepers t)
      \<and> keepers_ok (length (fw_sockets t)) (fm_leaving (cl_fuse (fp_client g))) (sv_loops (fw_server t)) (fw_keepers t)
      \<and> server_inv (cf_MaxConnections conf) (fw_server t) \<and> conns_inv (fw_sockets t) (fw_server t)
      \<and> (\<forall>m \<in> set (fw_sockets t). lookup_socket conf m)"
    using assms(1)
  proof (cases rule: fuse_socket_step.cases)
    case (lookup f' inst r c s1 new)
    with f g(1) have l: "Lookup (wd_sys w) inst (fp_client f) (fp_os f) = (r, c, s1)" "g = f\<lparr>fp_client := c, fp_os := s1\<rparr>"
      "new = created_socket (fp_client f) c inst" by auto
    have "server_inv (cf_MaxConnections conf) (fw_server t)" using lookup inv(3) by (simp add: server_inv_def)
    moreover have "conns_inv (fw_sockets t) (fw_server t)" using lookup conns_inv_more [OF inv(4)] by simp
    moreover have "mounting_ok (rn_senders (fw_run t) FromServe) (fm_serving (cl_fuse (fp_client g)))"
      using lookup(1) l(2) old(3) Lookup_serving [OF l(1)] by simp
    moreover have "fm_leaving (cl_fuse c) = fm_leaving (cl_fuse (fp_client f))"
      using l(1) by (auto simp: Lookup_def Let_def split: if_splits option.splits outcome.splits prod.splits)
    then have "keepers_ok (length (fw_sockets t)) (fm_leaving (cl_fuse (fp_client g))) (sv_loops (fw_server t)) (fw_keepers t)"
      using lookup(1) l(2) keepers_ok_new [OF old(2) len(1), of new] by simp
    moreover have "loops_ok (registry g) (fw_sockets t) (fw_keepers t) \<and> (\<forall>m \<in> set (fw_sockets t). lookup_socket conf m)"
      using lookup_registers [OF l(1) client(2,3)]
    proof (elim disjE exE conjE)
      fix ss assume "map_of (registry f) (sm_inst (ss_socket ss)) = None" "created_socket (fp_client f) c inst = [ss_socket ss]"
        "fm_fuseSockets (cl_fuse c) = AList.update (sm_inst (ss_socket ss)) ss (registry f)" "lookup_socket conf (ss_socket ss)"
      then show ?thesis using loops_ok_new [OF old(1) len(2), of ss] lookup(1) l(2,3) inv(5) by simp
    qed (use lookup(1) l(2,3) inv(5) old(1) in simp)
    ultimately show ?thesis by blast
  next
    case (accepted f' sv)
    with f g(1) old inv accept_step_conns_inv accept_step_server_inv show ?thesis by auto
  next
    case (ended f' i e)
    with f g(1) have g': "g = f" by simp
    have "keepers_ok (length (fw_sockets t)) (fm_leaving (cl_fuse (fp_client g))) (sv_loops (fw_server t)) (fw_keepers t)"
      using keepers_ok_ended [OF old(2) ended(6) len(1)] ended(1) g' by simp
    then show ?thesis using ended(1) g' old(1,3) inv(3-5) by (simp add: server_inv_def conns_inv_def)
  next
    case (taken_out f' i e)
    with f g(1) have g': "g = f\<lparr>fp_client := remove_socket (sm_inst (fw_sockets s ! i)) e (fp_client f)\<rparr>" by auto
    have "mounting_ok (rn_senders (fw_run t) FromServe) (fm_serving (cl_fuse (fp_client g)))"
      using taken_out f old(3) g' by (auto simp: remove_socket_def send_def mounting_ok_def split: sender.splits)
    moreover have "loops_ok (registry g) (fw_sockets t) (fw_keepers t)"
      using loops_ok_removed [OF old(1) len(2) _ taken_out(5)] taken_out(1,3) len g' by simp
    moreover have "keepers_ok (length (fw_sockets t)) (fm_leaving (cl_fuse (fp_client g))) (sv_loops (fw_server t)) (fw_keepers t)"
      using keepers_ok_removed [OF old(2) _ taken_out(5,4)] taken_out(1,3) len g' by simp
    ultimately show ?thesis using taken_out(1) inv(3-5) by simp
  next
    case (left_group f' i)
    with f g(1) have g': "g = f\<lparr>fp_client := fuseWg_Done (fp_client f)\<rparr>" by auto
    have "keepers_ok (length (fw_sockets t)) (fm_leaving (cl_fuse (fp_client g))) (sv_loops (fw_server t)) (fw_keepers t)"
      using keepers_ok_gone [OF old(2) _ left_group(4)] left_group(1,3) len g' by simp
    moreover have "loops_ok (registry g) (fw_sockets t) (fw_keepers t)"
      using loops_ok_gone [OF old(1), of i] left_group(1,4) g' by simp
    ultimately show ?thesis using left_group(1) old(3) g' inv(3-5) by simp
  next
    case (conn f' sv)
    with f g(1) old inv conn_step_conns_inv conn_step_server_inv conn_step_loops show ?thesis by auto
  qed
  then have "fuse_client_ok w conf os0 t"
    using fuse_client_ok_proc [OF inv(2) f g step same(1,2) _ _ _ same(3)] by blast
  with rest run show ?thesis by (simp add: fuse_system_inv_def)
qed

lemma close_phase_step:
  assumes "fuse_closing_step sys conf s t" and "fw_proc s = Some f" and "fw_proc t = Some g" and "run_inv conf (fw_run s)"
  shows "close_ok (close_phase_of (fp_close g)) (fw_run t)" "fp_close g \<noteq> FuseOpen"
proof -
  show moved: "fp_close g \<noteq> FuseOpen"
    using assms(1-3) by (auto elim!: fuse_closing_step.cases fuse_close_step.cases)
  show "close_ok (close_phase_of (fp_close g)) (fw_run t)"
    using assms(1)
  proof (cases rule: fuse_closing_step.cases)
    case (close_moved f' g')
    with assms(3) moved show ?thesis by (cases "fp_close g") auto
  next
    case (close_returned e ds f' mErr closeErr r)
    have "DoClose \<notin> set (rn_done (fw_run s))" using due_not_done [OF assms(4) close_returned(3)] .
    then have "rn_closes (fw_run s) = []"
      using run_invD(5) [OF assms(4)] close_returned(2) by (auto simp: result_ok_def)
    with close_returned assms(3) show ?thesis by auto
  qed
qed

lemma fuse_closing_step_inv:
  assumes "fuse_closing_step (wd_sys w) conf s t" and "fuse_system_inv w conf os0 s"
  shows "fuse_system_inv w conf os0 t"
proof -
  note inv = fuse_system_invD [OF assms(2)]
  have run: "run_inv conf (fw_run t)" using fuse_closing_step_run [OF assms(1)] inv(1) run_inv_main by auto
  obtain f where f: "fw_proc s = Some f" using assms(1) by (auto elim: fuse_closing_step.cases)
  obtain g where g: "fw_proc t = Some g" "fuse_close_step (wd_sys w) conf f g"
    using fuse_closing_step_proc [OF assms(1) f] by blast
  have same: "rn_start (fw_run t) = rn_start (fw_run s)" "rn_senders (fw_run t) = rn_senders (fw_run s)"
    "fw_server t = fw_server s" "fw_sockets t = fw_sockets s" "fw_keepers t = fw_keepers s"
    using assms(1) by (auto elim!: fuse_closing_step.cases)
  have client: "fp_client g = fp_client f" using g(2) by (auto elim: fuse_close_step.cases)
  obtain c warm s1 where c: "NewClient (wd_cred w) (wd_newDialer w) (wd_sys w) (wd_fuse w) (wd_given w) (wd_notify w) conf os0 = (Ok c, warm, s1)"
    "(fuse_proc_step (wd_sys w) (wd_fuse w) conf)\<^sup>*\<^sup>* (init_fuse_proc c s1) f"
    using inv(2) f by (auto simp: fuse_client_ok_def)
  have "(fuse_proc_step (wd_sys w) (wd_fuse w) conf)\<^sup>*\<^sup>* (init_fuse_proc c s1) g"
    using c(2) closing [OF g(2)] by (rule rtranclp.rtrancl_into_rtrancl)
  with inv(2) f g(1) c(1) same client close_phase_step [OF assms(1) f g(1) inv(1)]
  have "fuse_client_ok w conf os0 t" by (auto simp: fuse_client_ok_def)
  with run inv same show ?thesis by (simp add: fuse_system_inv_def)
qed

lemma fuse_system_step_inv:
  assumes "cf_FUSEDir conf \<noteq> []" and "fuse_system_inv w conf os0 s" and "fuse_system_step w conf s t"
  shows "fuse_system_inv w conf os0 t"
  using assms(3)
  by (cases rule: fuse_system_step_cases)
    (use assms(1,2) fuse_start_step_inv fuse_serve_step_inv fuse_socket_step_inv fuse_closing_step_inv in blast)+

interpretation fuse_sys: simulation "fuse_system_step w conf" "\<lambda>s. cf_FUSEDir conf \<noteq> [] \<and> fuse_system_inv w conf os0 s"
  "env_step conf" fw_run for w conf os0
proof
  show "cf_FUSEDir conf \<noteq> [] \<and> fuse_system_inv w conf os0 t"
    if "cf_FUSEDir conf \<noteq> [] \<and> fuse_system_inv w conf os0 s" "fuse_system_step w conf s t" for s t
    using that fuse_system_step_inv by blast
  show "(env_step conf)\<^sup>*\<^sup>* (fw_run s) (fw_run t)"
    if "cf_FUSEDir conf \<noteq> [] \<and> fuse_system_inv w conf os0 s" "fuse_system_step w conf s t" for s t
    using fuse_system_step_run [OF that(2)] fuse_system_invD(2) that(1) by (metis r_into_rtranclp rtranclp.rtrancl_refl)
qed

lemma fuse_system_reachable:
  assumes "(fuse_system_step w conf)\<^sup>*\<^sup>* (init_fuse_system os0) s" and "cf_FUSEDir conf \<noteq> []"
  shows "fuse_system_inv w conf os0 s"
  using fuse_sys.inv_steps [OF assms(1)] fuse_system_inv_init assms(2) by blast

lemma fuse_system_runs:
  assumes "(fuse_system_step w conf)\<^sup>*\<^sup>* (init_fuse_system os0) s" and "cf_FUSEDir conf \<noteq> []"
  shows "(env_step conf)\<^sup>*\<^sup>* init_run (fw_run s)"
proof -
  have "cf_FUSEDir conf \<noteq> [] \<and> fuse_system_inv w conf os0 (init_fuse_system os0)" using assms(2) fuse_system_inv_init by blast
  from fuse_sys.abs_steps [OF assms(1) this] show ?thesis by (simp add: init_fuse_system_def)
qed

text \<open>The accept loops and connections are those of the server whose mounts are the sockets created so far.\<close>

definition server_runs :: "'t world \<Rightarrow> Config \<Rightarrow> fuse_system \<Rightarrow> bool" where
  "server_runs w conf s \<longleftrightarrow>
     (serve_step (cf_MaxConnections conf) (wd_notify w) (fw_sockets s))\<^sup>*\<^sup>* (init_server (fw_sockets s)) (fw_server s)"

lemma fuse_server_runs:
  assumes "fuse_system_step w conf s t" and "fuse_system_inv w conf os0 s" and "cf_FUSEDir conf \<noteq> []" and "server_runs w conf s"
  shows "server_runs w conf t"
  using assms(1)
proof (cases rule: fuse_system_step_cases)
  case start
  then have "fw_sockets t = fw_sockets s \<and> fw_server t = fw_server s" by (auto elim: fuse_start_step.cases)
  with assms(4) show ?thesis by (simp add: server_runs_def)
next
  case serve
  then have "fw_sockets t = fw_sockets s \<and> fw_server t = fw_server s" by (auto elim: fuse_serve_step.cases)
  with assms(4) show ?thesis by (simp add: server_runs_def)
next
  case closing
  then have "fw_sockets t = fw_sockets s \<and> fw_server t = fw_server s" by (auto elim: fuse_closing_step.cases)
  with assms(4) show ?thesis by (simp add: server_runs_def)
next
  case socket
  then show ?thesis
  proof (cases rule: fuse_socket_step.cases)
    case (lookup f inst r c s1 new)
    with assms(4) serve_steps_more [of "cf_MaxConnections conf" "wd_notify w" "fw_sockets s" "fw_server s" new] show ?thesis
      by (simp add: server_runs_def)
  next
    case (accepted f sv)
    with assms(4) show ?thesis by (auto simp: server_runs_def intro: server_extend)
  next
    case (ended f i e)
    with assms(4) accept_fail [of i "fw_server s" e] show ?thesis by (auto simp: server_runs_def intro: server_extend)
  next
    case (conn f sv)
    then have "cl_connRefuseNotify (fp_client f) = wd_notify w"
      using fuse_system_client(4) [OF fuse_system_invD(2) [OF assms(2)] conn(2) assms(3)] by simp
    with conn assms(4) show ?thesis by (auto simp: server_runs_def intro: server_extend)
  qed (use assms(4) in \<open>simp_all add: server_runs_def\<close>)
qed

lemma fuse_server_reachable:
  assumes "(fuse_system_step w conf)\<^sup>*\<^sup>* (init_fuse_system os0) s" and "cf_FUSEDir conf \<noteq> []"
  shows "server_runs w conf s"
  using assms(1)
proof (induction rule: rtranclp_induct)
  case base
  then show ?case by (simp add: server_runs_def init_fuse_system_def)
next
  case (step s t)
  then show ?case using fuse_server_runs [OF step.hyps(2) fuse_system_reachable [OF step.hyps(1) assms(2)] assms(2)] by blast
qed

end
