(* ===== verification/Fuse_Runs.thy ===== *)
theory Fuse_Runs
  imports Fuse_System_Safety
begin

text \<open>
  Runs of the process with FUSE (\<open>Fuse_System\<close>), and its properties: what it refines, the limit, what
  readiness means, and what a \<open>Close\<close> without error leaves behind, in time and too early.
\<close>

section \<open>Runs\<close>

text \<open>Steps of the wrapper outside \<open>Close\<close> and outside the goroutines of the client.\<close>

lemma outer_fuse: "outer_step conf (fw_run s) r \<Longrightarrow> fuse_system_step w conf s (s\<lparr>fw_run := r\<rparr>)"
  using wrapper [of conf s r w] beside [of conf s r w] by (auto simp: outer_step_def fuse_system_step_def)

lemma outer_steps_fuse: "(outer_step conf)\<^sup>*\<^sup>* r r' \<Longrightarrow> r = fw_run s \<Longrightarrow> (fuse_system_step w conf)\<^sup>*\<^sup>* s (s\<lparr>fw_run := r'\<rparr>)"
proof (induction rule: rtranclp_induct)
  case (step r1 r2)
  then have "fuse_system_step w conf (s\<lparr>fw_run := r1\<rparr>) (s\<lparr>fw_run := r2\<rparr>)"
    using outer_fuse [of conf "s\<lparr>fw_run := r1\<rparr>" r2 w] by simp
  with step.IH [OF step.prems] show ?case by (rule rtranclp.rtrancl_into_rtrancl)
qed simp

text \<open>The process when its servers have been spawned and \<open>Serve\<close> has not mounted the directory.\<close>

definition fuse_up :: "Config \<Rightarrow> Client \<Rightarrow> os \<Rightarrow> fuse_system" where
  "fuse_up conf c s1 = \<lparr>fw_run = up_run conf ServersUp False, fw_os = s1, fw_new = NewDone (Ok c), fw_proc = Some (init_fuse_proc c s1),
     fw_server = init_server [], fw_sockets = [], fw_keepers = []\<rparr>"

lemma fuse_start_moves:
  assumes "rn_senders (fw_run s) FromStart = Idle" and "rn_start (fw_run s) = Launching" and "new_rest w conf (fw_new s) (fw_os s) = (r, s1)"
    and "r \<noteq> Panic"
  shows "(fuse_system_step w conf)\<^sup>*\<^sup>* s (s\<lparr>fw_new := NewDone r, fw_os := s1\<rparr>)"
  using assms
proof (induction "new_left conf (fw_new s)" arbitrary: s rule: less_induct)
  case less
  show ?case
  proof (cases "new_left conf (fw_new s) = 0")
    case True
    then obtain r' where "fw_new s = NewDone r'" using less.prems(3,4) by (cases "fw_new s") auto
    with less.prems(3) have "s\<lparr>fw_new := NewDone r, fw_os := s1\<rparr> = s" by simp
    then show ?thesis by simp
  next
    case False
    obtain ph s2 where n: "new_next w conf (fw_new s) (fw_os s) = (ph, s2)" by (cases "new_next w conf (fw_new s) (fw_os s)")
    let ?t = "s\<lparr>fw_new := ph, fw_os := s2\<rparr>"
    have "fw_new s \<noteq> NewDone x" for x using False by auto
    then have "fuse_system_step w conf s ?t" using configuring [OF less.prems(1,2) _ n] by (simp add: fuse_system_step_def)
    moreover have "(fuse_system_step w conf)\<^sup>*\<^sup>* ?t (?t\<lparr>fw_new := NewDone r, fw_os := s1\<rparr>)"
      using less.hyps [of ?t] new_left_next [OF n False] NewClient_next_rest [OF n] less.prems by simp
    ultimately show ?thesis by (simp add: converse_rtranclp_into_rtranclp)
  qed
qed

lemma fuse_up_reached:
  assumes "\<not> telemetryOn conf"
    and "NewClient (wd_cred w) (wd_newDialer w) (wd_sys w) (wd_fuse w) (wd_given w) (wd_notify w) conf os0 = (Ok c, warm, s1)"
  shows "(fuse_system_step w conf)\<^sup>*\<^sup>* (init_fuse_system os0) (fuse_up conf c s1)"
proof -
  let ?st = "fuse_system_step w conf" and ?i = "init_fuse_system os0"
  let ?a = "?i\<lparr>fw_run := spawnStart init_run\<rparr>"
  let ?r = "(spawnStart init_run)\<lparr>rn_start := StartReady\<rparr>"
  let ?a' = "?a\<lparr>fw_new := NewDone (Ok c), fw_os := s1\<rparr>"
  let ?b = "?a'\<lparr>fw_run := ?r, fw_proc := Some (init_fuse_proc c s1)\<rparr>"
  let ?q = "?r\<lparr>rn_main := Setup, rn_start := StartDone, rn_client := True, rn_defers := DoClose # rn_defers ?r,
       rn_sdNotify := rn_sdNotify ?r @ [''READY=1'']\<rparr>"
  have "?st ?i ?a"
    using outer_fuse [OF outer_main, of conf ?i "spawnStart init_run" w] telemetry_off [of init_run conf] assms(1)
    by (simp add: init_fuse_system_def init_run_def in_close_def)
  moreover have "?st\<^sup>*\<^sup>* ?a ?a'"
    using fuse_start_moves [of ?a w conf "Ok c" s1] assms(2) by (simp add: init_fuse_system_def run_simps)
  moreover have "?st ?a' ?b"
    using configured [of ?a' c w conf] by (simp add: fuse_system_step_def init_fuse_system_def run_simps)
  moreover have "?st ?b (?b\<lparr>fw_run := ?q\<rparr>)"
    using outer_fuse [OF outer_main, of conf ?b ?q w] started [of ?r conf] by (simp add: in_close_def spawnStart_def)
  moreover have "?st (?b\<lparr>fw_run := ?q\<rparr>) (?b\<lparr>fw_run := up_run conf ServersUp False\<rparr>)"
    using outer_fuse [OF outer_main, of conf "?b\<lparr>fw_run := ?q\<rparr>" "up_run conf ServersUp False" w] servers_up [of ?q conf]
    by (simp add: in_close_def run_simps up_run_def)
  moreover have "?b\<lparr>fw_run := up_run conf ServersUp False\<rparr> = fuse_up conf c s1" by (simp add: fuse_up_def init_fuse_system_def)
  ultimately show ?thesis by (metis (no_types, lifting) converse_rtranclp_into_rtranclp rtranclp.rtrancl_refl rtranclp_trans)
qed

text \<open>\<open>Serve\<close> mounts the directory, up to its \<open>select\<close>.\<close>

lemma notify_started_runs:
  assumes "check_inv k"
  shows "\<exists>ck. NotifyStarted k = Ok ck \<and> check_inv ck \<and> (ck_stopped ck \<longleftrightarrow> ck_stopped k) \<and> ck_started ck"
  by (rule exI [of _ "k\<lparr>ck_startedOnce := True, ck_started := True\<rparr>"])
    (use assms in \<open>cases k; auto simp: NotifyStarted_def check_inv_def close_chan_def\<close>)

lemma fuse_mounts:
  assumes "rn_senders (fw_run s) FromServe = Idle" and "fw_proc s = Some f" and "fm_serving (cl_fuse (fp_client f)) = NotServing"
    and "serveFuse (wd_fuse w) (fp_client f) = (None, cm)" and "check_inv (rn_check (fw_run s))"
  shows "\<exists>ck. (fuse_system_step w conf)\<^sup>*\<^sup>* s
      (s\<lparr>fw_run := (fw_run s)\<lparr>rn_check := ck\<rparr>, fw_proc := Some (f\<lparr>fp_client := cm, fp_mounted := True\<rparr>)\<rparr>)
    \<and> check_inv ck \<and> (ck_stopped ck \<longleftrightarrow> ck_stopped (rn_check (fw_run s))) \<and> (cf_HealthCheck conf \<longrightarrow> ck_started ck)"
proof -
  let ?c1 = "set_serving Mounted (fp_client f)"
  let ?g = "\<lambda>c. f\<lparr>fp_client := c, fp_mounted := True\<rparr>"
  let ?s = "\<lambda>c. s\<lparr>fw_proc := Some (?g c)\<rparr>"
  have e: "mount_error (wd_fuse w) (fp_client f) = None"
    "cm = set_serving Waiting (set_serving Notified (record_server ?c1))"
    using assms(4) by (auto simp: serveFuse_def split: option.splits)
  obtain ck0 where ck0: "NotifyStarted (rn_check (fw_run s)) = Ok ck0" "check_inv ck0" "ck_stopped ck0 \<longleftrightarrow> ck_stopped (rn_check (fw_run s))"
    "ck_started ck0"
    using notify_started_runs [OF assms(5)] by blast
  define ck where "ck = (if cf_HealthCheck conf then ck0 else rn_check (fw_run s))"
  have "fuse_system_step w conf s (?s ?c1)"
    using mount_ok [OF assms(1-3) e(1), of conf] by (simp add: fuse_system_step_def)
  moreover have "fuse_system_step w conf (?s ?c1) (?s (record_server ?c1))"
    using recorded [of "?s ?c1" "?g ?c1" "wd_fuse w" conf] by (cases f) (simp add: fuse_system_step_def set_serving_def)
  moreover have "fuse_system_step w conf (?s (record_server ?c1))
      (s\<lparr>fw_run := (fw_run s)\<lparr>rn_check := ck\<rparr>, fw_proc := Some (?g (set_serving Notified (record_server ?c1)))\<rparr>)"
    using notifying [of "?s (record_server ?c1)" "?g (record_server ?c1)" conf ck "wd_fuse w"] ck0(1)
    by (cases f) (simp add: fuse_system_step_def ck_def record_server_def)
  moreover have "fuse_system_step w conf (s\<lparr>fw_run := (fw_run s)\<lparr>rn_check := ck\<rparr>, fw_proc := Some (?g (set_serving Notified (record_server ?c1)))\<rparr>)
      (s\<lparr>fw_run := (fw_run s)\<lparr>rn_check := ck\<rparr>, fw_proc := Some (?g cm)\<rparr>)"
    using at_select [of "s\<lparr>fw_run := (fw_run s)\<lparr>rn_check := ck\<rparr>, fw_proc := Some (?g (set_serving Notified (record_server ?c1)))\<rparr>"
        "?g (set_serving Notified (record_server ?c1))" "wd_fuse w" conf] e(2)
    by (cases f) (simp add: fuse_system_step_def)
  ultimately have "(fuse_system_step w conf)\<^sup>*\<^sup>* s (s\<lparr>fw_run := (fw_run s)\<lparr>rn_check := ck\<rparr>, fw_proc := Some (?g cm)\<rparr>)"
    by (meson converse_rtranclp_into_rtranclp rtranclp.rtrancl_refl)
  with ck0 assms(5) show ?thesis by (intro exI [of _ ck]) (simp add: ck_def)
qed

text \<open>\<open>Close\<close> with no socket, nothing to unmount or an unmount that succeeds, and the counter at zero.\<close>

lemma fuse_closes:
  assumes "rn_main (fw_run s) = Returning e" and "rn_defers (fw_run s) = DoClose # ds" and "fw_proc s = Some f"
    and "fp_close f = FuseOpen" and "registry f = []" and "fm_fuseWg (cl_fuse (fp_client f)) = 0" and "sv_connCount (fw_server s) = 0"
  shows "\<exists>u q. (fuse_system_step w conf)\<^sup>*\<^sup>* s u \<and> fw_server u = fw_server s
    \<and> fuse_closing_step (wd_sys w) conf u (s\<lparr>fw_run := q, fw_proc :=
         Some (f\<lparr>fp_mounted := fp_mounted f \<and> \<not> fm_fuseServer (cl_fuse (fp_client f)), fp_close := FuseReturned None\<rparr>)\<rparr>)
    \<and> rn_main q = Returning e \<and> rn_defers q = ds \<and> rn_start q = rn_start (fw_run s) \<and> rn_client q = rn_client (fw_run s)
    \<and> rn_senders q = rn_senders (fw_run s) \<and> rn_check q = rn_check (fw_run s)"
proof -
  let ?m = "fp_mounted f \<and> \<not> fm_fuseServer (cl_fuse (fp_client f))"
  let ?f = "\<lambda>ph. f\<lparr>fp_mounted := ?m, fp_close := ph\<rparr>"
  let ?r = "(fw_run s)\<lparr>rn_defers := ds, rn_done := rn_done (fw_run s) @ [DoClose]\<rparr>"
  let ?q = "?r\<lparr>rn_main := Returning e, rn_closes := rn_closes ?r @ [None]\<rparr>"
  have ic: "in_close (fw_run s)" using assms(1,2) by (simp add: in_close_def)
  have move: "fuse_system_step w conf (s\<lparr>fw_proc := Some g\<rparr>) (s\<lparr>fw_proc := Some h\<rparr>)"
    if "fuse_close_step (wd_sys w) conf g h" "\<And>x. fp_close h \<noteq> FuseReturned x" for g h
    using close_moved [of "s\<lparr>fw_proc := Some g\<rparr>" g "wd_sys w" conf h] that ic by (simp add: fuse_system_step_def)
  have "fuse_close_step (wd_sys w) conf f (?f (FuseUnmounted []))"
    using unmounted [OF assms(4), where fe = "wd_fuse w" and uErr = None and err = None and sys = "wd_sys w" and conf = conf]
    by (cases f; cases "fm_fuseServer (cl_fuse (fp_client f))") (simp_all add: unmountFUSE_def opt_list_def)
  then have "fuse_system_step w conf s (s\<lparr>fw_proc := Some (?f (FuseUnmounted []))\<rparr>)"
    using move [of f "?f (FuseUnmounted [])"] assms(3) by (cases s) simp
  moreover have "fuse_close_step (wd_sys w) conf (?f (FuseUnmounted [])) (?f (FuseWaiting [] []))"
    using snapshot [of "?f (FuseUnmounted [])" "[]" id "wd_sys w" conf None] assms(5) by (simp add: opt_list_def fuseMounts_def)
  then have "fuse_system_step w conf (s\<lparr>fw_proc := Some (?f (FuseUnmounted []))\<rparr>) (s\<lparr>fw_proc := Some (?f (FuseWaiting [] []))\<rparr>)"
    by (rule move) simp
  moreover have "fuse_close_step (wd_sys w) conf (?f (FuseWaiting [] [])) (?f (FuseListeners [] []))"
    using waited [of "?f (FuseWaiting [] [])" "[]" "[]" "wd_sys w" conf] by simp
  then have "fuse_system_step w conf (s\<lparr>fw_proc := Some (?f (FuseWaiting [] []))\<rparr>) (s\<lparr>fw_proc := Some (?f (FuseListeners [] []))\<rparr>)"
    by (rule move) simp
  moreover have "fuse_close_step (wd_sys w) conf (?f (FuseListeners [] [])) (?f (FuseDrained []))"
    using drained [of "?f (FuseListeners [] [])" "[]" "wd_sys w" conf] assms(6) by (simp add: waitForFUSEMounts_def)
  then have "fuse_system_step w conf (s\<lparr>fw_proc := Some (?f (FuseListeners [] []))\<rparr>) (s\<lparr>fw_proc := Some (?f (FuseDrained []))\<rparr>)"
    by (rule move) simp
  ultimately have "(fuse_system_step w conf)\<^sup>*\<^sup>* s (s\<lparr>fw_proc := Some (?f (FuseDrained []))\<rparr>)"
    by (meson converse_rtranclp_into_rtranclp rtranclp.rtrancl_refl)
  moreover have "fuse_closing_step (wd_sys w) conf (s\<lparr>fw_proc := Some (?f (FuseDrained []))\<rparr>)
      (s\<lparr>fw_run := ?q, fw_proc := Some (?f (FuseReturned None))\<rparr>)"
    using close_returned [of "s\<lparr>fw_proc := Some (?f (FuseDrained []))\<rparr>" e ds "?f (FuseDrained [])" "[]" None conf ?q "wd_sys w"]
      assms(1,2,6,7)
    by (simp add: closeErrors_def nonempty_def opt_list_def)
  ultimately show ?thesis
    by (intro exI [of _ "s\<lparr>fw_proc := Some (?f (FuseDrained []))\<rparr>"] exI [of _ ?q]) simp
qed

text \<open>A SIGINT after the directory was mounted, up to the end of \<open>Close\<close>.\<close>

definition fuse_sample :: Config where
  "fuse_sample = fuse_conf\<lparr>cf_HealthCheck := True, cf_WaitOnClose := 5, cf_MaxConnections := 1\<rparr>"

abbreviation fuse_sample_os :: os where
  "fuse_sample_os \<equiv> init_os [''/tmp'', ''/f'']"

lemma fuse_sample_simps [simp]:
  "cf_HealthCheck fuse_sample" "cf_WaitOnClose fuse_sample = 5" "cf_FUSEDir fuse_sample = ''/f''" "\<not> telemetryOn fuse_sample"
  "cf_FUSETempDir fuse_sample = ''/tmp''" "cf_MaxConnections fuse_sample = 1"
  by (simp_all add: fuse_sample_def fuse_conf_def zero_Config_def telemetryOn_def)

lemma fuse_sample_client:
  "NewClient (wd_cred sample_world) (wd_newDialer sample_world) (wd_sys sample_world) (wd_fuse sample_world) (wd_given sample_world)
     (wd_notify sample_world) fuse_sample (init_os [''/f'']) = (Ok (fuse_client fuse_sample), [], fuse_sample_os)"
  by (simp add: NewClient_def initDialer_def sample_world_def configureFUSE_def plain_sys_def init_os_def no_fuse_def fuse_client_def Let_def)

definition fuse_mounted :: "Config \<Rightarrow> Client \<Rightarrow> Client \<Rightarrow> os \<Rightarrow> Check \<Rightarrow> fuse_system" where
  "fuse_mounted conf c cm s1 ck = (fuse_up conf c s1)\<lparr>fw_run := (up_run conf ServersUp False)\<lparr>rn_check := ck\<rparr>,
     fw_proc := Some \<lparr>fp_client = cm, fp_os = s1, fp_mounted = True, fp_close = FuseOpen\<rparr>\<rparr>"

lemma fuse_mounted_reached:
  assumes "\<not> telemetryOn conf" and "cf_FUSEDir conf \<noteq> []" and "serveFuse (wd_fuse w) c = (None, cm)"
    and "NewClient (wd_cred w) (wd_newDialer w) (wd_sys w) (wd_fuse w) (wd_given w) (wd_notify w) conf os0 = (Ok c, warm, s1)"
  shows "\<exists>ck. (fuse_system_step w conf)\<^sup>*\<^sup>* (init_fuse_system os0) (fuse_mounted conf c cm s1 ck)
    \<and> \<not> ck_stopped ck \<and> (cf_HealthCheck conf \<longrightarrow> ck_started ck)"
proof -
  note up = fuse_up_reached [OF assms(1,4)]
  let ?s = "fuse_up conf c s1" and ?f = "init_fuse_proc c s1"
  have p: "rn_senders (fw_run ?s) FromServe = Idle" "fw_proc ?s = Some ?f" "fp_client ?f = c" "rn_check (fw_run ?s) = NewCheck"
    "fm_serving (cl_fuse c) = NotServing"
    using NewClient_fuse(1) [OF assms(4,2)]
    by (simp_all add: fuse_up_def init_fuse_proc_def up_run_def run_simps)
  have m: "fuse_mounted conf c cm s1 ck = ?s\<lparr>fw_run := (fw_run ?s)\<lparr>rn_check := ck\<rparr>, fw_proc := Some (?f\<lparr>fp_client := cm, fp_mounted := True\<rparr>)\<rparr>" for ck
    by (simp add: fuse_mounted_def init_fuse_proc_def fuse_up_def)
  have "\<exists>ck. (fuse_system_step w conf)\<^sup>*\<^sup>* (fuse_up conf c s1) (fuse_mounted conf c cm s1 ck)
      \<and> \<not> ck_stopped ck \<and> (cf_HealthCheck conf \<longrightarrow> ck_started ck)"
    unfolding m using fuse_mounts [OF p(1,2), of w cm conf, unfolded p(3,4)] p(5) assms(3) by (auto simp: NewCheck_def check_inv_def)
  with up show ?thesis by (meson rtranclp_trans)
qed

abbreviation sample_mounted :: "Client \<Rightarrow> Check \<Rightarrow> fuse_system" where
  "sample_mounted cm ck \<equiv> fuse_mounted fuse_sample (fuse_client fuse_sample) cm fuse_sample_os ck"

text \<open>A serving process without sockets that takes a SIGINT and closes.\<close>

lemma fuse_interrupted:
  assumes "(fuse_system_step w conf)\<^sup>*\<^sup>* (init_fuse_system os0) s" and "cf_FUSEDir conf \<noteq> []"
    and "rn_main (fw_run s) = ServersUp" and "rn_senders (fw_run s) FromSignal = Idle" and "rn_defers (fw_run s) = DoStopped # DoClose # ds"
    and "fw_proc s = Some f" and "fp_close f = FuseOpen" and "registry f = []" and "sv_connCount (fw_server s) = 0"
    and "fm_leaving (cl_fuse (fp_client f)) = 0"
  shows "\<exists>u q. (fuse_system_step w conf)\<^sup>*\<^sup>* (init_fuse_system os0) u \<and> fw_server u = fw_server s
    \<and> fuse_closing_step (wd_sys w) conf u (s\<lparr>fw_run := q, fw_proc :=
         Some (f\<lparr>fp_mounted := fp_mounted f \<and> \<not> fm_fuseServer (cl_fuse (fp_client f)), fp_close := FuseReturned None\<rparr>)\<rparr>)
    \<and> rn_main q = Returning errSigInt \<and> rn_defers q = ds
    \<and> (rn_senders (fw_run s) FromServe = Idle \<longrightarrow> rn_senders q FromServe = Idle) \<and> check_inv (rn_check q)"
proof -
  note inv = fuse_system_reachable [OF assms(1,2)]
  obtain r where r: "(outer_step conf)\<^sup>*\<^sup>* (fw_run s) r" "rn_main r = Returning errSigInt" "rn_defers r = DoClose # ds"
    "rn_senders (fw_run s) FromServe = Idle \<longrightarrow> rn_senders r FromServe = Idle" "check_inv (rn_check r)"
    using outer_begins [OF fuse_system_invD(1) [OF inv] assms(3-5)] by blast
  have "fuse_proc_inv f" using fuse_system_client(1) [OF fuse_system_invD(2) [OF inv] assms(6,2)] .
  then have "fm_fuseWg (cl_fuse (fp_client f)) = 0" using assms(8,10) by (simp add: fuse_proc_inv_def fuse_inv_def)
  with fuse_closes [of "s\<lparr>fw_run := r\<rparr>" errSigInt ds f w conf] r(2,3) assms(6-9)
  obtain u q where "(fuse_system_step w conf)\<^sup>*\<^sup>* (s\<lparr>fw_run := r\<rparr>) u" and c: "fw_server u = fw_server s"
    "fuse_closing_step (wd_sys w) conf u (s\<lparr>fw_run := q, fw_proc :=
         Some (f\<lparr>fp_mounted := fp_mounted f \<and> \<not> fm_fuseServer (cl_fuse (fp_client f)), fp_close := FuseReturned None\<rparr>)\<rparr>)"
    "rn_main q = Returning errSigInt" "rn_defers q = ds" "rn_senders q = rn_senders r" "rn_check q = rn_check r" by auto
  then have "(fuse_system_step w conf)\<^sup>*\<^sup>* (init_fuse_system os0) u"
    using assms(1) outer_steps_fuse [OF r(1) refl, of w] by (meson rtranclp_trans)
  with c r(4,5) show ?thesis by (intro exI [of _ u] exI [of _ q]) simp
qed

lemma fuse_sample_serving:
  obtains cm ck where "(fuse_system_step sample_world fuse_sample)\<^sup>*\<^sup>* (init_fuse_system (init_os [''/f'']))
      (sample_mounted cm ck)" "ck_started ck" "\<not> ck_stopped ck" "cl_conf cm = fuse_sample"
    "fm_fuseSockets (cl_fuse cm) = []" "fm_fuseServer (cl_fuse cm)" "fm_leaving (cl_fuse cm) = 0"
proof -
  obtain cm where cm: "serveFuse (wd_fuse sample_world) (fuse_client fuse_sample) = (None, cm)" "cl_conf cm = fuse_sample"
    "fm_fuseSockets (cl_fuse cm) = []" "fm_fuseServer (cl_fuse cm)" "fm_leaving (cl_fuse cm) = 0"
    by (simp add: serveFuse_def mount_error_def set_serving_def record_server_def sample_world_def no_fuse_def fuse_client_def zero_fuseMount_def)
  from fuse_mounted_reached [OF _ _ cm(1) fuse_sample_client] that cm(2-5) show thesis by auto
qed

text \<open>A connection on the socket that a lookup has created, up to its dial.\<close>

lemma fuse_sample_dialed:
  obtains s opts where "(fuse_system_step sample_world fuse_sample)\<^sup>*\<^sup>* (init_fuse_system (init_os [''/f''])) s"
    "sv_dialed (fw_server s) = [(''p:r:i'', opts)]" "length (sv_conns (fw_server s)) = 1"
proof -
  let ?st = "fuse_system_step sample_world fuse_sample"
  obtain cm ck where s: "?st\<^sup>*\<^sup>* (init_fuse_system (init_os [''/f''])) (sample_mounted cm ck)"
    "cl_conf cm = fuse_sample" "fm_fuseSockets (cl_fuse cm) = []" by (rule fuse_sample_serving)
  let ?p = "\<lambda>c o'. \<lparr>fp_client = c, fp_os = o', fp_mounted = True, fp_close = FuseOpen\<rparr>"
  have f: "fw_proc (sample_mounted cm ck) = Some (?p cm fuse_sample_os)" by (simp add: fuse_mounted_def)
  have "fm_fuseTempDir (cl_fuse cm) = ''/tmp''"
    using fuse_system_client(3) [OF fuse_system_invD(2) [OF fuse_system_reachable [OF s(1)]] f] by simp
  moreover have "join2 ''/tmp'' ''p:r:i'' = ''/tmp/p:r:i''" "is_Ok (parseConnName ''p:r:i'')" by code_simp+
  ultimately have "\<exists>p c' s2. Lookup (wd_sys sample_world) ''p:r:i'' cm fuse_sample_os = (Inode (Symlink p), c', s2)"
    using s(2,3)
    by (auto simp: Lookup_def fuse_sample_def fuse_conf_def zero_Config_def newSocketMount_def sample_world_def
        listenAddress_def networkType_def withUnixSocket_def zero_inst_def sqlDataOn_def plain_sys_def
        init_os_def newUnixSocketMount_def hasPrefix_def net_Listen_def os_Chmod_def UnixAddress_def Let_def)
  then obtain m s2 c' r where l: "Lookup (wd_sys sample_world) ''p:r:i'' cm fuse_sample_os = (r, c', s2)"
    "created_socket cm c' ''p:r:i'' = [m]" "sm_inst m = ''p:r:i''" "sm_listener m \<in> fst ` set (os_listeners s2)"
    using s(3)
    by (cases rule: Lookup_cases [of "''p:r:i''" "wd_sys sample_world" cm fuse_sample_os])
      (auto simp: created_socket_def update_conv' image_Un)
  let ?s = "\<lambda>sv. (sample_mounted cm ck)\<lparr>fw_proc := Some (?p c' s2), fw_sockets := [m], fw_keepers := [Registered],
       fw_server := sv\<rparr>"
  let ?sv = "\<lambda>n ph d. (init_server [m])\<lparr>sv_connCount := n, sv_conns := [(0, ph)], sv_dialed := d\<rparr>"
  have "?st (sample_mounted cm ck) (?s (init_server [m]))"
    using lookup [OF f, of "wd_sys sample_world" "''p:r:i''" r c' s2 "[m]" fuse_sample] l(1,2)
    by (simp add: fuse_system_step_def fuse_mounted_def fuse_up_def init_server_def)
  moreover have "?st (?s (init_server [m])) (?s (?sv 0 Accepted []))"
    using accepted [of "?s (init_server [m])" "?p c' s2" "?sv 0 Accepted []" "wd_sys sample_world" fuse_sample] l(4)
      accept [of 0 "init_server [m]"]
    by (simp add: fuse_system_step_def fuse_mounted_def fuse_up_def init_server_def)
  moreover have step: "?st (?s v) (?s v')" if "conn_step 1 (cl_connRefuseNotify c') [m] v v'" for v v'
    using conn [of "?s v" "?p c' s2" fuse_sample v' "wd_sys sample_world"] that by (simp add: fuse_system_step_def)
  have "?st (?s (?sv 0 Accepted [])) (?s (?sv 1 (Counted 1) []))"
    using step [OF count [of 0 "?sv 0 Accepted []" 0 1]] by (simp add: init_server_def)
  moreover have "?st (?s (?sv 1 (Counted 1) [])) (?s (?sv 1 Dialing [(''p:r:i'', sm_dialOpts m)]))"
    using step [OF dial [of 0 "?sv 1 (Counted 1) []" 0 1]] l(3) by (simp add: init_server_def over_limit_def)
  ultimately have "?st\<^sup>*\<^sup>* (init_fuse_system (init_os [''/f''])) (?s (?sv 1 Dialing [(''p:r:i'', sm_dialOpts m)]))"
    using s(1) by (meson rtranclp.rtrancl_into_rtrancl)
  then show thesis by (rule that) simp_all
qed

section \<open>Properties\<close>

text \<open>
  C9. The process with FUSE is the composition of its components: in every state it reaches, the
  goroutines of the command are in a state their own model allows; the accept loops and
  connections in one that the server's model allows for the sockets that lookups have created,
  with the configured limit; and the client with its directory is what \<open>NewClient\<close> returned, after
  steps of its own model. Once \<open>Close\<close> has returned, its result is what the command got.
\<close>

theorem fuse_system_refines:
  assumes "(fuse_system_step w conf)\<^sup>*\<^sup>* (init_fuse_system os0) s" and "cf_FUSEDir conf \<noteq> []"
  shows "(env_step conf)\<^sup>*\<^sup>* init_run (fw_run s)
    \<and> (serve_step (cf_MaxConnections conf) (wd_notify w) (fw_sockets s))\<^sup>*\<^sup>* (init_server (fw_sockets s)) (fw_server s)
    \<and> (\<forall>f. fw_proc s = Some f \<longrightarrow>
        (\<exists>c warm s1. NewClient (wd_cred w) (wd_newDialer w) (wd_sys w) (wd_fuse w) (wd_given w) (wd_notify w) conf os0 = (Ok c, warm, s1)
           \<and> (fuse_proc_step (wd_sys w) (wd_fuse w) conf)\<^sup>*\<^sup>* (init_fuse_proc c s1) f)
        \<and> (\<forall>x. fp_close f = FuseReturned x \<longrightarrow> rn_closes (fw_run s) = [x]))"
proof -
  have "fuse_client_ok w conf os0 s" using fuse_system_invD(2) [OF fuse_system_reachable [OF assms]] .
  then show ?thesis
    using fuse_system_runs [OF assms] fuse_server_reachable [OF assms] by (auto simp: fuse_client_ok_def server_runs_def)
qed

theorem fuse_system_refines_witness:
  "\<exists>cm ck. (fuse_proc_step (wd_sys sample_world) (wd_fuse sample_world) fuse_sample)\<^sup>*\<^sup>* (init_fuse_proc (fuse_client fuse_sample) fuse_sample_os)
     \<lparr>fp_client = cm, fp_os = fuse_sample_os, fp_mounted = True, fp_close = FuseOpen\<rparr>
     \<and> (env_step fuse_sample)\<^sup>*\<^sup>* init_run (fw_run (sample_mounted cm ck))"
proof -
  obtain cm ck where s: "(fuse_system_step sample_world fuse_sample)\<^sup>*\<^sup>* (init_fuse_system (init_os [''/f'']))
    (sample_mounted cm ck)" by (rule fuse_sample_serving)
  from fuse_system_refines [OF s] fuse_sample_client show ?thesis by (auto simp: fuse_mounted_def)
qed

text \<open>
  C10. With FUSE, one limit holds over all sockets that lookups create: no interleaving of the command,
  \<open>Serve\<close>, lookups, accept loops, connections and \<open>Close\<close> has more than \<open>MaxConnections\<close> connections
  dialed or proxied at once. And every dial was for the instance a valid name of which had been
  looked up, with the global options and, with a temporary directory given, the protocol of Unix sockets.
\<close>

theorem fuse_connection_limit:
  assumes "(fuse_system_step w conf)\<^sup>*\<^sup>* (init_fuse_system os0) s" and "cf_FUSEDir conf \<noteq> []"
    and "0 < cf_MaxConnections conf" and "length (sv_conns (fw_server s)) < 2 ^ 64"
  shows "backend_conns (fw_server s) \<le> unat (cf_MaxConnections conf)
    \<and> (\<forall>inst opts. (inst, opts) \<in> set (sv_dialed (fw_server s)) \<longrightarrow> is_Ok (parseConnName inst)
        \<and> opts = dialOptions (withUnixSocket conf (cf_FUSETempDir conf)) (zero_inst\<lparr>ic_Name := inst\<rparr>)
        \<and> (cf_FUSETempDir conf \<noteq> [] \<longrightarrow> WithMdxClientProtocolType ''uds'' \<in> set opts))"
proof -
  note inv = fuse_system_reachable [OF assms(1,2)]
  have "backend_conns (fw_server s) \<le> unat (cf_MaxConnections conf)"
    using fuse_system_invD(3) [OF inv] assms(3,4) backend_conns_le [of "fw_server s" "cf_MaxConnections conf"]
    by (simp add: server_inv_def)
  moreover have "is_Ok (parseConnName inst) \<and> opts = dialOptions (withUnixSocket conf (cf_FUSETempDir conf)) (zero_inst\<lparr>ic_Name := inst\<rparr>)"
    if d: "(inst, opts) \<in> set (sv_dialed (fw_server s))" for inst opts
  proof -
    obtain m where "m \<in> set (fw_sockets s)" "sm_inst m = inst" "sm_dialOpts m = opts"
      using d fuse_system_invD(4) [OF inv] by (fastforce simp: conns_inv_def)
    with fuse_system_invD(5) [OF inv] show ?thesis by (auto simp: lookup_socket_def)
  qed
  moreover have "WithMdxClientProtocolType ''uds'' \<in> set (dialOptions (withUnixSocket conf (cf_FUSETempDir conf)) (zero_inst\<lparr>ic_Name := inst\<rparr>))"
    if "cf_FUSETempDir conf \<noteq> []" for inst
    using that by (simp add: dialOptions_def networkType_def withUnixSocket_def zero_inst_def)
  ultimately show ?thesis by blast
qed

theorem fuse_connection_limit_witness:
  "\<exists>(s :: fuse_system) opts. sv_dialed (fw_server s) = [(''p:r:i'', opts)] \<and> backend_conns (fw_server s) \<le> 1 \<and> WithMdxClientProtocolType ''uds'' \<in> set opts"
proof -
  obtain s opts where s: "(fuse_system_step sample_world fuse_sample)\<^sup>*\<^sup>* (init_fuse_system (init_os [''/f''])) s"
    "sv_dialed (fw_server s) = [(''p:r:i'', opts)]" "length (sv_conns (fw_server s)) = 1" by (rule fuse_sample_dialed)
  from fuse_connection_limit [OF s(1)] s(2,3) show ?thesis by (intro exI [of _ s] exI [of _ opts]) auto
qed

text \<open>
  C11. Ready means mounted: with FUSE, while \<open>/readiness\<close> answers 200, the directory is mounted, \<open>Serve\<close>
  has called \<open>notify\<close>, \<open>Close\<close> has not been called, and the counter is not at a set limit.
\<close>

theorem fuse_ready_means_mounted:
  assumes "(fuse_system_step w conf)\<^sup>*\<^sup>* (init_fuse_system os0) s" and "cf_FUSEDir conf \<noteq> []" and "cf_HealthCheck conf"
    and "fuse_http_get metrics conf s ''/readiness'' = Some (200, body)"
  shows "\<exists>f. fw_proc s = Some f \<and> fp_mounted f \<and> fp_close f = FuseOpen \<and> ck_started (rn_check (fw_run s)) \<and> rn_closes (fw_run s) = []
    \<and> \<not> (0 < cf_MaxConnections conf \<and> sv_connCount (fw_server s) = cf_MaxConnections conf)"
proof -
  note inv = fuse_system_reachable [OF assms(1,2)]
  obtain f where f: "fw_proc s = Some f" "HandleReadiness (ConnCount (fw_server s) (fp_client f)) (rn_check (fw_run s)) = (200, body)"
    using assms(4) by (auto simp: fuse_http_get_def serveHTTP_readiness [OF assms(3)] split: option.splits if_splits)
  have ready: "rn_done (fw_run s) = []" "hd (rn_defers (fw_run s)) = DoStopped"
    using ready_not_stopped(3,4) [OF fuse_system_invD(1) [OF inv] assms(3), of "ConnCount (fw_server s) (fp_client f)"] f(2) by simp_all
  have ok: "close_ok (close_phase_of (fp_close f)) (fw_run s)" "ck_started (rn_check (fw_run s)) \<longrightarrow> fp_mounted f \<or> fp_close f \<noteq> FuseOpen"
    using fuse_system_invD(2) [OF inv] f(1) by (simp_all add: fuse_client_ok_def)
  then have close: "fp_close f = FuseOpen" using ready in_close_Returning [of "fw_run s"] by (cases "fp_close f") auto
  have "cl_conf (fp_client f) = conf" using fuse_system_client(2) [OF fuse_system_invD(2) [OF inv] f(1) assms(2)] .
  then have "ck_started (rn_check (fw_run s))" "\<not> (0 < cf_MaxConnections conf \<and> sv_connCount (fw_server s) = cf_MaxConnections conf)"
    using f(2) by (auto simp: HandleReadiness_def ConnCount_def split: if_splits)
  moreover have "rn_closes (fw_run s) = []"
    using run_invD(5) [OF fuse_system_invD(1) [OF inv]] ready(1) by (cases "rn_main (fw_run s)") (auto simp: result_ok_def)
  ultimately show ?thesis using f(1) ok(2) close by blast
qed

theorem fuse_ready_means_mounted_witness:
  "\<exists>s. (fuse_system_step sample_world fuse_sample)\<^sup>*\<^sup>* (init_fuse_system (init_os [''/f''])) s
     \<and> fuse_http_get (200, []) fuse_sample s ''/readiness'' = Some (200, ''ok'') \<and> (\<exists>f. fw_proc s = Some f \<and> fp_mounted f)"
proof -
  obtain cm ck where s: "(fuse_system_step sample_world fuse_sample)\<^sup>*\<^sup>* (init_fuse_system (init_os [''/f'']))
    (sample_mounted cm ck)" "ck_started ck" "\<not> ck_stopped ck" "cl_conf cm = fuse_sample" by (rule fuse_sample_serving)
  then have "fuse_http_get (200, []) fuse_sample (sample_mounted cm ck) ''/readiness'' = Some (200, ''ok'')"
    by (simp add: fuse_http_get_def fuse_mounted_def fuse_up_def up_run_def run_simps needsHTTPServer_def serveHTTP_readiness HandleReadiness_def
        ConnCount_def init_server_def)
  from fuse_ready_means_mounted [OF s(1) _ _ this] this s(1) show ?thesis by fastforce
qed

text \<open>
  C12. What a \<open>Close\<close> without error says with FUSE, when \<open>--max-sigterm-delay\<close> is set: at the moment it
  loads the counter for the last time, every connection that a goroutine has counted is finished.
  If the directory is not mounted at that moment, every socket is out of the registry as well, and
  every accept loop has ended. It can still be mounted, when \<open>Close\<close> came before \<open>Serve\<close> had recorded
  the server; then sockets may be created after \<open>Close\<close> has waited for them.
\<close>

theorem fuse_graceful_close:
  assumes "(fuse_system_step w conf)\<^sup>*\<^sup>* (init_fuse_system os0) s" and "cf_FUSEDir conf \<noteq> []"
    and "fuse_closing_step (wd_sys w) conf s t" and "fw_proc t = Some g" and "fp_close g = FuseReturned None"
    and "0 < cf_WaitOnClose conf" and "length (sv_conns (fw_server s)) < 2 ^ 64"
  shows "(\<forall>k < length (sv_conns (fw_server t)). snd (sv_conns (fw_server t) ! k) \<in> {Accepted, Done})
    \<and> (\<not> fp_mounted g \<longrightarrow> fm_fuseSockets (cl_fuse (fp_client g)) = [] \<and> None \<notin> set (sv_loops (fw_server t)))"
  using assms(3)
proof (cases rule: fuse_closing_step.cases)
  case (close_returned e ds f mErr closeErr r)
  note inv = fuse_system_reachable [OF assms(1,2)]
  have zero: "sv_connCount (fw_server s) = 0" and same: "fp_client g = fp_client f" "fp_mounted g = fp_mounted f" "fw_server t = fw_server s"
    using close_returned assms(4-6) by (auto simp: nonempty_def closeErrors_def word_gt_0 split: if_splits)
  have f: "fuse_proc_inv f" using fuse_system_client(1) [OF fuse_system_invD(2) [OF inv] close_returned(4) assms(2)] .
  have "registry f = [] \<and> None \<notin> set (sv_loops (fw_server s))" if "\<not> fp_mounted f"
  proof -
    have empty: "registry f = []"
      using fuse_proc_invD(2,3) [OF f] that close_returned(5) by (auto simp: offline_def serving_ok_def)
    then have "loops_ok [] (fw_sockets s) (fw_keepers s)"
      "keepers_ok (length (fw_sockets s)) (fm_leaving (cl_fuse (fp_client f))) (sv_loops (fw_server s)) (fw_keepers s)"
      using fuse_system_invD(2) [OF inv] close_returned(4) by (simp_all add: fuse_client_ok_def)
    then have "None \<notin> set (sv_loops (fw_server s))"
      using fuse_system_invD(4) [OF inv] by (auto simp: loops_ok_def keepers_ok_def conns_inv_def in_set_conv_nth)
    with empty show ?thesis by simp
  qed
  with Server.drained [OF fuse_system_invD(3) [OF inv] zero assms(7)] same show ?thesis by simp
qed (use assms(4,5) in auto)

theorem fuse_graceful_close_witness:
  "\<exists>s t g. fuse_closing_step (wd_sys sample_world) fuse_sample s t \<and> fw_proc t = Some g \<and> \<not> fp_mounted g
     \<and> fm_fuseSockets (cl_fuse (fp_client g)) = []"
proof -
  obtain cm ck where s: "(fuse_system_step sample_world fuse_sample)\<^sup>*\<^sup>* (init_fuse_system (init_os [''/f'']))
    (sample_mounted cm ck)" "fm_fuseSockets (cl_fuse cm) = []" "fm_fuseServer (cl_fuse cm)" "fm_leaving (cl_fuse cm) = 0"
    by (rule fuse_sample_serving)
  note shut = fuse_interrupted [OF s(1), of "[DoCancel, DoCleanup]" "\<lparr>fp_client = cm, fp_os = fuse_sample_os, fp_mounted = True, fp_close = FuseOpen\<rparr>"]
  then obtain u q where u: "(fuse_system_step sample_world fuse_sample)\<^sup>*\<^sup>* (init_fuse_system (init_os [''/f''])) u"
    "fw_server u = init_server []" "fuse_closing_step (wd_sys sample_world) fuse_sample u
       ((sample_mounted cm ck)\<lparr>fw_run := q, fw_proc :=
          Some \<lparr>fp_client = cm, fp_os = fuse_sample_os, fp_mounted = False, fp_close = FuseReturned None\<rparr>\<rparr>)"
    using s(2-4) by (auto simp: fuse_mounted_def fuse_up_def up_run_def run_simps init_server_def)
  from fuse_graceful_close [OF u(1) _ u(3)] u(2,3) show ?thesis
    by (fastforce simp: init_server_def)
qed

text \<open>
  C13. A signal that arrives before \<open>Serve\<close> has mounted the directory leaves it mounted: \<open>Close\<close> finds no
  FUSE server, unmounts nothing and returns without error, while the goroutine of \<open>Serve\<close>, which
  nobody waits for, goes on to mount; the process exits with the directory mounted.
\<close>

theorem fuse_mount_after_close:
  assumes "\<not> telemetryOn conf" and "cf_FUSEDir conf \<noteq> []" and "serveFuse (wd_fuse w) c = (None, cm)"
    and "NewClient (wd_cred w) (wd_newDialer w) (wd_sys w) (wd_fuse w) (wd_given w) (wd_notify w) conf os0 = (Ok c, warm, s1)"
  shows "\<exists>s f. (fuse_system_step w conf)\<^sup>*\<^sup>* (init_fuse_system os0) s \<and> rn_main (fw_run s) = Exited errSigInt
    \<and> rn_closes (fw_run s) = [None] \<and> fw_proc s = Some f \<and> fp_close f = FuseReturned None \<and> fp_mounted f"
proof -
  let ?st = "fuse_system_step w conf" and ?i = "init_fuse_system os0" and ?u = "fuse_up conf c s1"
  let ?f = "\<lparr>fp_client = c, fp_os = s1, fp_mounted = False, fp_close = FuseReturned None\<rparr>"
  let ?g = "\<lparr>fp_client = cm, fp_os = s1, fp_mounted = True, fp_close = FuseReturned None\<rparr>"
  note c = NewClient_fuse [OF assms(4,2)]
  obtain u q where u: "?st\<^sup>*\<^sup>* ?i u" "fuse_closing_step (wd_sys w) conf u (?u\<lparr>fw_run := q, fw_proc := Some ?f\<rparr>)"
    and q: "rn_main q = Returning errSigInt" "rn_defers q = [DoCancel, DoCleanup]" "rn_senders q FromServe = Idle" "check_inv (rn_check q)"
    using fuse_interrupted [OF fuse_up_reached [OF assms(1,4)] assms(2), of "[DoCancel, DoCleanup]" "init_fuse_proc c s1"] c(2,4)
    by (auto simp: fuse_up_def up_run_def run_simps init_server_def init_fuse_proc_def)
  obtain ck where m: "?st\<^sup>*\<^sup>* (?u\<lparr>fw_run := q, fw_proc := Some ?f\<rparr>) (?u\<lparr>fw_run := q\<lparr>rn_check := ck\<rparr>, fw_proc := Some ?g\<rparr>)"
    using fuse_mounts [of "?u\<lparr>fw_run := q, fw_proc := Some ?f\<rparr>" ?f w cm conf] assms(3) q(3,4) c(1) by (auto simp: fuse_up_def)
  obtain r where r: "(outer_step conf)\<^sup>*\<^sup>* (q\<lparr>rn_check := ck\<rparr>) r" "rn_main r = Exited errSigInt"
    using outer_exit [of "q\<lparr>rn_check := ck\<rparr>" errSigInt conf] q(1,2) by auto
  let ?s = "?u\<lparr>fw_run := r, fw_proc := Some ?g\<rparr>"
  have "?st u (?u\<lparr>fw_run := q, fw_proc := Some ?f\<rparr>)" using u(2) by (simp add: fuse_system_step_def)
  moreover have "?st\<^sup>*\<^sup>* (?u\<lparr>fw_run := q\<lparr>rn_check := ck\<rparr>, fw_proc := Some ?g\<rparr>) ?s"
    using outer_steps_fuse [OF r(1), of "?u\<lparr>fw_run := q\<lparr>rn_check := ck\<rparr>, fw_proc := Some ?g\<rparr>" w] by (simp add: fuse_up_def)
  ultimately have s: "?st\<^sup>*\<^sup>* ?i ?s" using u(1) m by (meson rtranclp.rtrancl_into_rtrancl rtranclp_trans)
  have "rn_closes r = [None]"
    using fuse_system_invD(2) [OF fuse_system_reachable [OF s assms(2)]] by (simp add: fuse_client_ok_def)
  with s r(2) show ?thesis by (intro exI [of _ ?s] exI [of _ ?g]) simp
qed

theorem fuse_mount_after_close_witness:
  "\<exists>s f. (fuse_system_step sample_world fuse_sample)\<^sup>*\<^sup>* (init_fuse_system (init_os [''/f''])) s
     \<and> rn_main (fw_run s) = Exited errSigInt \<and> fw_proc s = Some f \<and> fp_mounted f"
proof -
  obtain cm where "serveFuse (wd_fuse sample_world) (fuse_client fuse_sample) = (None, cm)"
    by (simp add: serveFuse_def mount_error_def sample_world_def no_fuse_def)
  from fuse_mount_after_close [OF _ _ this fuse_sample_client] show ?thesis by auto
qed

end
