(* ===== verification/Program.thy ===== *)
theory Program
  imports Fuse_Runs Cmd_Config
begin

text \<open>
  The whole program, from its arguments to its exit code (main.go and \<open>Execute\<close> in cmd/root.go): \<open>main\<close>
  executes the root command, which loads its configuration (\<open>Cmd_Config\<close>) and, if it is accepted,
  runs the process (\<open>Process\<close>, or \<open>Fuse_System\<close> with a FUSE directory). What the command library does
  itself, for \<open>--help\<close> or an unknown flag, is left out.
\<close>

section \<open>The program\<close>

text \<open>What surrounds the program: flag values, configuration file, environment, the options given to \<open>NewCommand\<close>, and the world of the process.\<close>

record 't launch =
  ln_pflag :: pflag
  ln_read :: "string \<Rightarrow> read_config"
  ln_viper :: "string \<Rightarrow> string option"
  ln_getenv :: "string \<Rightarrow> string"
  ln_fuse :: "go_error option"
  ln_url :: "string \<Rightarrow> bool"
  ln_opts :: "(Command \<Rightarrow> Command) list"
  ln_world :: "'t world"

definition main :: "go_error option \<Rightarrow> int" where
  "main err = Execute err"

text \<open>\<open>rootCmd.Args\<close>, and the world \<open>rootCmd.RunE\<close> runs in: the dialer and the notification are those of the command.\<close>

definition rootArgs :: "'t launch \<Rightarrow> Command \<Rightarrow> string list \<Rightarrow> Command outcome option" where
  "rootArgs l c args =
     loadConfig (ln_pflag l) (ln_read l) (ln_viper l) (ln_getenv l) (ln_fuse l) (ln_url l) c args (ln_opts l)"

definition rootWorld :: "'t launch \<Rightarrow> Command \<Rightarrow> 't world" where
  "rootWorld l c = (ln_world l)\<lparr>wd_given := cm_dialer c, wd_notify := cm_connRefuseNotify c\<rparr>"

definition fuse_os :: "fuse_system \<Rightarrow> os" where
  "fuse_os s = (case fw_proc s of Some f \<Rightarrow> fp_os f | None \<Rightarrow> fw_os s)"

text \<open>The exit code, with the state of the command and the operating system at the exit if the command has run.\<close>

inductive program_exits :: "'t launch \<Rightarrow> Command \<Rightarrow> string list \<Rightarrow> os \<Rightarrow> int \<Rightarrow> (run \<times> os) option \<Rightarrow> bool"
  for l :: "'t launch" and c :: Command and args :: "string list" and os0 :: os where
  rejected: "rootArgs l c args = Some (Err e) \<Longrightarrow> program_exits l c args os0 (main (Some e)) None"
| ended: "rootArgs l c args = Some (Ok c') \<Longrightarrow> cf_FUSEDir (cm_conf c') = [] \<Longrightarrow>
     (proc_step (rootWorld l c') (cm_conf c'))\<^sup>*\<^sup>* (init_proc os0) s \<Longrightarrow> rn_main (pr_run s) = Exited e \<Longrightarrow>
     program_exits l c args os0 (main (Some e)) (Some (pr_run s, pr_os s))"
| ended_fuse: "rootArgs l c args = Some (Ok c') \<Longrightarrow> cf_FUSEDir (cm_conf c') \<noteq> [] \<Longrightarrow>
     (fuse_system_step (rootWorld l c') (cm_conf c'))\<^sup>*\<^sup>* (init_fuse_system os0) s \<Longrightarrow> rn_main (fw_run s) = Exited e \<Longrightarrow>
     program_exits l c args os0 (main (Some e)) (Some (fw_run s, fuse_os s))"

section \<open>Facts\<close>

lemma rootArgs_steps:
  assumes "rootArgs l c args = Some (Ok c')"
  obtains args' d where "chooseArgs (ln_getenv l) (ln_viper l) args = Some args'"
    "parseConfig (ln_fuse l) (ln_url l) d args' = Ok c'" "args \<noteq> [] \<longrightarrow> args' = args"
  using assms by (auto simp: rootArgs_def loadConfig_def chooseArgs_def split: outcome.splits bind_splits if_splits)

lemma rootArgs_rejects: "rootArgs l c args = Some (Err e) \<Longrightarrow> \<exists>m. e = newBadCommandError m"
  unfolding rootArgs_def by (rule loadConfig_error)

text \<open>The instance a mount is for is named before the argument's first question mark.\<close>

lemma parseInstances_names:
  "parseInstances conf args = Ok ics \<Longrightarrow> map ic_Name ics = map (takeWhile (\<lambda>x. x \<noteq> CHR ''?'')) args"
proof (induction args arbitrary: ics)
  case (Cons a args)
  then obtain ic rest where "parseInstance conf a = Ok ic" "parseInstances conf args = Ok rest" "ics = ic # rest"
    by (auto simp: bind_Ok)
  with Cons.IH parseInstance_name_valid [of conf a ic] show ?case by simp
qed simp

lemma parseConfig_names:
  assumes "parseConfig sf urlInvalid c args = Ok c'"
  shows "map ic_Name (cf_Instances (cm_conf c')) = map (takeWhile (\<lambda>x. x \<noteq> CHR ''?'')) args"
proof -
  obtain ics where "parseInstances (cm_conf (slashEndpoint (addUserAgent c))) args = Ok ics" "cf_Instances (cm_conf c') = ics"
    using parseConfig_steps(2) [OF assms] by auto
  with parseInstances_names show ?thesis by simp
qed

text \<open>What the exit code says of a run.\<close>

lemma exited_means:
  assumes "run_inv conf r" and "rn_main r = Exited e"
  shows "Execute (Some e) \<in> {0, 1, 130, 143}
    \<and> (Execute (Some e) = 0 \<longrightarrow> (rn_client r \<longrightarrow> rn_closes r = [None])
         \<and> (rn_reason r = Some errQuitQuitQuit \<and> cf_QuitQuitQuit conf \<or> rn_reason r = Some errSigTermZero \<and> cf_ExitZeroOnSigterm conf))
    \<and> (Execute (Some e) = 130 \<longrightarrow> rn_reason r = Some errSigInt)
    \<and> (Execute (Some e) = 143 \<longrightarrow> rn_reason r = Some errSigTerm \<and> \<not> cf_ExitZeroOnSigterm conf)"
proof (cases "list_ex (\<lambda>x. x \<noteq> None) (rn_closes r)")
  case True
  with exited_code [OF assms] have "Execute (Some e) = 1" by auto
  then show ?thesis by simp
next
  case False
  with exited_code [OF assms] have "rn_client r \<longrightarrow> rn_closes r = [None]" by (auto simp: length_Suc_conv)
  moreover from False exited_code [OF assms] obtain why where "rn_reason r = Some why" "Execute (Some e) \<in> {0, 1, 130, 143}"
    "Execute (Some e) = 0 \<longrightarrow> why = errQuitQuitQuit \<and> cf_QuitQuitQuit conf \<or> why = errSigTermZero \<and> cf_ExitZeroOnSigterm conf"
    "Execute (Some e) = 130 \<longrightarrow> why = errSigInt" "Execute (Some e) = 143 \<longrightarrow> why = errSigTerm \<and> \<not> cf_ExitZeroOnSigterm conf"
    by (simp only: if_False) blast
  ultimately show ?thesis by simp
qed

section \<open>A sample program\<close>

text \<open>One instance, with the flags \<open>--health-check\<close> and \<open>--exit-zero-on-sigterm\<close>, and a dialer given.\<close>

definition sample_launch :: "nat launch" where
  "sample_launch = \<lparr>ln_pflag = sample_pflag, ln_read = (\<lambda>_. ReadOk), ln_viper = (\<lambda>_. None), ln_getenv = (\<lambda>_. []), ln_fuse = None,
     ln_url = (\<lambda>_. False), ln_opts = [WithDialer], ln_world = sample_world\<rparr>"

definition sample_flags :: Command where
  "sample_flags = sample_cmd\<lparr>cm_changed := [''health-check'', ''exit-zero-on-sigterm''],
     cm_conf := (cm_conf sample_cmd)\<lparr>cf_HealthCheck := True, cf_ExitZeroOnSigterm := True\<rparr>\<rparr>"

lemma sample_launch_accepted:
  "\<exists>c'. rootArgs sample_launch sample_flags [''p:r:i''] = Some (Ok c') \<and> cm_dialer c' \<and> \<not> cm_connRefuseNotify c'
     \<and> cm_conf c' = (cm_conf sample_flags)\<lparr>cf_Instances := [zero_inst\<lparr>ic_Name := ''p:r:i''\<rparr>]\<rparr>"
proof -
  have ip: "parseIP ''127.0.0.1'' \<noteq> None" by code_simp
  define d where "d = selectLogger (WithDialer sample_flags)"
  have c: "cm_conf d = cm_conf sample_flags" "cm_changed d = cm_changed sample_flags" "cm_dialer d" "\<not> cm_connRefuseNotify d"
    by (simp_all add: d_def selectLogger_def WithDialer_def sample_flags_def sample_cmd_def NewCommand_def default_conf_def zero_Config_def Let_def)
  have "first_error (flagRules None d [''p:r:i'']) = Ok ()"
    using ip
    by (simp add: c flagRules_def sample_flags_def sample_cmd_def NewCommand_def default_conf_def zero_Config_def flag_set_def ipTypes_def Let_def)
  moreover have "first_error (endpointRules (\<lambda>_. False) (addUserAgent d)) = Ok ()"
    by (simp add: c endpointRules_def flag_set_def sample_flags_def sample_cmd_def NewCommand_def Let_def)
  moreover have "parseInstance conf ''p:r:i'' = Ok (zero_inst\<lparr>ic_Name := ''p:r:i''\<rparr>)" for conf
    by (simp add: parseInstance_def)
  ultimately have "\<exists>c'. parseConfig None (\<lambda>_. False) d [''p:r:i''] = Ok c' \<and> cm_dialer c' \<and> \<not> cm_connRefuseNotify c'
      \<and> cm_conf c' = (cm_conf sample_flags)\<lparr>cf_Instances := [zero_inst\<lparr>ic_Name := ''p:r:i''\<rparr>]\<rparr>"
    using c
    by (simp add: parseConfig_def Let_def bind_Ok slashEndpoint_def addUserAgent_def flag_set_def sample_flags_def sample_cmd_def
        NewCommand_def)
  moreover have "initViper (\<lambda>_. ReadOk) sample_flags = Ok ()"
    by (simp add: initViper_def sample_flags_def sample_cmd_def NewCommand_def default_conf_def zero_Config_def)
  ultimately show ?thesis
    by (simp add: rootArgs_def loadConfig_def chooseArgs_def sample_launch_def d_def visitAll_unset)
qed

text \<open>It serves.\<close>

lemma sample_launch_serving:
  obtains c' cl s1 where "rootArgs sample_launch sample_flags [''p:r:i''] = Some (Ok c')" "rootWorld sample_launch c' = sample_world"
    "cf_FUSEDir (cm_conf c') = []" "\<not> cf_SkipFailedInstanceConfig (cm_conf c')" "cf_HealthCheck (cm_conf c')"
    "cf_ExitZeroOnSigterm (cm_conf c')" "\<not> telemetryOn (cm_conf c')" "\<not> cf_QuitQuitQuit (cm_conf c')"
    "(proc_step sample_world (cm_conf c'))\<^sup>*\<^sup>* (init_proc (init_os [])) (serving_proc (cm_conf c') cl s1)"
    "http_get (200, []) (cm_conf c') (serving_proc (cm_conf c') cl s1) ''/readiness'' = Some (200, ''ok'')" "plain_conf (cm_conf c')"
    "\<exists>warm. NewClient (wd_cred sample_world) (wd_newDialer sample_world) (wd_sys sample_world) (wd_fuse sample_world)
      (wd_given sample_world) (wd_notify sample_world) (cm_conf c') (init_os []) = (Ok cl, warm, s1)"
proof -
  obtain c' where c': "rootArgs sample_launch sample_flags [''p:r:i''] = Some (Ok c')" "cm_dialer c'" "\<not> cm_connRefuseNotify c'"
    "cm_conf c' = (cm_conf sample_flags)\<lparr>cf_Instances := [zero_inst\<lparr>ic_Name := ''p:r:i''\<rparr>]\<rparr>"
    using sample_launch_accepted by blast
  have world: "rootWorld sample_launch c' = sample_world"
    using c'(2,3) by (simp add: rootWorld_def sample_launch_def sample_world_def)
  have conf: "cf_FUSEDir (cm_conf c') = []" "\<not> cf_SkipFailedInstanceConfig (cm_conf c')" "cf_HealthCheck (cm_conf c')"
    "cf_ExitZeroOnSigterm (cm_conf c')" "\<not> telemetryOn (cm_conf c')" "\<not> cf_QuitQuitQuit (cm_conf c')" "\<not> cf_RunConnectionTest (cm_conf c')" "cf_MaxConnections (cm_conf c') = 0"
    by (simp_all add: c'(4) sample_flags_def sample_cmd_def NewCommand_def default_conf_def zero_Config_def telemetryOn_def)
  obtain cl warm s1 where cl: "NewClient (wd_cred sample_world) (wd_newDialer sample_world) (wd_sys sample_world) (wd_fuse sample_world)
      (wd_given sample_world) (wd_notify sample_world) (cm_conf c') (init_os []) = (Ok cl, warm, s1)"
    by (simp add: c'(4) sample_flags_def sample_cmd_def NewCommand_def sample_world_def NewClient_def initDialer_def default_conf_def
        zero_Config_def zero_inst_def newSocketMount_def listenAddress_def networkType_def listenPort_def sqlDataOn_def plain_sys_def
        nextDBPort_def hasPrefix_def newPortConfig_def net_Listen_def init_os_def Let_def)
  have os: "\<forall>l \<in> set (os_listeners (init_os [])). fst l < os_next (init_os [])" by (simp add: init_os_def)
  have plain: "plain_conf (cm_conf c')" using conf by (simp add: plain_conf_def)
  note serving = serving_reached [OF plain os cl]
  have "cl_conf cl = cm_conf c'" using NewClient_opened(3) [OF cl conf(1) os] by simp
  then have "http_get (200, []) (cm_conf c') (serving_proc (cm_conf c') cl s1) ''/readiness'' = Some (200, ''ok'')"
    using conf by (simp add: http_get_def serving_proc_def up_run_def run_simps needsHTTPServer_def serveHTTP_readiness HandleReadiness_def
        ConnCount_def NewCheck_def)
  with c'(1) world conf(1-6) serving plain cl that show thesis by blast
qed

text \<open>A SIGINT ends it, and its listener is closed.\<close>

lemma sample_launch_exits:
  obtains c' and s :: proc where "rootArgs sample_launch sample_flags [''p:r:i''] = Some (Ok c')" "cf_FUSEDir (cm_conf c') = []"
    "rn_client (pr_run s)" "rn_start (pr_run s) = StartDone"
    "program_exits sample_launch sample_flags [''p:r:i''] (init_os []) 130 (Some (pr_run s, pr_os s))"
proof -
  obtain c' cl s1 warm where c': "rootArgs sample_launch sample_flags [''p:r:i''] = Some (Ok c')" "rootWorld sample_launch c' = sample_world"
    "cf_FUSEDir (cm_conf c') = []" "plain_conf (cm_conf c')"
    and cl: "NewClient (wd_cred sample_world) (wd_newDialer sample_world) (wd_sys sample_world) (wd_fuse sample_world)
      (wd_given sample_world) (wd_notify sample_world) (cm_conf c') (init_os []) = (Ok cl, warm, s1)"
    using sample_launch_serving by metis
  let ?st = "proc_step sample_world (cm_conf c')"
  have os: "\<forall>l \<in> set (os_listeners (init_os [])). fst l < os_next (init_os [])" by (simp add: init_os_def)
  obtain r where r: "?st\<^sup>*\<^sup>* (init_proc (init_os [])) ((serving_proc (cm_conf c') cl s1)\<lparr>pr_run := r\<rparr>)"
    "rn_main r = Returning errSigInt" "rn_defers r = [DoClose, DoCancel, DoCleanup]" "rn_start r = StartDone" "rn_client r"
    using interrupted_closing [OF c'(4) os cl] by auto
  define a where "a = (serving_proc (cm_conf c') cl s1)\<lparr>pr_run := r\<rparr>"
  note o = NewClient_opened(1) [OF cl c'(3) os]
  have "distinct (map sm_listener (cl_mnts cl))" using o by (simp add: opened_def)
  moreover have "close_err (wd_sys sample_world) s h = None" for s h by (simp add: sample_world_def plain_sys_def)
  ultimately obtain s2 where "closeMounts (wd_sys sample_world) (cl_mnts cl) s1 = ([], s2)"
    using closeMounts_ok [of "cl_mnts cl" s1 "wd_sys sample_world"] opened_listening [OF o] by blast
  with close_quietly [of a errSigInt "[DoCancel, DoCleanup]" cl sample_world s2 "cm_conf c'"] r(2,3)
  obtain u q where q: "?st\<^sup>*\<^sup>* a u" "closing_step sample_world (cm_conf c') u (a\<lparr>pr_os := s2, pr_run := q, pr_close := CloseReturned None\<rparr>)"
    "rn_main q = Returning errSigInt" "rn_defers q = [DoCancel, DoCleanup]" "rn_start q = rn_start r" "rn_client q = rn_client r"
    by (auto simp: a_def serving_proc_def init_server_def)
  define t where "t = a\<lparr>pr_os := s2, pr_run := q, pr_close := CloseReturned None\<rparr>"
  have t: "?st\<^sup>*\<^sup>* (init_proc (init_os [])) t"
    using r(1) q(1,2) unfolding a_def [symmetric] t_def by (meson proc_step_def rtranclp.rtrancl_into_rtrancl rtranclp_trans)
  obtain x where x: "?st\<^sup>*\<^sup>* t (t\<lparr>pr_run := x\<rparr>)" "rn_main x = Exited errSigInt" "rn_start x = rn_start q" "rn_client x = rn_client q"
    using exit_follows [of t errSigInt sample_world "cm_conf c'"] q(3,4) by (auto simp: t_def)
  from program_exits.ended [OF c'(1,3), of "init_os []" "t\<lparr>pr_run := x\<rparr>" errSigInt] rtranclp_trans [OF t x(1)] x(2) c'(2)
  have "program_exits sample_launch sample_flags [''p:r:i''] (init_os []) 130 (Some (x, pr_os t))"
    by (simp add: main_def Execute_def errSigInt_def)
  with c'(1,3) q(5,6) r(4,5) x(3,4) that [of c' "t\<lparr>pr_run := x\<rparr>"] show thesis by simp
qed

end
