(* ===== verification/Fuse_Exit.thy ===== *)
theory Fuse_Exit
  imports Fuse_Runs
begin

text \<open>
  How the process with FUSE ends (model in \<open>Fuse_System\<close>): once the directory is offline, unmounted or
  never mounted, and there is a reason to stop, it gets to its exit.
\<close>

section \<open>Sockets in the registry have a goroutine that has yet to take them out\<close>

definition served_registry :: "(string \<times> socketSymlink) list \<Rightarrow> socketMount list \<Rightarrow> keeper list \<Rightarrow> bool" where
  "served_registry reg ms ks \<longleftrightarrow>
     (\<forall>k ss. map_of reg k = Some ss \<longrightarrow> (\<exists>i < length ms. ms ! i = ss_socket ss \<and> sm_inst (ms ! i) = k \<and> ks ! i = Registered))"

definition registry_served :: "fuse_system \<Rightarrow> bool" where
  "registry_served s \<longleftrightarrow> (\<forall>f. fw_proc s = Some f \<longrightarrow> served_registry (registry f) (fw_sockets s) (fw_keepers s))"

lemma served_registry_new:
  assumes "served_registry reg ms ks" and "length ks = length ms"
  shows "served_registry (AList.update (sm_inst (ss_socket ss)) ss reg) (ms @ [ss_socket ss]) (ks @ [Registered])"
  unfolding served_registry_def
proof (intro allI impI)
  fix k x assume x: "map_of (AList.update (sm_inst (ss_socket ss)) ss reg) k = Some x"
  let ?P = "\<lambda>i. i < length (ms @ [ss_socket ss]) \<and> (ms @ [ss_socket ss]) ! i = ss_socket x
    \<and> sm_inst ((ms @ [ss_socket ss]) ! i) = k \<and> (ks @ [Registered]) ! i = Registered"
  show "\<exists>i. ?P i"
  proof (cases "k = sm_inst (ss_socket ss)")
    case True
    with x assms(2) have "?P (length ms)" by (simp add: update_conv' nth_append)
    then show ?thesis ..
  next
    case False
    with x have "map_of reg k = Some x" by (simp add: update_conv')
    with assms(1) obtain i where "i < length ms" "ms ! i = ss_socket x" "sm_inst (ms ! i) = k" "ks ! i = Registered"
      unfolding served_registry_def by blast
    with assms(2) have "?P i" by (simp add: nth_append)
    then show ?thesis ..
  qed
qed

lemma served_registry_removed:
  assumes "served_registry reg ms ks"
  shows "served_registry (AList.delete (sm_inst (ms ! i)) reg) ms (ks[i := Removed])"
  unfolding served_registry_def
proof (intro allI impI)
  fix k x assume "map_of (AList.delete (sm_inst (ms ! i)) reg) k = Some x"
  then have k: "k \<noteq> sm_inst (ms ! i)" "map_of reg k = Some x" by (auto simp: delete_conv' split: if_splits)
  with assms obtain j where "j < length ms" "ms ! j = ss_socket x" "sm_inst (ms ! j) = k" "ks ! j = Registered"
    unfolding served_registry_def by blast
  moreover from this k(1) have "i \<noteq> j" by auto
  ultimately show "\<exists>j < length ms. ms ! j = ss_socket x \<and> sm_inst (ms ! j) = k \<and> ks[i := Removed] ! j = Registered"
    by (intro exI [of _ j]) simp
qed

lemma served_registry_gone:
  assumes "served_registry reg ms ks" and "ks ! i \<noteq> Registered"
  shows "served_registry reg ms (ks[i := Gone])"
  using assms unfolding served_registry_def by (metis nth_list_update_neq)

lemma registry_served_step:
  assumes "fuse_system_step w conf s t" and "fuse_system_inv w conf os0 s" and "cf_FUSEDir conf \<noteq> []" and "registry_served s"
  shows "registry_served t"
  using assms(1)
proof (cases rule: fuse_system_step_cases)
  case start
  then show ?thesis
  proof (cases rule: fuse_start_step.cases)
    case (configured c)
    then have "fw_proc s = None" using fuse_system_invD(2) [OF assms(2)] by (auto simp: fuse_client_ok_def split: option.splits)
    then obtain warm where
      "NewClient (wd_cred w) (wd_newDialer w) (wd_sys w) (wd_fuse w) (wd_given w) (wd_notify w) conf os0 = (Ok c, warm, fw_os s)"
      using fuse_system_invD(2) [OF assms(2)] configured(4) by (auto simp: fuse_client_ok_def split: prod.splits)
    from configured NewClient_fuse(2) [OF this assms(3)] show ?thesis
      by (simp add: registry_served_def served_registry_def init_fuse_proc_def)
  qed (use assms(4) in \<open>simp_all add: registry_served_def\<close>)
next
  case serve
  then show ?thesis using assms(4)
    by (cases rule: fuse_serve_step.cases) (auto simp: registry_served_def)
next
  case closing
  then show ?thesis using assms(4)
    by (cases rule: fuse_closing_step.cases) (auto simp: registry_served_def elim: fuse_close_step.cases)
next
  case socket
  note inv = fuse_system_invD [OF assms(2)]
  obtain f0 where "fw_proc s = Some f0" using socket by (auto elim: fuse_socket_step.cases)
  then have len: "length (fw_keepers s) = length (fw_sockets s)" using inv(2) by (simp add: fuse_client_ok_def keepers_ok_def)
  show ?thesis using socket
  proof (cases rule: fuse_socket_step.cases)
    case (lookup f inst r c s1 new)
    note client = fuse_system_client [OF inv(2) lookup(2) assms(3)]
    from lookup_registers [OF lookup(4) client(2,3)] lookup(5) show ?thesis
    proof (elim disjE exE conjE)
      fix ss assume "created_socket (fp_client f) c inst = [ss_socket ss]"
        "fm_fuseSockets (cl_fuse c) = AList.update (sm_inst (ss_socket ss)) ss (registry f)"
      with lookup served_registry_new [OF _ len, of "registry f" ss] assms(4) show ?thesis by (simp add: registry_served_def)
    qed (use lookup assms(4) in \<open>simp add: registry_served_def\<close>)
  next
    case (taken_out f i e)
    with assms(4) served_registry_removed show ?thesis by (simp add: registry_served_def)
  next
    case (left_group f i)
    with assms(4) served_registry_gone [of "registry f" "fw_sockets s" "fw_keepers s" i] show ?thesis by (simp add: registry_served_def)
  qed (use assms(4) in \<open>auto simp: registry_served_def\<close>)
qed

lemma registry_served_reachable:
  assumes "(fuse_system_step w conf)\<^sup>*\<^sup>* (init_fuse_system os0) s" and "cf_FUSEDir conf \<noteq> []"
  shows "registry_served s"
  using assms(1)
proof (induction rule: rtranclp_induct)
  case base
  then show ?case by (simp add: registry_served_def init_fuse_system_def)
next
  case (step s t)
  then show ?case using registry_served_step [OF step.hyps(2) fuse_system_reachable [OF step.hyps(1) assms(2)] assms(2)] by blast
qed

section \<open>Getting to the exit\<close>

text \<open>
  The steps left: of the deferred calls, and of \<open>Close\<close> with the goroutines it waits for, if it is still
  to return; an accept loop that runs has to end first.
\<close>

definition running_loops :: "fuse_system \<Rightarrow> nat" where
  "running_loops s = length (filter (\<lambda>l. l = None) (sv_loops (fw_server s)))"

definition fuse_exit_left :: "fuse_system \<Rightarrow> nat" where
  "fuse_exit_left s = remaining (fw_run s)
     + (case fw_proc s of Some f \<Rightarrow> if DoClose \<in> set (rn_defers (fw_run s)) then fuse_remaining f + running_loops s else 0 | None \<Rightarrow> 0)"

text \<open>
  What cannot be held up: the main goroutine with \<open>Close\<close>, the end of an accept loop whose listener is
  closed, and the goroutine of an accept loop that has ended.
\<close>

definition fuse_forced :: "'t world \<Rightarrow> Config \<Rightarrow> fuse_system \<Rightarrow> fuse_system \<Rightarrow> bool" where
  "fuse_forced w conf s t \<longleftrightarrow>
     (\<exists>r. main_step conf (fw_run s) r \<and> \<not> in_close (fw_run s) \<and> t = s\<lparr>fw_run := r\<rparr>)
     \<or> fuse_closing_step (wd_sys w) conf s t
     \<or> fuse_socket_step (wd_sys w) conf s t
        \<and> (\<exists>f. \<exists>i < length (fw_sockets s). fw_proc s = Some f
             \<and> (sv_loops (fw_server s) ! i = None \<and> sm_listener (fw_sockets s ! i) \<notin> fst ` set (os_listeners (fp_os f))
                  \<and> sv_loops (fw_server t) ! i \<noteq> None
                \<or> sv_loops (fw_server s) ! i \<noteq> None \<and> fw_keepers t ! i \<noteq> fw_keepers s ! i))"

lemma running_loops_frame [simp]:
  "running_loops (s\<lparr>fw_run := r\<rparr>) = running_loops s" "running_loops (s\<lparr>fw_proc := p\<rparr>) = running_loops s"
  "running_loops (s\<lparr>fw_keepers := ks\<rparr>) = running_loops s"
  by (simp_all add: running_loops_def)

lemma running_loops_ended:
  assumes "i < length (sv_loops (fw_server s))" and "sv_loops (fw_server s) ! i = None"
    and "sv_loops (fw_server t) = (sv_loops (fw_server s))[i := Some e]"
  shows "Suc (running_loops t) = running_loops s"
  using assms count_update [of i "sv_loops (fw_server s)" "\<lambda>l. l = None" "Some e"] by (simp add: running_loops_def)

lemma offline_running:
  assumes "fuse_socket_step sys conf s t" and "fw_proc s = Some f" and "offline f"
  shows "running_loops t \<le> running_loops s"
  using assms(1)
proof (cases rule: fuse_socket_step.cases)
  case (lookup f' inst r c s1 new)
  with assms(2,3) show ?thesis by (simp add: offline_def)
next
  case (ended f' i e)
  then have "Suc (running_loops t) = running_loops s" by (intro running_loops_ended) simp_all
  then show ?thesis by simp
next
  case (conn f' sv)
  then show ?thesis using conn_step_loops by (simp add: running_loops_def)
qed (simp_all add: running_loops_def)

lemma phase_reason: "run_inv conf r \<Longrightarrow> rn_main r \<in> {Sleeping e, Returning e, Exited e} \<Longrightarrow> rn_reason r \<noteq> None"
  using run_invD(5) [of conf r] by (auto simp: result_ok_def)

lemma main_step_phase:
  assumes "main_step conf r r'" and "rn_main r \<in> {Sleeping e, Returning e, Exited e}"
  shows "\<exists>e'. rn_main r' \<in> {Sleeping e', Returning e', Exited e'}"
  using assms
proof (cases rule: main_step.cases)
  case (deferred e' d ds closeErr)
  with run_deferred_shape [OF deferred(3)] show ?thesis by auto
qed auto

lemma fuse_exit_left_main:
  assumes "remaining r < remaining (fw_run s)" and "set (rn_defers r) \<subseteq> set (rn_defers (fw_run s))"
  shows "fuse_exit_left (s\<lparr>fw_run := r\<rparr>) < fuse_exit_left s"
  using assms by (auto simp: fuse_exit_left_def split: option.splits)

lemma fuse_exit_left_frame:
  assumes "rn_main (fw_run t) = rn_main (fw_run s)" and "rn_defers (fw_run t) = rn_defers (fw_run s)"
    and "fw_proc s = Some f" and "fw_proc t = Some g" and "fuse_remaining g \<le> fuse_remaining f" and "running_loops t \<le> running_loops s"
  shows "fuse_exit_left t \<le> fuse_exit_left s"
  using assms remaining_cong [of "fw_run t" "fw_run s"] by (simp add: fuse_exit_left_def)

lemma closing_step_left:
  assumes "fuse_closing_step sys conf s t" and "fw_proc s = Some f"
  shows "fuse_exit_left t < fuse_exit_left s"
  using assms(1)
proof (cases rule: fuse_closing_step.cases)
  case (close_moved f' g)
  moreover obtain e ds where "rn_defers (fw_run s) = DoClose # ds" using in_close_Returning [OF close_moved(2)] by blast
  ultimately show ?thesis using close_step_left(1) [OF close_moved(4)] by (simp add: fuse_exit_left_def)
next
  case (close_returned e ds f' mErr closeErr r)
  have "rn_defers r = ds" "\<exists>e'. rn_main r = Returning e'" using run_deferred_shape [OF close_returned(7)] close_returned(2) by auto
  with close_returned assms(2) show ?thesis by (auto simp: fuse_exit_left_def remaining_def)
qed

lemma fuse_system_lengths:
  assumes "fuse_client_ok w conf os0 s" and "conns_inv (fw_sockets s) (fw_server s)" and "fw_proc s = Some f"
  shows "length (sv_loops (fw_server s)) = length (fw_sockets s)" "length (fw_keepers s) = length (fw_sockets s)"
  using assms by (simp_all add: fuse_client_ok_def conns_inv_def keepers_ok_def)

lemma leaving_keeper:
  assumes "keepers_ok n m ls ks" and "0 < m"
  shows "\<exists>i < length ks. ks ! i = Removed \<and> ls ! i \<noteq> None"
proof -
  have "filter (\<lambda>k. k = Removed) ks \<noteq> []" using assms by (auto simp: keepers_ok_def)
  then obtain i where "i < length ks" "ks ! i = Removed" by (auto simp: filter_empty_conv in_set_conv_nth)
  with assms(1) show ?thesis by (intro exI [of _ i]) (auto simp: keepers_ok_def)
qed

text \<open>While \<open>Close\<close> runs, it or a goroutine it waits for can go on.\<close>

lemma fuse_closing_progress:
  assumes "fuse_system_inv w conf os0 s" and "registry_served s" and "cf_FUSEDir conf \<noteq> []" and "in_close (fw_run s)"
    and "fw_proc s = Some f" and "offline f"
  shows "\<exists>t. fuse_forced w conf s t \<and> fuse_exit_left t < fuse_exit_left s"
proof -
  note inv = fuse_system_invD [OF assms(1)]
  note client = fuse_system_client(1) [OF inv(2) assms(5,3)]
  obtain e ds where r: "rn_main (fw_run s) = Returning e" "rn_defers (fw_run s) = DoClose # ds" using in_close_Returning [OF assms(4)] by blast
  have closing: ?thesis if "fuse_closing_step (wd_sys w) conf s t" for t
    using that closing_step_left [OF that assms(5)] by (auto simp: fuse_forced_def)
  have "close_ok (close_phase_of (fp_close f)) (fw_run s)" using inv(2) assms(5) by (simp add: fuse_client_ok_def)
  then have "fuse_remaining f \<noteq> 0" using in_close_not_done [OF inv(1) assms(4)] by (cases "fp_close f") auto
  then obtain g where fg: "forced_step (wd_sys w) conf f g" "fuse_remaining g < fuse_remaining f"
    using offline_progress [OF client assms(6)] by blast
  have keepers: "keepers_ok (length (fw_sockets s)) (fm_leaving (cl_fuse (fp_client f))) (sv_loops (fw_server s)) (fw_keepers s)"
    using inv(2) assms(5) by (simp add: fuse_client_ok_def)
  note len = fuse_system_lengths [OF inv(2,4) assms(5)]
  have moved: ?thesis if "fuse_socket_step (wd_sys w) conf s t" "rn_main (fw_run t) = rn_main (fw_run s)" "rn_defers (fw_run t) = rn_defers (fw_run s)"
      "fw_proc t = Some h" "fuse_remaining h + running_loops t < fuse_remaining f + running_loops s"
      "i < length (fw_sockets s)" "sv_loops (fw_server s) ! i = None \<and> sm_listener (fw_sockets s ! i) \<notin> fst ` set (os_listeners (fp_os f))
                  \<and> sv_loops (fw_server t) ! i \<noteq> None
                \<or> sv_loops (fw_server s) ! i \<noteq> None \<and> fw_keepers t ! i \<noteq> fw_keepers s ! i" for t h i
  proof -
    have "fuse_exit_left t < fuse_exit_left s"
      using that(2-5) assms(5) r(2) remaining_cong [of "fw_run t" "fw_run s"] by (simp add: fuse_exit_left_def)
    moreover have "fuse_forced w conf s t" using that(1,6,7) assms(5) unfolding fuse_forced_def by blast
    ultimately show ?thesis by blast
  qed
  from fg(1) consider "fuse_close_step (wd_sys w) conf f g"
    | inst ss e' where "map_of (registry f) inst = Some ss" "\<not> socket_open f ss" "g = f\<lparr>fp_client := remove_socket inst e' (fp_client f)\<rparr>"
    | "0 < fm_leaving (cl_fuse (fp_client f))" "g = f\<lparr>fp_client := fuseWg_Done (fp_client f)\<rparr>"
    unfolding forced_step_def by (elim disjE exE conjE) metis+
  then show ?thesis
  proof cases
    case 1
    show ?thesis
    proof (cases "\<exists>x. fp_close g = FuseReturned x")
      case False
      with 1 show ?thesis using closing [OF close_moved [OF assms(4,5) 1]] by blast
    next
      case True
      with 1 obtain mErr where m: "fp_close f = FuseDrained mErr"
        by (auto elim: fuse_close_step.cases)
      let ?x = "nonempty (closeErrors conf None mErr (sv_connCount (fw_server s)))"
      obtain q where "run_deferred conf ?x e DoClose ((fw_run s)\<lparr>rn_defers := ds, rn_done := rn_done (fw_run s) @ [DoClose]\<rparr>) = Ok q"
        by simp
      from closing [OF close_returned [OF r assms(5) m refl this]] show ?thesis .
    qed
  next
    case 2
    then obtain i where i: "i < length (fw_sockets s)" "fw_sockets s ! i = ss_socket ss" "sm_inst (fw_sockets s ! i) = inst"
      "fw_keepers s ! i = Registered"
      using assms(2,5) unfolding registry_served_def served_registry_def by blast
    show ?thesis
    proof (cases "sv_loops (fw_server s) ! i")
      case None
      let ?t = "s\<lparr>fw_server := (fw_server s)\<lparr>sv_loops := (sv_loops (fw_server s))[i := Some EOF]\<rparr>\<rparr>"
      have "fuse_socket_step (wd_sys w) conf s ?t"
        by (intro ended [OF assms(5)]) (use i(1) len None in \<open>simp_all add: is_timeout_def library_error_def\<close>)
      moreover have "Suc (running_loops ?t) = running_loops s" using i(1) len None by (intro running_loops_ended) simp_all
      ultimately show ?thesis using i(1,2) len None 2(2) assms(5) by (intro moved [of ?t f i]) auto
    next
      case (Some e'')
      let ?h = "f\<lparr>fp_client := remove_socket inst e'' (fp_client f)\<rparr>"
      let ?t = "s\<lparr>fw_keepers := (fw_keepers s)[i := Removed],
          fw_run := (if fm_serving (cl_fuse (fp_client f)) = Waiting then send FromServe e'' (fw_run s) else fw_run s),
          fw_proc := Some ?h\<rparr>"
      have "fuse_socket_step (wd_sys w) conf s ?t"
        using taken_out [OF assms(5) _ Some i(4), of "wd_sys w" conf] i(1,3) len by simp
      moreover have "fuse_remaining ?h < fuse_remaining f" using fg(2) 2(3) by simp
      ultimately show ?thesis using i len Some by (intro moved [of ?t ?h i]) (auto simp: send_def)
    qed
  next
    case 3
    then obtain i where i: "i < length (fw_keepers s)" "fw_keepers s ! i = Removed" "sv_loops (fw_server s) ! i \<noteq> None"
      using leaving_keeper [OF keepers] by blast
    let ?t = "s\<lparr>fw_keepers := (fw_keepers s)[i := Gone], fw_proc := Some g\<rparr>"
    have "fuse_socket_step (wd_sys w) conf s ?t" using left_group [OF assms(5) i(1,2)] 3(2) by simp
    then show ?thesis using i len fg(2) by (intro moved [of ?t g i]) auto
  qed
qed

text \<open>No step adds to what is left.\<close>

lemma fuse_exit_left_step:
  assumes "fuse_system_step w conf s t" and "fuse_system_inv w conf os0 s" and "cf_FUSEDir conf \<noteq> []"
    and "fw_proc s = Some f" and "offline f" and e: "rn_main (fw_run s) \<in> {Sleeping e, Returning e, Exited e}"
  shows "\<exists>g. fw_proc t = Some g \<and> offline g \<and> fuse_exit_left t \<le> fuse_exit_left s"
proof -
  note inv = fuse_system_invD [OF assms(2)]
  note client = fuse_system_client(1) [OF inv(2) assms(4,3)]
  have run: "rn_main (fw_run t) = rn_main (fw_run s) \<and> rn_defers (fw_run t) = rn_defers (fw_run s)"
    if "fw_run t = fw_run s \<or> other_step conf (fw_run s) (fw_run t)"
    using that other_step_frame e by fastforce
  have same: ?thesis if "fw_run t = fw_run s \<or> other_step conf (fw_run s) (fw_run t)" "fw_proc t = Some g"
      "g = f \<or> fuse_proc_step (wd_sys w) (wd_fuse w) conf f g" "running_loops t \<le> running_loops s" for g
    using that run [OF that(1)] fuse_exit_left_frame [of t s f g] assms(4,5) offline_step [OF client assms(5)] by auto
  show ?thesis using assms(1)
  proof (cases rule: fuse_system_step_cases)
    case start
    then show ?thesis
    proof (cases rule: fuse_start_step.cases)
      case (wrapper r)
      then show ?thesis
        using fuse_exit_left_main [OF main_step_remaining main_step_defers] e assms(4,5) by (fastforce intro: less_imp_le)
    next
      case (beside r)
      then show ?thesis using same [of f] assms(4) by simp
    next
      case cancelled
      then show ?thesis using fuse_exit_left_frame [of t s f f] assms(4,5) by (simp add: cancel_ctx_def)
    qed (use inv(2) assms(4) in \<open>auto simp: fuse_client_ok_def\<close>)
  next
    case serve
    obtain g where "fw_proc t = Some g" "fuse_proc_step (wd_sys w) (wd_fuse w) conf f g"
      using fuse_serve_step_proc [OF serve assms(4)] by blast
    moreover have "fw_server t = fw_server s" using serve by (auto elim: fuse_serve_step.cases)
    ultimately show ?thesis using same [of g] fuse_serve_step_run [OF serve inv(2) assms(3)] by (simp add: running_loops_def)
  next
    case socket
    have "loops_ok (registry f) (fw_sockets s) (fw_keepers s)"
      "keepers_ok (length (fw_sockets s)) (fm_leaving (cl_fuse (fp_client f))) (sv_loops (fw_server s)) (fw_keepers s)"
      using inv(2) assms(4) by (simp_all add: fuse_client_ok_def)
    from fuse_socket_step_proc [OF socket assms(4) this inv(4), of "wd_fuse w"] same fuse_socket_step_run [OF socket inv(2)]
      offline_running [OF socket assms(4,5)]
    show ?thesis by blast
  next
    case closing
    obtain g where "fw_proc t = Some g" "fuse_close_step (wd_sys w) conf f g"
      using fuse_closing_step_proc [OF closing assms(4)] by blast
    with closing_step_left [OF closing assms(4)] close_step_left(2) [of "wd_sys w" conf f g] assms(5) show ?thesis
      by (auto intro: less_imp_le)
  qed
qed

lemma fuse_system_reason:
  assumes "fuse_system_step w conf s t" and "fuse_system_inv w conf os0 s" and "cf_FUSEDir conf \<noteq> []"
    and e: "rn_main (fw_run s) \<in> {Sleeping e, Returning e, Exited e}"
  shows "\<exists>e'. rn_main (fw_run t) \<in> {Sleeping e', Returning e', Exited e'}"
proof -
  consider "fw_run t = fw_run s" | "main_step conf (fw_run s) (fw_run t)" | "other_step conf (fw_run s) (fw_run t)"
    | "fw_run t = cancel_ctx (fw_run s)"
    using fuse_system_step_run [OF assms(1) fuse_system_invD(2) [OF assms(2)] assms(3)] by (auto simp: env_step_def run_step_def)
  then show ?thesis
  proof cases
    case 2
    then show ?thesis using main_step_phase e by blast
  next
    case 3
    then show ?thesis using other_step_frame e by fastforce
  qed (use e in \<open>auto simp: cancel_ctx_def\<close>)
qed

section \<open>Properties\<close>

text \<open>
  C26. With FUSE, once a reason to stop is known and the directory is offline, unmounted or not mounted
  at all, the process gets to its exit, \<open>Close\<close> with its wait for the sockets' goroutines included:
  \<open>fuse_exit_left\<close> counts the steps left; they are steps of the main goroutine, ends of accept loops
  whose listeners it has closed, and what their goroutines then do; the next is always available, no step of any goroutine adds
  to them or brings the directory back; and when none is left the process has exited.
\<close>

theorem fuse_process_exits:
  assumes "(fuse_system_step w conf)\<^sup>*\<^sup>* (init_fuse_system os0) s" and "cf_FUSEDir conf \<noteq> []" and "rn_reason (fw_run s) \<noteq> None"
    and "fw_proc s = Some f" and "offline f"
  shows "(if fuse_exit_left s = 0 then \<exists>e. rn_main (fw_run s) = Exited e
      else \<exists>t. fuse_forced w conf s t \<and> fuse_exit_left t < fuse_exit_left s)
    \<and> (\<forall>t. fuse_system_step w conf s t \<longrightarrow>
         rn_reason (fw_run t) \<noteq> None \<and> (\<exists>g. fw_proc t = Some g \<and> offline g \<and> fuse_exit_left t \<le> fuse_exit_left s))"
proof (intro conjI allI impI)
  have inv: "fuse_system_inv w conf os0 s" using assms(1,2) by (rule fuse_system_reachable)
  note run = fuse_system_invD(1) [OF inv]
  obtain e where e: "rn_main (fw_run s) \<in> {Sleeping e, Returning e, Exited e}" using reason_phase [OF run assms(3)] by blast
  show "if fuse_exit_left s = 0 then \<exists>e. rn_main (fw_run s) = Exited e
      else \<exists>t. fuse_forced w conf s t \<and> fuse_exit_left t < fuse_exit_left s"
  proof (cases "in_close (fw_run s)")
    case True
    with fuse_closing_progress [OF inv registry_served_reachable [OF assms(1,2)] assms(2) _ assms(4,5)] show ?thesis by auto
  next
    case False
    show ?thesis
    proof (cases "remaining (fw_run s) = 0")
      case True
      then have "rn_main (fw_run s) = Exited e" using e by (auto simp: remaining_def)
      moreover have "rn_defers (fw_run s) = []" using run_invD(2) [OF run] calculation by simp
      ultimately show ?thesis using True assms(4) by (simp add: fuse_exit_left_def)
    next
      case active: False
      then obtain r where r: "main_step conf (fw_run s) r" "remaining r < remaining (fw_run s)" using main_progress [OF run] by auto
      with fuse_exit_left_main [OF r(2) main_step_defers [OF r(1) e]] False active show ?thesis by (auto simp: fuse_forced_def)
    qed
  qed
  fix t assume t: "fuse_system_step w conf s t"
  show "\<exists>g. fw_proc t = Some g \<and> offline g \<and> fuse_exit_left t \<le> fuse_exit_left s"
    using fuse_exit_left_step [OF t inv assms(2,4,5) e] .
  have "run_inv conf (fw_run t)" using fuse_system_invD(1) [OF fuse_system_step_inv [OF assms(2) inv t]] .
  then show "rn_reason (fw_run t) \<noteq> None"
    using fuse_system_reason [OF t inv assms(2) e] phase_reason by blast
qed

theorem fuse_process_exits_witness:
  "\<exists>s t. fuse_exit_left s = 3 \<and> fuse_forced sample_world fuse_sample s t \<and> fuse_exit_left t < 3"
proof -
  obtain cm ck where s: "(fuse_system_step sample_world fuse_sample)\<^sup>*\<^sup>* (init_fuse_system (init_os [''/f'']))
    (sample_mounted cm ck)" "fm_fuseSockets (cl_fuse cm) = []" "fm_fuseServer (cl_fuse cm)" "fm_leaving (cl_fuse cm) = 0" by (rule fuse_sample_serving)
  let ?f = "\<lparr>fp_client = cm, fp_os = fuse_sample_os, fp_mounted = True, fp_close = FuseOpen\<rparr>"
  let ?g = "?f\<lparr>fp_mounted := False, fp_close := FuseReturned None\<rparr>"
  note shut = fuse_interrupted [OF s(1), of "[DoCancel, DoCleanup]" ?f]
  then obtain u q where u: "(fuse_system_step sample_world fuse_sample)\<^sup>*\<^sup>* (init_fuse_system (init_os [''/f''])) u"
    "fuse_closing_step (wd_sys sample_world) fuse_sample u ((sample_mounted cm ck)\<lparr>fw_run := q, fw_proc := Some ?g\<rparr>)"
    and q: "rn_main q = Returning errSigInt" "rn_defers q = [DoCancel, DoCleanup]"
    using s(2-4) by (auto simp: fuse_mounted_def fuse_up_def up_run_def run_simps init_server_def)
  define t where "t = (sample_mounted cm ck)\<lparr>fw_run := q, fw_proc := Some ?g\<rparr>"
  have t: "(fuse_system_step sample_world fuse_sample)\<^sup>*\<^sup>* (init_fuse_system (init_os [''/f''])) t"
    using u unfolding t_def by (meson fuse_system_step_def rtranclp.rtrancl_into_rtrancl)
  have "fuse_proc_inv ?f"
    using fuse_system_client(1) [OF fuse_system_invD(2) [OF fuse_system_reachable [OF s(1)]], of ?f] by (simp add: fuse_mounted_def)
  then have "offline ?g" by (auto simp: offline_def fuse_proc_inv_def)
  moreover have "rn_reason (fw_run t) \<noteq> None"
    using phase_reason [OF fuse_system_invD(1) [OF fuse_system_reachable [OF t]], of errSigInt] q(1) by (simp add: t_def)
  moreover have "fw_proc t = Some ?g" and left: "fuse_exit_left t = 3" using q by (simp_all add: t_def fuse_exit_left_def remaining_def)
  ultimately obtain v where "fuse_forced sample_world fuse_sample t v" "fuse_exit_left v < fuse_exit_left t"
    using fuse_process_exits [OF t, of ?g] by auto
  with left show ?thesis by (metis (full_types))
qed

end
