(* ===== verification/Shutdown_Time.thy ===== *)
theory Shutdown_Time
  imports Cmd_Run Client
begin

text \<open>
  The shutdown in explicit time, in nanoseconds since \<open>runSignalWrapper\<close> has received the reason: the
  sleep of \<open>--min-sigterm-delay\<close> (cmd/root.go), then the wait loop of \<open>Close\<close> (internal/proxy/proxy.go)
  with its ticker and the timer of \<open>--max-sigterm-delay\<close>. \<open>counter\<close> gives the connection counter at each
  time. The calls themselves are taken to need no time.
\<close>

section \<open>Definitions\<close>

text \<open>How long the main goroutine sleeps before its deferred calls; a negative duration is no sleep.\<close>

definition sleepTime :: "Config \<Rightarrow> go_error \<Rightarrow> int" where
  "sleepTime conf e = (case afterReceive e of Sleeping _ \<Rightarrow> max 0 (cf_WaitBeforeClose conf) | _ \<Rightarrow> 0)"

abbreviation tickTime :: int where
  "tickTime \<equiv> 100000000"

text \<open>
  The select loop at the next tick, due at \<open>t\<close> after the timer was started, with the timer due at
  \<open>wait\<close>: what it sees until it is left, and when. If both are due at once, \<open>select\<close> may take either
  (\<open>tie\<close>: the tick). A timer for no or a negative duration is due at once.
\<close>

function closeEvents :: "(int \<Rightarrow> uint64) \<Rightarrow> bool \<Rightarrow> int \<Rightarrow> int \<Rightarrow> close_event list \<times> int" where
  "closeEvents counter tie wait t =
     (if t < wait \<or> (t = wait \<and> tie)
      then if 0 < counter t
           then (case closeEvents counter tie wait (t + tickTime) of (es, t') \<Rightarrow> (Tick (counter t) # es, t'))
           else ([Tick (counter t)], t)
      else ([Timeout], max 0 wait))"
  by pat_completeness auto
termination
  by (relation "measure (\<lambda>(_, _, wait, t). nat (wait + 1 - t))") auto

declare closeEvents.simps [simp del]

text \<open>From the reason to the end of the wait loop: the sleep, then the loop, whose first tick is one interval away.\<close>

definition closeWait :: "Config \<Rightarrow> go_error \<Rightarrow> (int \<Rightarrow> uint64) \<Rightarrow> bool \<Rightarrow> close_event list \<times> int" where
  "closeWait conf e counter tie =
     (let t0 = sleepTime conf e in
      case closeEvents (\<lambda>t. counter (t0 + t)) tie (cf_WaitOnClose conf) tickTime of (es, t) \<Rightarrow> (es, t0 + t))"

section \<open>Facts about the wait loop\<close>

lemma closeEvents_cases:
  obtains (again) es t' where "t < wait \<or> t = wait \<and> tie" "0 < counter t" "closeEvents counter tie wait (t + tickTime) = (es, t')"
    "closeEvents counter tie wait t = (Tick (counter t) # es, t')"
  | (drained) "t \<le> wait" "counter t = 0" "closeEvents counter tie wait t = ([Tick 0], t)"
  | (expired) "wait \<le> t" "closeEvents counter tie wait t = ([Timeout], max 0 wait)"
proof (cases "t < wait \<or> (t = wait \<and> tie)")
  case True
  obtain es t' where r: "closeEvents counter tie wait (t + tickTime) = (es, t')" by fastforce
  show thesis
  proof (cases "counter t = 0")
    case True
    with \<open>t < wait \<or> (t = wait \<and> tie)\<close> show thesis by (intro drained) (auto simp: closeEvents.simps [of _ _ wait t])
  next
    case False
    with \<open>t < wait \<or> (t = wait \<and> tie)\<close> r show thesis
      by (intro again [OF _ _ r]) (auto simp: closeEvents.simps [of _ _ wait t] word_gt_0)
  qed
next
  case False
  then show thesis by (intro expired) (auto simp: closeEvents.simps [of _ _ wait t])
qed

lemma closeEvents_facts:
  assumes "closeEvents counter tie wait t = (es, t')" and "0 < t"
  shows "waitLoop es \<noteq> None" and "0 \<le> t'" and "t' \<le> max 0 wait" and "t' \<noteq> max 0 wait \<Longrightarrow> counter t' = 0"
    and "(int (length es) - 1) * tickTime \<le> max 0 (wait - t + tickTime)"
proof -
  have "waitLoop es \<noteq> None \<and> 0 \<le> t' \<and> t' \<le> max 0 wait \<and> (t' \<noteq> max 0 wait \<longrightarrow> counter t' = 0)
      \<and> (int (length es) - 1) * tickTime \<le> max 0 (wait - t + tickTime)"
    using assms
  proof (induction counter tie wait t arbitrary: es t' rule: closeEvents.induct)
    case (1 counter tie wait t)
    show ?case
    proof (cases rule: closeEvents_cases [of t wait tie counter])
      case (again es' u)
      then show ?thesis using "1.IH" [OF again(1,2,3)] "1.prems" by auto
    qed (use "1.prems" in auto)
  qed
  then show "waitLoop es \<noteq> None" "0 \<le> t'" "t' \<le> max 0 wait" "t' \<noteq> max 0 wait \<Longrightarrow> counter t' = 0"
    "(int (length es) - 1) * tickTime \<le> max 0 (wait - t + tickTime)" by blast+
qed

lemma closeEvents_drained:
  assumes "closeEvents counter tie wait t = (es, t')" and "0 < t" and "\<And>v. u \<le> v \<Longrightarrow> counter v = 0"
  shows "t' \<le> max t (u + tickTime)"
  using assms
proof (induction counter tie wait t arbitrary: es t' rule: closeEvents.induct)
  case (1 counter tie wait t)
  show ?case
  proof (cases rule: closeEvents_cases [of t wait tie counter])
    case (again es' v)
    then have "t < u" using "1.prems"(3) [of t] by (auto intro: ccontr)
    then show ?thesis using "1.IH" [OF again(1,2,3) _ "1.prems"(3)] again "1.prems"(1,2) by auto
  qed (use "1.prems" in auto)
qed

section \<open>Properties\<close>

text \<open>
  C14. \<open>--min-sigterm-delay\<close> and \<open>--max-sigterm-delay\<close>: \<open>Close\<close> returns, its wait loop ending no sooner than
  the first after a signal or \<open>quitquitquit\<close> and no later than the second after that, with at most
  one event more than there are ticks in it. If the connections have drained by some time \<open>u\<close>, it
  ends one tick after \<open>u\<close> at the latest, or at the first tick if \<open>u\<close> is earlier; and if \<open>u\<close> is not
  after the limit and nothing else fails, \<open>Close\<close> returns nil. Connections that are still open at the
  end are reported with their number, when the limit has passed and not before.
\<close>

theorem shutdown_delays:
  assumes "closeWait conf e counter tie = (es, t)" and "cl_conf c = conf" and "fm_fuseDir (cl_fuse c) = []"
  shows "(e \<in> {errSigInt, errSigTerm, errSigTermZero, errQuitQuitQuit} \<longrightarrow> cf_WaitBeforeClose conf \<le> t)
    \<and> sleepTime conf e \<le> t \<and> t \<le> sleepTime conf e + max 0 (cf_WaitOnClose conf)
    \<and> (int (length es) - 1) * tickTime \<le> max 0 (cf_WaitOnClose conf)
    \<and> (\<exists>r. Client_Close sys fe dErr rng es c2 (counter t) c s = Some r)
    \<and> (0 < cf_WaitOnClose conf \<and> 0 < counter t \<longrightarrow> t = sleepTime conf e + cf_WaitOnClose conf
        \<and> (\<exists>errs s'. Client_Close sys fe dErr rng es c2 (counter t) c s = Some (Some (MultiErr (errs @
             [ErrorString (show_nat (unat (counter t)) @ '' connection(s) still open after waiting '' @ duration_String (cf_WaitOnClose conf))])), s')))
    \<and> (\<forall>u. (\<forall>v. u \<le> v \<longrightarrow> counter v = 0) \<longrightarrow>
        t \<le> max (sleepTime conf e) u + tickTime
        \<and> (u \<le> sleepTime conf e + max 0 (cf_WaitOnClose conf) \<and> fst (closeMounts sys (cl_mnts c) s) = [] \<longrightarrow>
            (\<exists>s'. Client_Close sys fe None rng es c2 (counter t) c s = Some (None, s'))))"
proof -
  let ?W = "cf_WaitOnClose conf" and ?t0 = "sleepTime conf e"
  have r: "closeEvents (\<lambda>t. counter (?t0 + t)) tie ?W tickTime = (es, t - ?t0)"
    using assms(1) by (auto simp: closeWait_def Let_def split: prod.splits)
  note facts = closeEvents_facts [OF r]
  have ret: "\<exists>r. Client_Close sys fe dErr rng es c2 (counter t) c s = Some r"
    using facts(1) assms(3) by (auto simp: Client_Close_def Let_def split: prod.splits)
  have left: "t = ?t0 + ?W \<and> (\<exists>errs s'. Client_Close sys fe dErr rng es c2 (counter t) c s = Some (Some (MultiErr (errs @
      [ErrorString (show_nat (unat (counter t)) @ '' connection(s) still open after waiting '' @ duration_String ?W)])), s'))"
    if "0 < ?W \<and> 0 < counter t"
  proof (rule conjI)
    have "t - ?t0 = max 0 ?W" using facts(4) that by (auto simp: word_gt_0 intro: ccontr)
    with that show "t = ?t0 + ?W" by simp
  qed (use facts(1) assms(2,3) that in \<open>auto simp: Client_Close_def Let_def split: prod.splits\<close>)
  have "e \<in> {errSigInt, errSigTerm, errSigTermZero, errQuitQuitQuit} \<longrightarrow> cf_WaitBeforeClose conf \<le> ?t0"
    by (auto simp: sleepTime_def afterReceive_def)
  then have bounds: "e \<in> {errSigInt, errSigTerm, errSigTermZero, errQuitQuitQuit} \<longrightarrow> cf_WaitBeforeClose conf \<le> t"
    "?t0 \<le> t" "t \<le> ?t0 + max 0 ?W" "(int (length es) - 1) * tickTime \<le> max 0 ?W"
    using facts(2,3,5) by auto
  have drained: "t \<le> max ?t0 u + tickTime" if "\<forall>v. u \<le> v \<longrightarrow> counter v = 0" for u
    using closeEvents_drained [OF r, of "u - ?t0"] that by auto
  have "\<exists>s'. Client_Close sys fe None rng es c2 (counter t) c s = Some (None, s')"
    if "\<forall>v. u \<le> v \<longrightarrow> counter v = 0" "u \<le> ?t0 + max 0 ?W \<and> fst (closeMounts sys (cl_mnts c) s) = []" for u
  proof -
    have "counter t = 0" using facts(4) that by (cases "t - ?t0 = max 0 ?W") auto
    with facts(1) that(2) assms(3) show ?thesis by (auto simp: Client_Close_def Let_def opt_list_def split: prod.splits)
  qed
  with ret left bounds drained show ?thesis by blast
qed

text \<open>A connection ends 120 milliseconds into the wait loop; the second tick ends the loop.\<close>

definition slow_conf :: Config where
  "slow_conf = zero_Config\<lparr>cf_WaitBeforeClose := 1000000000, cf_WaitOnClose := 250000000\<rparr>"

definition slow_counter :: "int \<Rightarrow> uint64" where
  "slow_counter t = (if t < 1120000000 then 1 else 0)"

lemma slow_wait: "closeWait slow_conf errSigTerm slow_counter True = ([Tick 1, Tick 0], 1200000000)"
  by (simp add: closeWait_def closeEvents.simps slow_conf_def slow_counter_def sleepTime_def afterReceive_def Let_def)

theorem shutdown_delays_witness:
  "\<exists>c s s'. os_listeners s = [(0, ''tcp'', '':1'')]
     \<and> Client_Close (plain_sys (\<lambda>_. [])) no_fuse None id [Tick 1, Tick 0] c (slow_counter 1200000000) c s = Some (None, s')"
proof -
  let ?c = "(fuse_client slow_conf)\<lparr>cl_mnts := [sample_mount]\<rparr>"
  let ?s = "(init_os [])\<lparr>os_listeners := [(0, ''tcp'', '':1'')]\<rparr>"
  have c: "cl_conf ?c = slow_conf" "fm_fuseDir (cl_fuse ?c) = []"
    by (simp_all add: fuse_client_def slow_conf_def zero_Config_def)
  have "fst (closeMounts (plain_sys (\<lambda>_. [])) (cl_mnts ?c) ?s) = []"
    by (simp add: sample_mount_def socketMount_Close_def ln_Close_def plain_sys_def)
  moreover have "\<forall>v. 1120000000 \<le> v \<longrightarrow> slow_counter v = 0" by (simp add: slow_counter_def)
  moreover have "1120000000 \<le> sleepTime slow_conf errSigTerm + max 0 (cf_WaitOnClose slow_conf)"
    by (simp add: slow_conf_def sleepTime_def afterReceive_def)
  ultimately obtain s' where "Client_Close (plain_sys (\<lambda>_. [])) no_fuse None id [Tick 1, Tick 0] ?c (slow_counter 1200000000) ?c ?s = Some (None, s')"
    using shutdown_delays [OF slow_wait c, of "plain_sys (\<lambda>_. [])" no_fuse None id ?c ?s] by blast
  then show ?thesis by (intro exI [of _ ?c] exI [of _ ?s] exI [of _ s'] conjI) simp_all
qed

end
