(* ===== verification/Platform.thy ===== *)
theory Platform
  imports Client Cmd_Config
begin

text \<open>
  The platforms without FUSE (internal/proxy/fuse_windows.go, fuse_openbsd.go, fuse_freebsd.go):
  the stubs that stand for the FUSE operations there, and the socket addresses of Windows. On
  these platforms no accepted configuration asks for FUSE, so no stub is ever reached.
\<close>

section \<open>Stubs\<close>

text \<open>The operations proxy.go calls; \<open>waitForFUSEMounts\<close> returns at once.\<close>

record fuse_stub =
  st_SupportsFUSE :: "go_error option"
  st_configureFUSE :: "Client \<Rightarrow> Config \<Rightarrow> Client outcome"
  st_fuseMounts :: "Client \<Rightarrow> socketMount list"
  st_serveFuse :: "Client \<Rightarrow> go_error"
  st_unmountFUSE :: "Client \<Rightarrow> go_error option"
  st_waitForFUSEMounts :: "Client \<Rightarrow> bool"

definition fuse_windows :: fuse_stub where
  "fuse_windows = (let errFUSENotSupported = ErrorString ''FUSE is not supported on Windows'' in
     \<lparr>st_SupportsFUSE = Some errFUSENotSupported, st_configureFUSE = (\<lambda>_ _. Err errFUSENotSupported),
      st_fuseMounts = (\<lambda>_. []), st_serveFuse = (\<lambda>_. errFUSENotSupported), st_unmountFUSE = (\<lambda>_. None),
      st_waitForFUSEMounts = (\<lambda>_. True)\<rparr>)"

definition fuse_openbsd :: fuse_stub where
  "fuse_openbsd = (let errFUSENotSupported = ErrorString ''FUSE is not supported on OpenBSD'' in
     \<lparr>st_SupportsFUSE = Some errFUSENotSupported, st_configureFUSE = (\<lambda>_ _. Err errFUSENotSupported),
      st_fuseMounts = (\<lambda>_. []), st_serveFuse = (\<lambda>_. errFUSENotSupported), st_unmountFUSE = (\<lambda>_. None),
      st_waitForFUSEMounts = (\<lambda>_. True)\<rparr>)"

definition fuse_freebsd :: fuse_stub where
  "fuse_freebsd = (let errFUSENotSupported = ErrorString ''FUSE is not supported on FreeBSD'' in
     \<lparr>st_SupportsFUSE = Some errFUSENotSupported, st_configureFUSE = (\<lambda>_ _. Err errFUSENotSupported),
      st_fuseMounts = (\<lambda>_. []), st_serveFuse = (\<lambda>_. errFUSENotSupported), st_unmountFUSE = (\<lambda>_. None),
      st_waitForFUSEMounts = (\<lambda>_. True)\<rparr>)"

section \<open>Socket addresses on Windows\<close>

text \<open>\<open>join\<close> is \<open>filepath.Join\<close> of that platform. A colon is not allowed in a Windows file name.\<close>

definition UnixAddress_windows :: "(string \<Rightarrow> string \<Rightarrow> string) \<Rightarrow> string \<Rightarrow> string \<Rightarrow> string" where
  "UnixAddress_windows join d inst = (let inst2 = replacec (CHR '':'') (CHR ''.'') inst in join d inst2)"

section \<open>What a stub platform promises\<close>

text \<open>
  The contract of a platform without FUSE: it says so, and configuring FUSE fails with the same
  error. From it follows that an accepted configuration never reaches the stubs.
\<close>

locale no_fuse_platform =
  fixes stub :: fuse_stub
  assumes unsupported: "st_SupportsFUSE stub \<noteq> None"
    and configure_fails: "st_SupportsFUSE stub = Some e \<Longrightarrow> st_configureFUSE stub c conf = Err e"
    and serve_fails: "st_SupportsFUSE stub = Some e \<Longrightarrow> st_serveFuse stub c = e"
begin

lemma accepted_without_fuse:
  assumes "parseConfig (st_SupportsFUSE stub) u c args = Ok c'"
  shows "cf_FUSEDir (cm_conf c') = []"
proof -
  have "cf_FUSEDir (cm_conf c) = []"
    using flagRules_Ok(4) [OF parseConfig_steps(1) [OF assms]] unsupported by blast
  then show ?thesis
    using parseConfig_steps(2) [OF assms] same_settings_fields(11) [OF same_settings_parsed] by fastforce
qed

lemma loaded_without_fuse:
  assumes "loadConfig pf rd v env (st_SupportsFUSE stub) u c args opts = Some (Ok c')"
  shows "cf_FUSEDir (cm_conf c') = []"
  using assms accepted_without_fuse by (auto simp: loadConfig_def bind_eq_Some_conv split: outcome.splits)

end

interpretation windows: no_fuse_platform fuse_windows
  by unfold_locales (auto simp: fuse_windows_def Let_def)

interpretation openbsd: no_fuse_platform fuse_openbsd
  by unfold_locales (auto simp: fuse_openbsd_def Let_def)

interpretation freebsd: no_fuse_platform fuse_freebsd
  by unfold_locales (auto simp: fuse_freebsd_def Let_def)

section \<open>Facts\<close>

lemma SupportsFUSE_stubs:
  "st_SupportsFUSE fuse_windows = SupportsFUSE_windows" "st_SupportsFUSE fuse_openbsd = SupportsFUSE_openbsd"
  "st_SupportsFUSE fuse_freebsd = SupportsFUSE_freebsd"
  by (simp_all add: fuse_windows_def fuse_openbsd_def fuse_freebsd_def SupportsFUSE_windows_def
      SupportsFUSE_openbsd_def SupportsFUSE_freebsd_def Let_def)

lemma replacec_free: "a \<noteq> b \<Longrightarrow> a \<notin> set (replacec a b s)"
  by (auto simp: replacec_def)

lemma replacec_inj:
  assumes "b \<notin> set s" and "b \<notin> set t" and "replacec a b s = replacec a b t"
  shows "s = t"
  using assms
proof (induction s arbitrary: t)
  case (Cons x s)
  then show ?case by (cases t) (auto simp: replacec_def split: if_splits)
qed (simp add: replacec_def)

section \<open>Properties\<close>

text \<open>
  On Windows two instances get different sockets in the same directory if their names
  contain no period, provided the platform's join keeps different names apart, and the file
  name contains no colon. With periods they may share one, as in \<open>a.b:r:i\<close> and \<open>a:b.r:i\<close>.
\<close>

theorem UnixAddress_windows_distinct:
  assumes "\<And>x y. join d x = join d y \<Longrightarrow> x = y" and "CHR ''.'' \<notin> set i" and "CHR ''.'' \<notin> set j" and "i \<noteq> j"
  shows "UnixAddress_windows join d i \<noteq> UnixAddress_windows join d j
    \<and> (\<exists>name. UnixAddress_windows join d i = join d name \<and> CHR '':'' \<notin> set name)
    \<and> UnixAddress_windows join d ''a.b:r:i'' = UnixAddress_windows join d ''a:b.r:i''"
proof (intro conjI)
  show "UnixAddress_windows join d i \<noteq> UnixAddress_windows join d j"
    using assms replacec_inj [of "CHR ''.''" i j "CHR '':''"] by (auto simp: UnixAddress_windows_def)
  show "\<exists>name. UnixAddress_windows join d i = join d name \<and> CHR '':'' \<notin> set name"
    by (intro exI [of _ "replacec (CHR '':'') (CHR ''.'') i"]) (simp add: UnixAddress_windows_def replacec_free)
qed (simp add: UnixAddress_windows_def replacec_def)

theorem UnixAddress_windows_distinct_witness:
  "UnixAddress_windows (\<lambda>d x. d @ [CHR 0x5C] @ x) ''C'' ''p:r:i'' \<noteq> UnixAddress_windows (\<lambda>d x. d @ [CHR 0x5C] @ x) ''C'' ''p:r:j''"
  using UnixAddress_windows_distinct [of "\<lambda>d x. d @ [CHR 0x5C] @ x" "''C''" "''p:r:i''" "''p:r:j''"] by simp

end
