(* ===== verification/Windows_Service.thy ===== *)
theory Windows_Service
  imports Cmd_Shutdown Platform
begin

text \<open>
  The Windows service (main_windows.go): \<open>windowsService.Execute\<close>, which runs the command in a
  goroutine under a cancellable context and answers the service control manager, and \<open>main\<close>. The
  command's goroutine is the run of \<open>Cmd_Run\<close>, preceded by \<open>loadConfig\<close>; a step is one action of the
  service loop or of a goroutine of the command. The log file is left out.
\<close>

section \<open>State\<close>

text \<open>
  A status is a service state with the controls it accepts. The control manager may also
  send statuses of its own, which are echoed.
\<close>

datatype svc_state = StartPending | Running | StopPending | OtherState nat

datatype accepts = AcceptStop | AcceptShutdown

type_synonym svc_status = "svc_state \<times> accepts list"

datatype change_request = Interrogate svc_status | Stop | Shutdown | OtherCmd nat

text \<open>The goroutine of the command: parsing its arguments, running, or its result is in \<open>cmdErrCh\<close>.\<close>

datatype app = Loading | Executing Config run | CmdDone "go_error option"

text \<open>\<open>Returned specific code\<close> is what \<open>Execute\<close> returns to the control manager.\<close>

datatype svc_phase = InLoop | Returned bool nat

record service =
  ws_phase :: svc_phase
  ws_changes :: "svc_status list"
  ws_cancelled :: bool
  ws_app :: app

section \<open>Operations\<close>

text \<open>\<open>exePath\<close> is the result of \<open>os.Executable\<close>.\<close>

definition Execute_start :: "string outcome \<Rightarrow> service" where
  "Execute_start exePath =
     (case exePath of
        Ok _ \<Rightarrow> \<lparr>ws_phase = InLoop, ws_changes = [(StartPending, []), (Running, [AcceptStop, AcceptShutdown])],
          ws_cancelled = False, ws_app = Loading\<rparr>
      | _ \<Rightarrow> \<lparr>ws_phase = Returned True 101, ws_changes = [(StartPending, []), (StopPending, [])],
          ws_cancelled = False, ws_app = Loading\<rparr>)"

text \<open>Cancelling the context reaches the command's own context at once.\<close>

fun cancel_app :: "app \<Rightarrow> app" where
  "cancel_app (Executing conf r) = Executing conf (cancel_ctx r)"
| "cancel_app a = a"

fun handle_request :: "change_request \<Rightarrow> service \<Rightarrow> service" where
  "handle_request (Interrogate st) s = s\<lparr>ws_changes := ws_changes s @ [st, st]\<rparr>"
| "handle_request Stop s = s\<lparr>ws_cancelled := True, ws_app := cancel_app (ws_app s)\<rparr>"
| "handle_request Shutdown s = s\<lparr>ws_cancelled := True, ws_app := cancel_app (ws_app s)\<rparr>"
| "handle_request (OtherCmd n) s = s"

text \<open>\<open>errors.Is(cmdErr, context.Canceled)\<close>: neither \<open>exitError\<close> nor \<open>MultiErr\<close> can be unwrapped.\<close>

definition svc_result :: "go_error option \<Rightarrow> svc_phase" where
  "svc_result cmdErr = (if cmdErr = Some Canceled then Returned True 2 else Returned False 0)"

definition finish :: "go_error option \<Rightarrow> service \<Rightarrow> service" where
  "finish cmdErr s = s\<lparr>ws_changes := ws_changes s @ [(StopPending, [])], ws_phase := svc_result cmdErr,
     ws_cancelled := True\<rparr>"

text \<open>
  The steps. \<open>loaded\<close> is what \<open>loadConfig\<close> gives for the service's arguments, \<open>None\<close> if it does not
  return. The command library may also end the command itself, for \<open>--help\<close> or with an error
  about its flags.
\<close>

inductive svc_step :: "Command outcome option \<Rightarrow> service \<Rightarrow> service \<Rightarrow> bool" for loaded :: "Command outcome option" where
  helped: "ws_app s = Loading \<Longrightarrow> svc_step loaded s (s\<lparr>ws_app := CmdDone None\<rparr>)"
| misused: "ws_app s = Loading \<Longrightarrow> library_error e \<Longrightarrow> svc_step loaded s (s\<lparr>ws_app := CmdDone (Some e)\<rparr>)"
| rejected: "ws_app s = Loading \<Longrightarrow> loaded = Some (Err e) \<Longrightarrow> svc_step loaded s (s\<lparr>ws_app := CmdDone (Some e)\<rparr>)"
| accepted: "ws_app s = Loading \<Longrightarrow> loaded = Some (Ok c) \<Longrightarrow>
     svc_step loaded s (s\<lparr>ws_app := Executing (cm_conf c) (if ws_cancelled s then cancel_ctx init_run else init_run)\<rparr>)"
| running: "ws_app s = Executing conf r \<Longrightarrow> run_step conf r r' \<Longrightarrow> svc_step loaded s (s\<lparr>ws_app := Executing conf r'\<rparr>)"
| ended: "ws_app s = Executing conf r \<Longrightarrow> rn_main r = Exited e \<Longrightarrow> svc_step loaded s (s\<lparr>ws_app := CmdDone (Some e)\<rparr>)"
| request: "ws_phase s = InLoop \<Longrightarrow> svc_step loaded s (handle_request c s)"
| finished: "ws_phase s = InLoop \<Longrightarrow> ws_app s = CmdDone cmdErr \<Longrightarrow> svc_step loaded s (finish cmdErr s)"

text \<open>
  The process exit code of \<open>main\<close>: \<open>inService\<close> is what \<open>svc.IsWindowsService\<close> returns, \<open>run_err\<close> what
  \<open>svc.Run\<close> returns and \<open>code\<close> the exit code of the command line.
\<close>

definition main_windows :: "bool \<times> go_error option \<Rightarrow> go_error option \<Rightarrow> int \<Rightarrow> int" where
  "main_windows inService run_err code =
     (case inService of
        (_, Some _) \<Rightarrow> 99
      | (True, None) \<Rightarrow> (case run_err of Some _ \<Rightarrow> 100 | None \<Rightarrow> 0)
      | (False, None) \<Rightarrow> code)"

section \<open>Invariants\<close>

text \<open>
  The command's run keeps its invariant, its configuration is the loaded one, and no result is
  \<open>context.Canceled\<close>.
\<close>

fun app_ok :: "Command outcome option \<Rightarrow> bool \<Rightarrow> app \<Rightarrow> bool" where
  "app_ok loaded cancelled Loading \<longleftrightarrow> True"
| "app_ok loaded cancelled (Executing conf r) \<longleftrightarrow>
     (\<exists>c. loaded = Some (Ok c) \<and> conf = cm_conf c) \<and> (env_step conf)\<^sup>*\<^sup>* init_run r \<and> (cancelled \<longrightarrow> rn_ctx r)"
| "app_ok loaded cancelled (CmdDone err) \<longleftrightarrow> err \<noteq> Some Canceled"

definition loaded_windows :: "Command outcome option \<Rightarrow> bool" where
  "loaded_windows loaded \<longleftrightarrow>
     (\<forall>c. loaded = Some (Ok c) \<longrightarrow> cf_FUSEDir (cm_conf c) = []) \<and> (\<forall>e. loaded = Some (Err e) \<longrightarrow> e \<noteq> Canceled)"

lemma loadConfig_windows:
  "loaded_windows (loadConfig pf rd v env (st_SupportsFUSE fuse_windows) u c args opts)"
  using windows.loaded_without_fuse loadConfig_error by (fastforce simp: loaded_windows_def newBadCommandError_def)

definition echoes :: "svc_status list \<Rightarrow> bool \<Rightarrow> svc_status list \<Rightarrow> bool" where
  "echoes qs returned changes \<longleftrightarrow>
     changes = (StartPending, []) # (Running, [AcceptStop, AcceptShutdown]) # concat (map (\<lambda>q. [q, q]) qs)
       @ (if returned then [(StopPending, [])] else [])"

definition svc_inv :: "Command outcome option \<Rightarrow> service \<Rightarrow> bool" where
  "svc_inv loaded s \<longleftrightarrow>
     loaded_windows loaded \<and> app_ok loaded (ws_cancelled s \<and> ws_phase s = InLoop) (ws_app s)
     \<and> (\<exists>qs. echoes qs (ws_phase s \<noteq> InLoop) (ws_changes s))
     \<and> ws_phase s \<in> {InLoop, Returned False 0}
     \<and> (ws_phase s \<noteq> InLoop \<longrightarrow> (\<exists>err. ws_app s = CmdDone err))"

lemma svc_inv_start: "loaded_windows loaded \<Longrightarrow> svc_inv loaded (Execute_start (Ok exe))"
  by (auto simp: svc_inv_def Execute_start_def echoes_def intro: exI [of _ "[]"])

lemma exited_not_Canceled:
  assumes "(env_step conf)\<^sup>*\<^sup>* init_run r" and "rn_main r = Exited e" and "cf_FUSEDir conf = []"
  shows "e \<noteq> Canceled"
proof -
  obtain why where "reason_ok conf why" "e = why \<or> (\<exists>es. e = MultiErr es)"
    using exited_result [OF run_reachable_inv [OF assms(1)] assms(2)] by (metis (full_types))
  then show ?thesis using reason_codes(4) [of conf why] assms(3) by auto
qed

lemma env_steps_run: "(env_step conf)\<^sup>*\<^sup>* init_run r \<Longrightarrow> run_step conf r r' \<Longrightarrow> (env_step conf)\<^sup>*\<^sup>* init_run r'"
  by (meson env_step_def rtranclp.rtrancl_into_rtrancl)

lemma env_steps_cancel: "(env_step conf)\<^sup>*\<^sup>* init_run r \<Longrightarrow> (env_step conf)\<^sup>*\<^sup>* init_run (cancel_ctx r)"
  by (meson env_step_def rtranclp.rtrancl_into_rtrancl)

lemma ctx_deferred: "run_deferred conf closeErr e d r = Ok r' \<Longrightarrow> rn_ctx r \<Longrightarrow> rn_ctx r'"
  by (cases d) (auto simp: NotifyStopped_def close_chan_def split: if_splits)

lemma ctx_main: "main_step conf r r' \<Longrightarrow> rn_ctx r \<Longrightarrow> rn_ctx r'"
  by (induction rule: main_step.induct) (auto simp: spawnStart_def spawnServers_def dest: ctx_deferred)

lemma ctx_other: "other_step conf r r' \<Longrightarrow> rn_ctx r \<Longrightarrow> rn_ctx r'"
  by (induction rule: other_step.induct) (auto simp: send_def quitquitquit_def split: if_splits)

lemma ctx_stays: "run_step conf r r' \<Longrightarrow> rn_ctx r \<Longrightarrow> rn_ctx r'"
  by (auto simp: run_step_def intro: ctx_main ctx_other)

lemma svc_inv_step:
  assumes "svc_inv loaded s" and "svc_step loaded s t"
  shows "svc_inv loaded t"
  using assms(2,1)
proof (cases rule: svc_step.cases)
  case (rejected e)
  with assms(1) show ?thesis by (auto simp: svc_inv_def loaded_windows_def)
next
  case (accepted c)
  then show ?thesis using assms(1) env_steps_cancel [of "cm_conf c" init_run]
    by (auto simp: svc_inv_def cancel_ctx_def)
next
  case (running conf r r')
  then show ?thesis using assms(1) env_steps_run [of conf r r'] ctx_stays [of conf r r'] by (auto simp: svc_inv_def)
next
  case (ended conf r e)
  then have "(env_step conf)\<^sup>*\<^sup>* init_run r" "cf_FUSEDir conf = []"
    using assms(1) by (auto simp: svc_inv_def loaded_windows_def)
  from exited_not_Canceled [OF this(1) ended(3) this(2)] ended assms(1) show ?thesis by (auto simp: svc_inv_def)
next
  case (request c)
  show ?thesis
  proof (cases c)
    case (Interrogate st)
    obtain qs where "echoes qs False (ws_changes s)" using assms(1) request by (auto simp: svc_inv_def)
    then have "echoes (qs @ [st]) False (ws_changes s @ [st, st])" by (simp add: echoes_def)
    then show ?thesis using assms(1) request Interrogate by (auto simp: svc_inv_def)
  next
    case Stop
    then show ?thesis using assms(1) request env_steps_cancel
      by (cases "ws_app s") (auto simp: svc_inv_def cancel_ctx_def [of "_ :: run"])
  next
    case Shutdown
    then show ?thesis using assms(1) request env_steps_cancel
      by (cases "ws_app s") (auto simp: svc_inv_def cancel_ctx_def [of "_ :: run"])
  qed (use assms(1) request in simp)
next
  case (finished cmdErr)
  then obtain qs where "echoes qs False (ws_changes s)" using assms(1) by (auto simp: svc_inv_def)
  then have "echoes qs True (ws_changes s @ [(StopPending, [])])" by (simp add: echoes_def)
  then show ?thesis using assms(1) finished by (auto simp: svc_inv_def finish_def svc_result_def)
qed (use assms(1) in \<open>auto simp: svc_inv_def library_error_def\<close>)

interpretation service: step_invariant "svc_step loaded" "svc_inv loaded" for loaded
  by unfold_locales (rule svc_inv_step)

section \<open>A cancelled command stops\<close>

text \<open>
  As long as there is no reason to stop, the signal watcher is there to give one.
\<close>

definition watching :: "run \<Rightarrow> bool" where
  "watching r \<longleftrightarrow> (rn_main r \<in> {AtStart, Setup, ServersUp, AtShutdown} \<longrightarrow> rn_senders r FromSignal \<notin> {Unspawned, Sent})"

lemma watching_main: "main_step conf r r' \<Longrightarrow> watching r \<Longrightarrow> watching r'"
proof (induction rule: main_step.induct)
  case (deferred r e d ds closeErr r')
  then show ?case using run_deferred_shape [OF deferred(3)] by (auto simp: watching_def)
qed (auto simp: watching_def spawnStart_def spawnServers_def afterReceive_def)

lemma watching_other: "other_step conf r r' \<Longrightarrow> watching r \<Longrightarrow> watching r'"
proof (induction rule: other_step.induct)
  case (quit r meth status r')
  then show ?case by (auto simp: watching_def quitquitquit_def afterReceive_def split: if_splits)
qed (auto simp: watching_def send_def)

interpretation watcher: step_invariant "env_step conf" watching for conf
proof
  fix r r' assume "watching r" and "env_step conf r r'"
  then show "watching r'"
    by (auto elim!: env_step_cases intro: watching_main watching_other simp: watching_def [of "cancel_ctx _"] cancel_ctx_def)
      (auto simp: watching_def)
qed

lemma watching_reached: "(env_step conf)\<^sup>*\<^sup>* init_run r \<Longrightarrow> watching r"
  by (rule watcher.inv_steps) (auto simp: watching_def init_run_def)

text \<open>
  The steps a cancelled command has left: the watcher is to send, if it has not; the main goroutine
  is to get to where it receives, counted as at most five; and then \<open>remaining\<close>.
\<close>

definition stop_rank :: "run \<Rightarrow> nat" where
  "stop_rank r = (case rn_senders r FromSignal of Unspawned \<Rightarrow> 1 | Idle \<Rightarrow> 1 | _ \<Rightarrow> 0)
     + (if rn_reason r = None
        then 8 + (case rn_main r of Entry \<Rightarrow> 5 | AtStart \<Rightarrow> 3 | Setup \<Rightarrow> 2 | ServersUp \<Rightarrow> 1 | _ \<Rightarrow> 0)
        else remaining r)"

lemma remaining_quitOnce [simp]: "remaining (r\<lparr>rn_quitOnce := b\<rparr>) = remaining r"
  by (simp add: remaining_def cong: main_phase.case_cong)

lemma main_after_reason:
  assumes "main_step conf r r'" and "rn_main r \<in> {Sleeping e, Returning e, Exited e}"
  shows "rn_senders r' = rn_senders r \<and> rn_reason r' = rn_reason r"
  using assms
proof (cases rule: main_step.cases)
  case (deferred e' d ds closeErr)
  then show ?thesis by (cases d) (auto simp: NotifyStopped_def close_chan_def split: if_splits)
qed auto

lemma stop_rank_main:
  assumes "run_inv conf r" and "main_step conf r r'"
  shows "stop_rank r' < stop_rank r"
proof (cases "rn_reason r = None")
  case False
  then obtain e where e: "rn_main r \<in> {Sleeping e, Returning e, Exited e}" using reason_phase [OF assms(1)] by blast
  from main_step_remaining [OF assms(2) e] main_after_reason [OF assms(2) e] False show ?thesis by (auto simp: stop_rank_def)
next
  case True
  note left = remaining_le [OF run_inv_main [OF assms]]
  have "rn_main r \<notin> {Sleeping e, Returning e}" for e
    using run_invD(5) [OF assms(1)] True by (auto simp: result_ok_def)
  with assms(2) left True show ?thesis
    by (cases rule: main_step.cases) (auto simp: stop_rank_def spawnStart_def spawnServers_def split: sender.splits)
qed

lemma stop_rank_other:
  assumes "run_inv conf r" and "other_step conf r r'"
  shows "stop_rank r' \<le> stop_rank r"
  using assms(2)
proof (cases rule: other_step.cases)
  case (quit meth status)
  then show ?thesis
    using remaining_le [OF run_inv_other [OF assms]] run_invD(5) [OF assms(1)]
    by (auto simp: stop_rank_def quitquitquit_def result_ok_def split: if_splits)
qed (auto simp: stop_rank_def send_def remaining_def cong: main_phase.case_cong split: sender.splits)

text \<open>
  What a cancelled command does without anything from outside: the steps of its main goroutine, and of
  the signal watcher that takes the end of the context for a SIGINT.
\<close>

definition stop_step :: "Config \<Rightarrow> run \<Rightarrow> run \<Rightarrow> bool" where
  "stop_step conf r r' \<longleftrightarrow> main_step conf r r'
     \<or> rn_senders r FromSignal = Idle \<and> rn_ctx r \<and> r' = send FromSignal errSigInt r"

lemma stop_step_rank:
  assumes "run_inv conf r" and "stop_step conf r r'"
  shows "stop_rank r' < stop_rank r"
  using assms(2) stop_rank_main [OF assms(1), of r'] unfolding stop_step_def
  by (auto simp: stop_rank_def send_def remaining_def cong: main_phase.case_cong)

lemma stop_step_available:
  assumes "run_inv conf r" and "watching r" and "rn_ctx r" and "\<And>e. rn_main r \<noteq> Exited e"
  shows "\<exists>r'. stop_step conf r r'"
proof -
  have watcher: ?thesis if "rn_main r \<in> {AtStart, AtShutdown}"
    using that assms(2,3) interrupted [of r FromSignal _ conf] received [of r FromSignal _ conf]
    by (cases "rn_senders r FromSignal") (auto simp: stop_step_def watching_def)
  show ?thesis
  proof (cases "rn_main r")
    case Entry
    then show ?thesis using telemetry_off [OF Entry] telemetry_on [OF Entry] by (auto simp: stop_step_def)
  next
    case Setup
    then show ?thesis using servers_up [of r conf] by (auto simp: stop_step_def)
  next
    case ServersUp
    then show ?thesis using receive [of r conf] by (auto simp: stop_step_def)
  next
    case (Sleeping e)
    then show ?thesis using slept [of r e conf] by (auto simp: stop_step_def)
  next
    case (Returning e)
    then have "0 < remaining r" by (simp add: remaining_def)
    then show ?thesis using main_progress [OF assms(1)] by (auto simp: stop_step_def)
  qed (use watcher assms(4) in auto)
qed

text \<open>The same of the service: the steps left until \<open>Execute\<close> returns, and those that bring it there.\<close>

fun app_left :: "app \<Rightarrow> nat" where
  "app_left Loading = 17"
| "app_left (Executing conf r) = stop_rank r + 2"
| "app_left (CmdDone _) = 1"

definition stop_left :: "service \<Rightarrow> nat" where
  "stop_left s = (if ws_phase s = InLoop then app_left (ws_app s) else 0)"

inductive stopping_step :: "Command outcome option \<Rightarrow> service \<Rightarrow> service \<Rightarrow> bool" for loaded :: "Command outcome option" where
  load_rejected: "ws_app s = Loading \<Longrightarrow> loaded = Some (Err e) \<Longrightarrow> stopping_step loaded s (s\<lparr>ws_app := CmdDone (Some e)\<rparr>)"
| load_accepted: "ws_app s = Loading \<Longrightarrow> loaded = Some (Ok c) \<Longrightarrow>
     stopping_step loaded s (s\<lparr>ws_app := Executing (cm_conf c) (if ws_cancelled s then cancel_ctx init_run else init_run)\<rparr>)"
| stop: "ws_app s = Executing conf r \<Longrightarrow> stop_step conf r r' \<Longrightarrow> stopping_step loaded s (s\<lparr>ws_app := Executing conf r'\<rparr>)"
| command_ended: "ws_app s = Executing conf r \<Longrightarrow> rn_main r = Exited e \<Longrightarrow> stopping_step loaded s (s\<lparr>ws_app := CmdDone (Some e)\<rparr>)"
| service_ended: "ws_phase s = InLoop \<Longrightarrow> ws_app s = CmdDone cmdErr \<Longrightarrow> stopping_step loaded s (finish cmdErr s)"

lemma stopping_svc: "stopping_step loaded s t \<Longrightarrow> svc_step loaded s t"
proof (induction rule: stopping_step.induct)
  case (stop s conf r r')
  then have "run_step conf r r'" by (auto simp: stop_step_def run_step_def watcher_cancelled)
  with stop show ?case by (intro running)
qed (blast intro: svc_step.intros)+

lemma stopping_step_left:
  assumes "svc_inv loaded s" and "stopping_step loaded s t" and "ws_phase s = InLoop"
  shows "stop_left t < stop_left s"
  using assms(2)
proof (cases rule: stopping_step.cases)
  case (stop conf r r')
  then have "run_inv conf r" using assms(1) run_reachable_inv by (auto simp: svc_inv_def)
  from stop_step_rank [OF this stop(3)] show ?thesis using stop assms(3) by (simp add: stop_left_def)
next
  case (load_accepted c)
  then show ?thesis using assms(3) by (simp add: stop_left_def stop_rank_def init_run_def cancel_ctx_def)
qed (use assms(3) in \<open>auto simp: stop_left_def finish_def svc_result_def\<close>)

lemma svc_step_left:
  assumes "svc_inv loaded s" and "svc_step loaded s t"
  shows "stop_left t \<le> stop_left s"
  using assms(2)
proof (cases rule: svc_step.cases)
  case (running conf r r')
  show ?thesis
  proof (cases "ws_phase s = InLoop")
    case True
    then have "run_inv conf r" using assms(1) running(2) run_reachable_inv by (auto simp: svc_inv_def)
    then have "stop_rank r' \<le> stop_rank r"
      using running(3) stop_rank_main stop_rank_other by (auto simp: run_step_def intro: less_imp_le)
    then show ?thesis using running(1,2) by (simp add: stop_left_def)
  qed (use running(1) in \<open>simp add: stop_left_def\<close>)
next
  case (request c)
  have "app_left (cancel_app a) = app_left a" for a
    by (cases a) (simp_all add: stop_rank_def cancel_ctx_def remaining_def cong: main_phase.case_cong)
  then show ?thesis using request by (cases c) (simp_all add: stop_left_def)
next
  case (accepted c)
  then show ?thesis by (simp add: stop_left_def stop_rank_def init_run_def cancel_ctx_def)
qed (auto simp: stop_left_def finish_def svc_result_def)

lemma service_start_left:
  assumes "(svc_step loaded)\<^sup>*\<^sup>* (Execute_start (Ok exe)) s" and "loaded_windows loaded"
  shows "stop_left s \<le> 17"
  using assms(1)
proof (induction rule: rtranclp_induct)
  case base
  then show ?case by (simp add: Execute_start_def stop_left_def)
next
  case (step s t)
  then show ?case using svc_step_left [OF service.inv_steps [OF step.hyps(1) svc_inv_start [OF assms(2)]] step.hyps(2)] by simp
qed

lemma cancelled_stays: "svc_step loaded s t \<Longrightarrow> ws_cancelled s \<Longrightarrow> ws_cancelled t"
proof (induction rule: svc_step.induct)
  case (request s c)
  then show ?case by (cases c) simp_all
qed (simp_all add: finish_def)

lemma stopping_step_available:
  assumes "svc_inv loaded s" and "ws_cancelled s" and "ws_phase s = InLoop" and "loaded \<notin> {None, Some Panic}"
  shows "\<exists>t. stopping_step loaded s t"
proof (cases "ws_app s")
  case Loading
  obtain x where x: "loaded = Some x" using assms(4) by (cases loaded) auto
  then show ?thesis using load_rejected [OF Loading] load_accepted [OF Loading] assms(4) by (cases x) blast+
next
  case (Executing conf r)
  then have r: "(env_step conf)\<^sup>*\<^sup>* init_run r" "rn_ctx r" using assms(1-3) by (auto simp: svc_inv_def)
  show ?thesis
  proof (cases "\<exists>e. rn_main r = Exited e")
    case True
    then show ?thesis using command_ended [OF Executing] by blast
  next
    case False
    then show ?thesis
      using stop_step_available [OF run_reachable_inv [OF r(1)] watching_reached [OF r(1)] r(2)] stop [OF Executing] by blast
  qed
next
  case (CmdDone cmdErr)
  then show ?thesis using service_ended [OF assms(3)] by blast
qed

section \<open>Properties\<close>

text \<open>
  C28. The Windows service never reports a failure of the command: whatever configuration the
  command is given and in whatever way it ends, \<open>Execute\<close> returns success to the control manager.
  The code reports exit code 2 only for a result that is \<open>context.Canceled\<close>, and on Windows, where
  there is no FUSE, the command never returns that; a command that fails to start, or whose
  \<open>Close\<close> fails, looks like a clean stop.
\<close>

theorem service_hides_failures:
  assumes "(svc_step (loadConfig pf rd v env (st_SupportsFUSE fuse_windows) u c args opts))\<^sup>*\<^sup>* (Execute_start (Ok exe)) s"
    and "ws_phase s = Returned specific code"
  shows "\<not> specific \<and> code = 0 \<and> (\<exists>err. ws_app s = CmdDone err)"
  using service.inv_steps [OF assms(1) svc_inv_start [OF loadConfig_windows]] assms(2) by (auto simp: svc_inv_def)

text \<open>A service that is started without any instance: the command rejects its configuration.\<close>

abbreviation no_instance :: "Command outcome option" where
  "no_instance \<equiv> loadConfig sample_pflag (\<lambda>_. ReadOk) (\<lambda>_. None) (\<lambda>_. []) (st_SupportsFUSE fuse_windows) (\<lambda>_. False) sample_cmd [] [WithLogger (NewStdLogger Stdout Stdout)]"

lemma no_instance_rejected:
  "no_instance = Some (Err (newBadCommandError ''missing instance_connection_name (e.g., project:region:instance)''))"
proof -
  have "parseConfig sf u (selectLogger (WithLogger l sample_cmd)) [] =
      Err (newBadCommandError ''missing instance_connection_name (e.g., project:region:instance)'')" for sf u l
    by (simp add: parseConfig_def flagRules_def first_error.simps selectLogger_def WithLogger_def sample_cmd_def NewCommand_def
        default_conf_def zero_Config_def Let_def)
  then show ?thesis
    by (simp add: loadConfig_def initViper_def sample_cmd_def NewCommand_def default_conf_def zero_Config_def
        chooseArgs_def instanceFromEnv_def instanceFromConfigFile_def numberedInstances_def getString_def Let_def visitAll_unset)
qed

lemma no_instance_returns:
  assumes "no_instance = Some (Err e)"
  shows "(svc_step no_instance)\<^sup>*\<^sup>* (Execute_start (Ok []))
    (finish (Some e) ((Execute_start (Ok []))\<lparr>ws_app := CmdDone (Some e)\<rparr>))"
proof -
  let ?s = "Execute_start (Ok [])"
  have "svc_step no_instance ?s (?s\<lparr>ws_app := CmdDone (Some e)\<rparr>)"
    by (rule rejected) (use assms in \<open>simp_all add: Execute_start_def\<close>)
  moreover have "svc_step no_instance (?s\<lparr>ws_app := CmdDone (Some e)\<rparr>) (finish (Some e) (?s\<lparr>ws_app := CmdDone (Some e)\<rparr>))"
    by (rule finished) (simp_all add: Execute_start_def)
  ultimately show ?thesis by (meson converse_rtranclp_into_rtranclp rtranclp.rtrancl_refl)
qed

theorem service_hides_failures_witness:
  "\<exists>s e specific code. (svc_step no_instance)\<^sup>*\<^sup>* (Execute_start (Ok [])) s \<and> ws_phase s = Returned specific code
     \<and> \<not> specific \<and> code = 0 \<and> ws_app s = CmdDone (Some e) \<and> Execute (Some e) = 1"
proof -
  define e where "e = newBadCommandError ''missing instance_connection_name (e.g., project:region:instance)''"
  define s where "s = finish (Some e) ((Execute_start (Ok []))\<lparr>ws_app := CmdDone (Some e)\<rparr>)"
  have r: "(svc_step no_instance)\<^sup>*\<^sup>* (Execute_start (Ok [])) s"
    unfolding s_def e_def by (rule no_instance_returns) (rule no_instance_rejected)
  have p: "ws_phase s = Returned False 0" "ws_app s = CmdDone (Some e)"
    by (simp_all add: s_def finish_def svc_result_def e_def newBadCommandError_def)
  have "Execute (Some e) = 1" by (simp add: e_def Execute_def newBadCommandError_def)
  with r p service_hides_failures [OF r p(1)] show ?thesis by blast
qed

text \<open>
  What the control manager sees: start pending, then running with stop and shutdown
  accepted, then every interrogated status echoed twice, and stop pending exactly once, as the
  last status, when and only when \<open>Execute\<close> returns.
\<close>

theorem service_status_protocol:
  assumes "(svc_step (loadConfig pf rd v env (st_SupportsFUSE fuse_windows) u c args opts))\<^sup>*\<^sup>* (Execute_start (Ok exe)) s"
  shows "\<exists>qs. ws_changes s = [(StartPending, []), (Running, [AcceptStop, AcceptShutdown])] @ concat (map (\<lambda>q. [q, q]) qs)
    @ (if ws_phase s = InLoop then [] else [(StopPending, [])])"
  using service.inv_steps [OF assms svc_inv_start [OF loadConfig_windows]] by (auto simp: svc_inv_def echoes_def)

theorem service_status_protocol_witness:
  "\<exists>qs. [(StartPending, []), (Running, [AcceptStop, AcceptShutdown]), (StopPending, [])] =
     [(StartPending, []), (Running, [AcceptStop, AcceptShutdown])] @ concat (map (\<lambda>q. [q, q]) qs) @ [(StopPending, [])]"
proof -
  obtain e where e: "no_instance = Some (Err e)" "e \<noteq> Canceled"
    using no_instance_rejected by (auto simp: newBadCommandError_def)
  from service_status_protocol [OF no_instance_returns [OF e(1)]] show ?thesis
    using e(2) by (simp add: finish_def Execute_start_def svc_result_def)
qed

text \<open>
  C29. A stop request works: once the control manager has asked to stop or shut down, \<open>stop_left\<close>
  counts the steps until \<open>Execute\<close> returns, at most seventeen. They are the end of \<open>loadConfig\<close>, the steps of
  the command's main goroutine (in which \<open>Close\<close> and the sleep count as one step each), the one
  step with which the signal watcher answers the cancelled context, and those of the service's loop; no
  signal, request or failure from outside is needed. As long as \<open>Execute\<close> has not returned, such a step
  is available; each takes one off at least; and no step of anyone adds to them.
\<close>

theorem service_can_stop:
  assumes "(svc_step loaded)\<^sup>*\<^sup>* (Execute_start (Ok exe)) s" and "loaded = loadConfig pf rd v env (st_SupportsFUSE fuse_windows) u c args opts"
    and "ws_phase s = InLoop" and "req \<in> {Stop, Shutdown}" and "(svc_step loaded)\<^sup>*\<^sup>* (handle_request req s) t"
    and "loaded \<notin> {None, Some Panic}"
  shows "(ws_phase t = Returned False 0 \<or> (\<exists>u. stopping_step loaded t u))
    \<and> (ws_phase t = InLoop \<longrightarrow> (\<forall>u. stopping_step loaded t u \<longrightarrow> stop_left u < stop_left t))
    \<and> (\<forall>u. svc_step loaded t u \<longrightarrow> stop_left u \<le> stop_left t)
    \<and> stop_left (handle_request req s) \<le> 17"
proof -
  let ?s = "handle_request req s"
  have inv: "svc_inv loaded s"
    using service.inv_steps [OF assms(1) svc_inv_start] loadConfig_windows assms(2) by blast
  have "svc_step loaded s ?s" using assms(3) by (rule request)
  then have inv': "svc_inv loaded ?s" by (rule svc_inv_step [OF inv])
  then have t: "svc_inv loaded t" using assms(5) by (rule service.inv_steps [rotated])
  have "ws_cancelled ?s" using assms(4) by auto
  with assms(5) have c: "ws_cancelled t" by (induction rule: rtranclp_induct) (auto intro: cancelled_stays)
  have "ws_phase t \<in> {InLoop, Returned False 0}" using t by (auto simp: svc_inv_def)
  moreover have "stop_left ?s \<le> 17"
    using service_start_left [OF assms(1)] loadConfig_windows assms(2) svc_step_left [OF inv \<open>svc_step loaded s ?s\<close>] inv by simp
  ultimately show ?thesis
    using stopping_step_available [OF t c _ assms(6)] stopping_step_left [OF t] svc_step_left [OF t] by blast
qed

abbreviation one_instance :: "Command outcome option" where
  "one_instance \<equiv> loadConfig sample_pflag (\<lambda>_. ReadOk) (\<lambda>_. None) (\<lambda>_. []) (st_SupportsFUSE fuse_windows) (\<lambda>_. False) sample_cmd [''p:r:i''] []"

lemma one_instance_accepted: "\<exists>c. one_instance = Some (Ok c)"
proof -
  have "selectLogger sample_cmd = sample_cmd" "initViper rd sample_cmd = Ok ()" for rd
    by (simp_all add: selectLogger_def initViper_def sample_cmd_def NewCommand_def default_conf_def zero_Config_def Let_def)
  with sample_parsed [of "st_SupportsFUSE fuse_windows"] show ?thesis
    by (auto simp: loadConfig_def chooseArgs_def visitAll_unset)
qed

theorem service_can_stop_witness:
  "\<exists>s u. (svc_step one_instance)\<^sup>*\<^sup>* (Execute_start (Ok [])) s \<and> (\<exists>conf r. ws_app s = Executing conf r \<and> rn_reason r = None)
     \<and> stopping_step one_instance (handle_request Stop s) u \<and> stop_left u < stop_left (handle_request Stop s)"
proof -
  obtain c where c: "one_instance = Some (Ok c)" using one_instance_accepted by blast
  let ?s = "Execute_start (Ok [])" and ?t = "(Execute_start (Ok []))\<lparr>ws_app := Executing (cm_conf c) init_run\<rparr>"
  have "svc_step one_instance ?s ?t"
    using accepted [of ?s one_instance c] c by (simp add: Execute_start_def)
  then have t: "(svc_step one_instance)\<^sup>*\<^sup>* ?s ?t" by (rule r_into_rtranclp)
  have "ws_phase ?t = InLoop" "ws_phase (handle_request Stop ?t) = InLoop" by (simp_all add: Execute_start_def)
  with service_can_stop [OF t refl _ _ rtranclp.rtrancl_refl, of Stop] c
  obtain u where "stopping_step one_instance (handle_request Stop ?t) u" "stop_left u < stop_left (handle_request Stop ?t)" by auto
  with t show ?thesis by (intro exI [of _ ?t] exI [of _ u]) (simp add: init_run_def)
qed

end
