(* ===== verification/Cmd_Tree.thy ===== *)
theory Cmd_Tree
  imports Cmd_Http
begin

text \<open>
  The tree of commands \<open>NewCommand\<close> builds (cmd/root.go): the root command and its subcommands
  \<open>wait\<close> and \<open>shutdown\<close>, with the flags each declares, their shorthands and default texts, and the
  version and user agent set at start. The command library is not modelled. The declared
  flags are those of the table the configuration is read from (\<open>Cmd_Config\<close>), with the same defaults.
\<close>

section \<open>Version and user agent\<close>

text \<open>\<open>init\<close>: the package variables \<open>versionString\<close> and \<open>userAgent\<close>.\<close>

definition init_vars :: "string \<Rightarrow> string \<Rightarrow> string \<times> string" where
  "init_vars versionString metadataString =
     (let v = semanticVersion versionString metadataString in (v, ''cloud-sql-proxy/'' @ v))"

section \<open>Flag declarations\<close>

text \<open>A shorthand is empty if there is none; persistent flags are also those of the subcommands.\<close>

record flag_decl =
  fd_name :: string
  fd_short :: string
  fd_default :: string
  fd_persistent :: bool

definition rootFlags :: "string \<Rightarrow> flag_decl list" where
  "rootFlags tmp =
    [\<lparr>fd_name = ''help'', fd_short = ''h'', fd_default = ''false'', fd_persistent = False\<rparr>,
     \<lparr>fd_name = ''version'', fd_short = ''v'', fd_default = ''false'', fd_persistent = False\<rparr>,
     \<lparr>fd_name = ''config-file'', fd_short = [], fd_default = [], fd_persistent = False\<rparr>,
     \<lparr>fd_name = ''user-agent'', fd_short = [], fd_default = [], fd_persistent = False\<rparr>,
     \<lparr>fd_name = ''token'', fd_short = ''t'', fd_default = [], fd_persistent = False\<rparr>,
     \<lparr>fd_name = ''login-token'', fd_short = [], fd_default = [], fd_persistent = False\<rparr>,
     \<lparr>fd_name = ''credentials-file'', fd_short = ''c'', fd_default = [], fd_persistent = False\<rparr>,
     \<lparr>fd_name = ''json-credentials'', fd_short = ''j'', fd_default = [], fd_persistent = False\<rparr>,
     \<lparr>fd_name = ''gcloud-auth'', fd_short = ''g'', fd_default = ''false'', fd_persistent = False\<rparr>,
     \<lparr>fd_name = ''structured-logs'', fd_short = ''l'', fd_default = ''false'', fd_persistent = False\<rparr>,
     \<lparr>fd_name = ''debug-logs'', fd_short = [], fd_default = ''false'', fd_persistent = False\<rparr>,
     \<lparr>fd_name = ''max-connections'', fd_short = [], fd_default = ''0'', fd_persistent = False\<rparr>,
     \<lparr>fd_name = ''min-sigterm-delay'', fd_short = [], fd_default = ''0s'', fd_persistent = False\<rparr>,
     \<lparr>fd_name = ''max-sigterm-delay'', fd_short = [], fd_default = ''0s'', fd_persistent = False\<rparr>,
     \<lparr>fd_name = ''telemetry-project'', fd_short = [], fd_default = [], fd_persistent = False\<rparr>,
     \<lparr>fd_name = ''disable-traces'', fd_short = [], fd_default = ''false'', fd_persistent = False\<rparr>,
     \<lparr>fd_name = ''telemetry-sample-rate'', fd_short = [], fd_default = ''10000'', fd_persistent = False\<rparr>,
     \<lparr>fd_name = ''disable-metrics'', fd_short = [], fd_default = ''false'', fd_persistent = False\<rparr>,
     \<lparr>fd_name = ''telemetry-prefix'', fd_short = [], fd_default = [], fd_persistent = False\<rparr>,
     \<lparr>fd_name = ''exit-zero-on-sigterm'', fd_short = [], fd_default = ''false'', fd_persistent = False\<rparr>,
     \<lparr>fd_name = ''prometheus'', fd_short = [], fd_default = ''false'', fd_persistent = False\<rparr>,
     \<lparr>fd_name = ''prometheus-namespace'', fd_short = [], fd_default = [], fd_persistent = False\<rparr>,
     \<lparr>fd_name = ''http-address'', fd_short = [], fd_default = ''localhost'', fd_persistent = True\<rparr>,
     \<lparr>fd_name = ''http-port'', fd_short = [], fd_default = ''9090'', fd_persistent = True\<rparr>,
     \<lparr>fd_name = ''debug'', fd_short = [], fd_default = ''false'', fd_persistent = False\<rparr>,
     \<lparr>fd_name = ''quitquitquit'', fd_short = [], fd_default = ''false'', fd_persistent = False\<rparr>,
     \<lparr>fd_name = ''admin-port'', fd_short = [], fd_default = ''9091'', fd_persistent = False\<rparr>,
     \<lparr>fd_name = ''health-check'', fd_short = [], fd_default = ''false'', fd_persistent = False\<rparr>,
     \<lparr>fd_name = ''sqladmin-api-endpoint'', fd_short = [], fd_default = [], fd_persistent = False\<rparr>,
     \<lparr>fd_name = ''universe-domain'', fd_short = [], fd_default = [], fd_persistent = False\<rparr>,
     \<lparr>fd_name = ''quota-project'', fd_short = [], fd_default = [], fd_persistent = False\<rparr>,
     \<lparr>fd_name = ''fuse'', fd_short = [], fd_default = [], fd_persistent = False\<rparr>,
     \<lparr>fd_name = ''fuse-tmp-dir'', fd_short = [], fd_default = join2 tmp ''csql-tmp'', fd_persistent = False\<rparr>,
     \<lparr>fd_name = ''impersonate-service-account'', fd_short = [], fd_default = [], fd_persistent = False\<rparr>,
     \<lparr>fd_name = ''quiet'', fd_short = [], fd_default = ''false'', fd_persistent = False\<rparr>,
     \<lparr>fd_name = ''auto-ip'', fd_short = [], fd_default = ''false'', fd_persistent = False\<rparr>,
     \<lparr>fd_name = ''lazy-refresh'', fd_short = [], fd_default = ''false'', fd_persistent = False\<rparr>,
     \<lparr>fd_name = ''resource-exhausted-cooldown-delay'', fd_short = [], fd_default = ''0s'', fd_persistent = False\<rparr>,
     \<lparr>fd_name = ''sqldata-api-endpoint'', fd_short = [], fd_default = [], fd_persistent = False\<rparr>,
     \<lparr>fd_name = ''run-connection-test'', fd_short = [], fd_default = ''false'', fd_persistent = False\<rparr>,
     \<lparr>fd_name = ''skip-failed-instance-config'', fd_short = [], fd_default = ''false'', fd_persistent = False\<rparr>,
     \<lparr>fd_name = ''address'', fd_short = ''a'', fd_default = ''127.0.0.1'', fd_persistent = False\<rparr>,
     \<lparr>fd_name = ''port'', fd_short = ''p'', fd_default = ''0'', fd_persistent = False\<rparr>,
     \<lparr>fd_name = ''unix-socket'', fd_short = ''u'', fd_default = [], fd_persistent = False\<rparr>,
     \<lparr>fd_name = ''auto-iam-authn'', fd_short = ''i'', fd_default = ''false'', fd_persistent = False\<rparr>,
     \<lparr>fd_name = ''private-ip'', fd_short = [], fd_default = ''false'', fd_persistent = False\<rparr>,
     \<lparr>fd_name = ''psc'', fd_short = [], fd_default = ''false'', fd_persistent = False\<rparr>,
     \<lparr>fd_name = ''sql-data'', fd_short = [], fd_default = ''false'', fd_persistent = False\<rparr>]"

definition waitFlags :: "flag_decl list" where
  "waitFlags = [\<lparr>fd_name = ''max'', fd_short = ''m'', fd_default = ''30s'', fd_persistent = False\<rparr>]"

definition shutdownFlags :: "flag_decl list" where
  "shutdownFlags = [\<lparr>fd_name = ''admin-port'', fd_short = [], fd_default = ''9091'', fd_persistent = False\<rparr>]"

section \<open>Commands\<close>

datatype run_function = RunSignalWrapper | RunWaitCmd | RunShutdownCmd

record cobra_command =
  cc_use :: string
  cc_flags :: "flag_decl list"
  cc_run :: run_function

definition waitCmd :: cobra_command where
  "waitCmd = \<lparr>cc_use = ''wait'', cc_flags = waitFlags, cc_run = RunWaitCmd\<rparr>"

definition shutdownCmd :: cobra_command where
  "shutdownCmd = \<lparr>cc_use = ''shutdown'', cc_flags = shutdownFlags, cc_run = RunShutdownCmd\<rparr>"

definition rootCmd :: "string \<Rightarrow> cobra_command" where
  "rootCmd tmp = \<lparr>cc_use = ''cloud-sql-proxy INSTANCE_CONNECTION_NAME...'', cc_flags = rootFlags tmp, cc_run = RunSignalWrapper\<rparr>"

text \<open>The flags a command sees: a subcommand also those persistent on the root.\<close>

definition available :: "string \<Rightarrow> cobra_command \<Rightarrow> flag_decl list" where
  "available tmp c = cc_flags c @ (if cc_run c = RunSignalWrapper then [] else filter fd_persistent (rootFlags tmp))"

section \<open>Facts\<close>

lemma flag_names: "map fd_name (rootFlags tmp) = map fst (flags pf)"
  by (simp add: rootFlags_def flags_def stringVar_def parsedVar_def Let_def)

section \<open>Properties\<close>

text \<open>
  The defaults agree: if the flag library reads the declared default texts as the values
  they show, setting every flag of the table to its default text gives exactly the
  configuration \<open>NewCommand\<close> starts with.
\<close>

definition reads_defaults :: "pflag \<Rightarrow> bool" where
  "reads_defaults pf \<longleftrightarrow>
     fst (pf_bool pf ''false'') = False \<and> fst (pf_int pf ''0'') = 0 \<and> fst (pf_int pf ''10000'') = 10000
     \<and> fst (pf_uint64 pf ''0'') = 0 \<and> fst (pf_duration pf ''0s'') = 0"

theorem default_conf_of_flags:
  assumes "reads_defaults pf"
  shows "fold (\<lambda>(f, d) conf. fst (snd f (fd_default d) conf)) (zip (flags pf) (rootFlags tmp))
      (zero_Config\<lparr>cf_UserAgent := ua\<rparr>) = cm_conf (NewCommand tmp ua)"
  using assms
  by (simp add: reads_defaults_def flags_def rootFlags_def NewCommand_def default_conf_def zero_Config_def
      stringVar_def parsedVar_def Let_def)

theorem default_conf_of_flags_witness:
  "fold (\<lambda>(f, d) conf. fst (snd f (fd_default d) conf)) (zip (flags sample_pflag) (rootFlags ''/tmp''))
      (zero_Config\<lparr>cf_UserAgent := ''ua''\<rparr>) = cm_conf (NewCommand ''/tmp'' ''ua'')"
proof (rule default_conf_of_flags)
  have "atoi ''0'' = Some 0" "atoi ''10000'' = Some 10000" "atoi ''0s'' = None" by code_simp+
  then show "reads_defaults sample_pflag" by (simp add: reads_defaults_def sample_pflag_def read_or_zero_def)
qed

end
