(* ===== verification/Gcloud.thy ===== *)
theory Gcloud
  imports Config Errors
begin

text \<open>
  Credentials from the gcloud command (internal/gcloud/gcloud.go). Looking up the executable,
  running it and decoding its JSON output are parameters; \<open>'e\<close> is the type of expiry times.
\<close>

record 'e oauth_token =
  AccessToken :: string
  Expiry :: 'e

text \<open>A token source that hands out its token until it expires and then asks the helper.\<close>

datatype 'e reuse_source = ReuseTokenSource "'e oauth_token"

record 'e gcloud_env =
  gc_windows :: bool
  gc_LookPath :: "string \<Rightarrow> string outcome"
  gc_Run :: "string \<Rightarrow> string list \<Rightarrow> go_error option \<times> string \<times> string"
  gc_Unmarshal :: "string \<Rightarrow> (string \<times> 'e) outcome"

definition gcloud_Path :: "'e gcloud_env \<Rightarrow> string outcome" where
  "gcloud_Path env = (let g = ''gcloud''; g = (if gc_windows env then g @ ''.cmd'' else g) in gc_LookPath env g)"

definition config_Token :: "string \<times> 'e \<Rightarrow> 'e oauth_token" where
  "config_Token c = \<lparr>AccessToken = fst c, Expiry = snd c\<rparr>"

definition configHelper_Token :: "'e gcloud_env \<Rightarrow> 'e oauth_token outcome" where
  "configHelper_Token env =
     bind_outcome (gcloud_Path env) (\<lambda>gcloudCmd.
       case gc_Run env gcloudCmd [''--format'', ''json'', ''config'', ''config-helper'', ''--min-expiry'', ''1h''] of
         (Some err, buf, errbuf) \<Rightarrow>
           Err (ErrorString (''error reading config: '' @ Error err @ ''; stderr was:'' @ [CHR 0x0A] @ errbuf))
       | (None, buf, errbuf) \<Rightarrow> bind_outcome (gc_Unmarshal env buf) (\<lambda>c. Ok (config_Token c)))"

definition TokenSource :: "'e gcloud_env \<Rightarrow> 'e reuse_source outcome" where
  "TokenSource env = bind_outcome (configHelper_Token env) (\<lambda>tok. Ok (ReuseTokenSource tok))"

text \<open>
  The credential environment of the proxy with this token source: without a gcloud
  executable, a configuration that asks for gcloud credentials has no dialer options.
\<close>

definition gcloud_cred_env ::
  "'e gcloud_env \<Rightarrow> (CredentialsConfig \<Rightarrow> 'e reuse_source ClientOption list \<Rightarrow> 'e reuse_source outcome) \<Rightarrow> string \<Rightarrow>
     'e reuse_source cred_env" where
  "gcloud_cred_env env imp scope =
     \<lparr>gcloud_TokenSource = TokenSource env, impersonate_CredentialsTokenSource = imp, SqlserviceAdminScope = scope\<rparr>"

lemma gcloud_missing:
  assumes "gc_LookPath env (if gc_windows env then ''gcloud.cmd'' else ''gcloud'') = Err e"
    and "cf_GcloudAuth c" "cf_Token c = []" "cf_CredentialsFile c = []" "cf_CredentialsJSON c = []"
  shows "DialerOptions (gcloud_cred_env env imp scope) c = Err e"
proof -
  have "TokenSource env = Err e"
    using assms(1) by (simp add: TokenSource_def configHelper_Token_def gcloud_Path_def Let_def split: if_splits)
  then show ?thesis
    using assms(2-5) by (simp add: DialerOptions_def credentialsOpt_def impersonateOpts_def gcloud_cred_env_def Let_def)
qed

end
