(* ===== verification/Stackdriver.thy ===== *)
theory Stackdriver
  imports Go_Strings
begin

text \<open>
  Formatting of telemetry export errors (cmd/root.go, \<open>formatStackdriverError\<close>). A gRPC status
  is its code, message and details; the texts of metadata and of other details are given.
\<close>

datatype status_detail =
    ErrorInfo string string string
  | Help "(string \<times> string) list"
  | OtherDetail string

record grpc_status =
  st_code :: string
  st_message :: string
  st_details :: "status_detail list"

fun detailStrings :: "status_detail \<Rightarrow> string list" where
  "detailStrings (ErrorInfo reason domain metadata) =
     [''ErrorInfo: Reason='' @ reason @ '', Domain='' @ domain @ '', Metadata='' @ metadata]"
| "detailStrings (Help links) = map (\<lambda>(description, url). ''Help: '' @ description @ '' ('' @ url @ '')'') links"
| "detailStrings (OtherDetail txt) = [txt]"

fun permissionReason :: "status_detail \<Rightarrow> bool" where
  "permissionReason (ErrorInfo reason _ _) \<longleftrightarrow>
     reason = ''ACCESS_TOKEN_SCOPE_INSUFFICIENT'' \<or> containsStr (toLower reason) ''permission''"
| "permissionReason _ \<longleftrightarrow> False"

definition isPermissionIssue :: "grpc_status \<Rightarrow> bool" where
  "isPermissionIssue st \<longleftrightarrow>
     st_code st = ''PermissionDenied'' \<or> containsStr (toLower (st_message st)) ''permission''
     \<or> containsStr (toLower (st_message st)) ''denied'' \<or> list_ex permissionReason (st_details st)"

definition permissionHint :: string where
  "permissionHint = '' - Hint: The Service Account may be missing required IAM permissions. Please ensure it has ''
     @ [CHR 0x27] @ ''Monitoring Metric Writer'' @ [CHR 0x27] @ '' (roles/monitoring.metricWriter) and ''
     @ [CHR 0x27] @ ''Cloud Trace Agent'' @ [CHR 0x27] @ '' (roles/cloudtrace.agent) roles.''"

text \<open>\<open>st\<close> is what \<open>status.FromError\<close> finds, \<open>txt\<close> the message of the error itself.\<close>

definition formatStackdriverError :: "grpc_status option \<Rightarrow> string \<Rightarrow> string" where
  "formatStackdriverError status txt =
     (case status of
        None \<Rightarrow> txt
      | Some st \<Rightarrow>
         (let msg = ''rpc error: code = '' @ st_code st @ '' desc = '' @ st_message st;
              ds = concat (map detailStrings (st_details st));
              msg = (if ds \<noteq> [] then msg @ '' (details: '' @ joins ''; '' ds @ '')'' else msg)
          in if isPermissionIssue st then msg @ permissionHint else msg))"

end
