(* ===== verification/Gendocs.thy ===== *)
theory Gendocs
  imports Go_Path Prelude
begin

text \<open>
  The documentation generator (cmd/gendocs/gen_cloud-sql-proxy_docs.go): \<open>main\<close> lets the command
  library write the Markdown files and then wraps the lines that contain the version number
  in release tags. The library, which writes the files, and the file system are parameters.
\<close>

section \<open>Scanning lines\<close>

abbreviation nl :: char where
  "nl \<equiv> CHR 0x0A"

text \<open>
  \<open>bufio.ScanLines\<close>: the text up to each newline, without a final carriage return; text after the
  last newline is a line if it is not empty. The scanner's buffer holds 64 KiB, newline
  included: at the first line that does not fit, scanning stops with an error.
\<close>

definition maxTokenSize :: nat where
  "maxTokenSize = 65536"

definition rawLines :: "string \<Rightarrow> string list" where
  "rawLines s = (let ps = splitc nl s in if last ps = [] then butlast ps else ps)"

definition dropCR :: "string \<Rightarrow> string" where
  "dropCR l = (if l \<noteq> [] \<and> last l = CHR 0x0D then butlast l else l)"

definition scanLines :: "string \<Rightarrow> string list" where
  "scanLines s = map dropCR (takeWhile (\<lambda>l. length l < maxTokenSize) (rawLines s))"

section \<open>The version expression\<close>

text \<open>
  \<open>cloud-sql-connectors/cloud-sql-proxy/v\d+\.\d+\.\d+\b/\<close> anywhere in the line. What follows a run
  of digits must be a period or a slash, so a run is always taken whole, and the word boundary
  between a digit and a slash always holds.
\<close>

definition digits :: "string \<Rightarrow> string option" where
  "digits s = (case s of c # _ \<Rightarrow> if is_digit c then Some (dropWhile is_digit s) else None | [] \<Rightarrow> None)"

definition literal :: "string \<Rightarrow> string \<Rightarrow> string option" where
  "literal p s = (if hasPrefix s p then Some (drop (length p) s) else None)"

definition match_here :: "string \<Rightarrow> bool" where
  "match_here s =
     (Option.bind (literal ''cloud-sql-connectors/cloud-sql-proxy/v'' s) (\<lambda>s.
      Option.bind (digits s) (\<lambda>s. Option.bind (literal ''.'' s) (\<lambda>s.
      Option.bind (digits s) (\<lambda>s. Option.bind (literal ''.'' s) (\<lambda>s.
      Option.bind (digits s) (literal ''/'')))))) \<noteq> None)"

fun re_Match :: "string \<Rightarrow> bool" where
  "re_Match [] = match_here []"
| "re_Match (x # xs) = (match_here (x # xs) \<or> re_Match xs)"

section \<open>The program\<close>

definition startTag :: string where
  "startTag = ''<!-- {x-release-please-start-version} -->''"

definition endTag :: string where
  "endTag = ''<!-- {x-release-please-end} -->''"

definition tagLine :: "string \<Rightarrow> string list" where
  "tagLine line = (if re_Match line then [startTag, line, endTag] else [line])"

definition tagDoc :: "string \<Rightarrow> string" where
  "tagDoc b = concat (map (\<lambda>l. l @ [nl]) (concat (map tagLine (scanLines b))))"

text \<open>
  The exit code, and the file written if it got that far: \<open>absPath\<close> is \<open>filepath.Abs\<close>, \<open>readFile\<close> reads
  what the command library has written.
\<close>

definition gendocs_main ::
  "string list \<Rightarrow> (string \<Rightarrow> string outcome) \<Rightarrow> (string \<Rightarrow> string outcome) \<Rightarrow> (string \<Rightarrow> go_error option) \<Rightarrow>
     int \<times> (string \<times> string) option" where
  "gendocs_main osArgs absPath readFile writeFile =
     (if 2 < length osArgs then (1, None)
      else case absPath (if length osArgs = 2 then osArgs ! 1 else ''docs/cmd'') of
          Ok outDir \<Rightarrow>
            (let f = join2 outDir ''cloud-sql-proxy.md'' in
             case readFile f of
               Ok b \<Rightarrow> (case writeFile f of Some _ \<Rightarrow> (1, None) | None \<Rightarrow> (0, Some (f, tagDoc b)))
             | _ \<Rightarrow> (1, None))
        | _ \<Rightarrow> (1, None))"

section \<open>Facts\<close>

lemma rawLines_no_nl: "l \<in> set (rawLines s) \<Longrightarrow> nl \<notin> set l"
  by (auto simp: rawLines_def Let_def split: if_splits dest: in_set_butlastD splitc_no_sep)

lemma dropCR_subset: "set (dropCR l) \<subseteq> set l"
  by (auto simp: dropCR_def dest: in_set_butlastD)

lemma scanLines_no_nl: "l \<in> set (scanLines s) \<Longrightarrow> nl \<notin> set l"
  using dropCR_subset rawLines_no_nl by (fastforce simp: scanLines_def dest: set_takeWhileD)

lemma tag_no_nl: "nl \<notin> set startTag" "nl \<notin> set endTag"
  by (simp_all add: startTag_def endTag_def)

lemma tags_no_match: "\<not> re_Match startTag" "\<not> re_Match endTag"
  by (simp_all add: startTag_def endTag_def match_here_def literal_def hasPrefix_def)

lemma splitc_lines:
  "\<forall>l \<in> set ls. c \<notin> set l \<Longrightarrow> splitc c (concat (map (\<lambda>l. l @ [c]) ls)) = ls @ [[]]"
  by (induction ls) (auto simp: splitc_Cons)

text \<open>Lines that are written one by one are read back.\<close>

lemma rawLines_written:
  "\<forall>l \<in> set ls. nl \<notin> set l \<Longrightarrow> rawLines (concat (map (\<lambda>l. l @ [nl]) ls)) = ls"
  by (simp add: rawLines_def splitc_lines)

lemma rawLines_tagDoc: "rawLines (tagDoc b) = concat (map tagLine (scanLines b))"
  unfolding tagDoc_def
  by (rule rawLines_written) (auto simp: tagLine_def tag_no_nl scanLines_no_nl split: if_splits)

lemma takeWhile_prefix: "\<forall>x \<in> set xs. P x \<Longrightarrow> \<not> P y \<Longrightarrow> takeWhile P (xs @ y # ys) = xs"
  by (induction xs) auto

lemma untag: "startTag \<notin> set ls \<Longrightarrow> endTag \<notin> set ls \<Longrightarrow>
  filter (\<lambda>l. l \<noteq> startTag \<and> l \<noteq> endTag) (concat (map tagLine ls)) = ls"
  by (induction ls) (auto simp: tagLine_def)

section \<open>What the expression means\<close>

text \<open>A line that names a release: three numbers, with periods, between the path of the proxy and a slash.\<close>

definition number :: "string \<Rightarrow> bool" where
  "number d \<longleftrightarrow> d \<noteq> [] \<and> list_all is_digit d"

definition version_line :: "string \<Rightarrow> bool" where
  "version_line l \<longleftrightarrow> (\<exists>before major minor patch after. number major \<and> number minor \<and> number patch
     \<and> l = before @ ''cloud-sql-connectors/cloud-sql-proxy/v'' @ major @ ''.'' @ minor @ ''.'' @ patch @ ''/'' @ after)"

lemma literal_Some: "literal p s = Some r \<longleftrightarrow> s = p @ r"
proof
  assume "literal p s = Some r"
  then have "take (length p) s = p" "r = drop (length p) s" by (auto simp: literal_def hasPrefix_def split: if_splits)
  then show "s = p @ r" by (metis append_take_drop_id)
qed (simp add: literal_def hasPrefix_def)

lemma digits_number: "number d \<Longrightarrow> \<not> is_digit c \<Longrightarrow> digits (d @ c # r) = Some (c # r)"
  by (cases d) (auto simp: number_def digits_def list_all_iff dropWhile_append2)

lemma digits_Some:
  assumes "digits s = Some r"
  shows "\<exists>d. number d \<and> s = d @ r"
proof -
  have "s = takeWhile is_digit s @ r" "takeWhile is_digit s \<noteq> []"
    using assms by (auto simp: digits_def split: list.splits if_splits)
  then show ?thesis by (intro exI [of _ "takeWhile is_digit s"]) (auto simp: number_def list_all_iff dest: set_takeWhileD)
qed

lemma match_here_iff:
  "match_here s \<longleftrightarrow> (\<exists>a b c r. number a \<and> number b \<and> number c
     \<and> s = ''cloud-sql-connectors/cloud-sql-proxy/v'' @ a @ ''.'' @ b @ ''.'' @ c @ ''/'' @ r)"
proof
  assume "match_here s"
  then obtain s1 s2 s3 s4 s5 s6 s7 where
    "literal ''cloud-sql-connectors/cloud-sql-proxy/v'' s = Some s1" "digits s1 = Some s2" "literal ''.'' s2 = Some s3"
    "digits s3 = Some s4" "literal ''.'' s4 = Some s5" "digits s5 = Some s6" "literal ''/'' s6 = Some s7"
    unfolding match_here_def by (auto simp: bind_eq_Some_conv)
  then show "\<exists>a b c r. number a \<and> number b \<and> number c
     \<and> s = ''cloud-sql-connectors/cloud-sql-proxy/v'' @ a @ ''.'' @ b @ ''.'' @ c @ ''/'' @ r"
    by (fastforce simp: literal_Some dest!: digits_Some)
next
  assume "\<exists>a b c r. number a \<and> number b \<and> number c
     \<and> s = ''cloud-sql-connectors/cloud-sql-proxy/v'' @ a @ ''.'' @ b @ ''.'' @ c @ ''/'' @ r"
  then obtain a b c r where n: "number a" "number b" "number c"
    and s: "s = ''cloud-sql-connectors/cloud-sql-proxy/v'' @ a @ ''.'' @ b @ ''.'' @ c @ ''/'' @ r" by blast
  have d: "\<not> is_digit (CHR ''.'')" "\<not> is_digit (CHR ''/'')" by (simp_all add: is_digit_def)
  have l: "literal p (p @ q) = Some q" "literal [x] (x # q) = Some q" for p q x by (simp_all add: literal_Some)
  show "match_here s" unfolding s match_here_def using n d by (simp add: l digits_number del: append_Cons) (simp add: digits_number l)
qed

lemma re_Match_iff: "re_Match l \<longleftrightarrow> version_line l"
proof -
  have "re_Match l \<longleftrightarrow> (\<exists>pre s. l = pre @ s \<and> match_here s)"
    by (induction l rule: re_Match.induct) (auto simp: Cons_eq_append_conv)
  then show ?thesis unfolding match_here_iff version_line_def by blast
qed

section \<open>Properties\<close>

text \<open>
  C40. The generator puts the release tags around exactly the lines that name a release
  (\<open>version_line\<close>, the meaning of the regular expression) and leaves all others as they are; so, if
  no line of the document is a tag itself, removing the tags gives back its lines. All this holds
  of the lines up to the first that does not fit the scanner's buffer: that line and everything
  after it are missing from the result, and the program does not notice, because the scanner's
  error is not looked at.
\<close>

theorem tagDoc_lines:
  assumes "rawLines b = pre @ post" and "\<forall>l \<in> set pre. length l < maxTokenSize" and "post \<noteq> [] \<longrightarrow> maxTokenSize \<le> length (hd post)"
  shows "rawLines (tagDoc b) =
      concat (map (\<lambda>l. if version_line l then [startTag, l, endTag] else [l]) (map dropCR pre))
    \<and> (startTag \<notin> dropCR ` set pre \<longrightarrow> endTag \<notin> dropCR ` set pre \<longrightarrow>
         filter (\<lambda>l. l \<noteq> startTag \<and> l \<noteq> endTag) (rawLines (tagDoc b)) = map dropCR pre)"
proof -
  have "takeWhile (\<lambda>l. length l < maxTokenSize) (pre @ post) = pre"
    using assms(2,3) by (cases post) (auto intro: takeWhile_prefix)
  then have scan: "scanLines b = map dropCR pre" by (simp add: scanLines_def assms(1))
  have "tagLine = (\<lambda>l. if version_line l then [startTag, l, endTag] else [l])" by (simp add: fun_eq_iff tagLine_def re_Match_iff)
  then have "rawLines (tagDoc b) = concat (map (\<lambda>l. if version_line l then [startTag, l, endTag] else [l]) (map dropCR pre))"
    by (simp only: rawLines_tagDoc scan)
  moreover have "filter (\<lambda>l. l \<noteq> startTag \<and> l \<noteq> endTag) (rawLines (tagDoc b)) = map dropCR pre"
    if "startTag \<notin> dropCR ` set pre" "endTag \<notin> dropCR ` set pre"
    using untag [of "map dropCR pre"] that by (simp only: rawLines_tagDoc scan set_map) simp
  ultimately show ?thesis by blast
qed

text \<open>A document of two lines, one of them with a version.\<close>

definition sample_doc :: string where
  "sample_doc = ''see cloud-sql-connectors/cloud-sql-proxy/v2.25.3/x'' @ [nl] @ ''end'' @ [nl]"

theorem tagDoc_lines_witness:
  "rawLines (tagDoc sample_doc) = [startTag, ''see cloud-sql-connectors/cloud-sql-proxy/v2.25.3/x'', endTag, ''end'']
   \<and> filter (\<lambda>l. l \<noteq> startTag \<and> l \<noteq> endTag) (rawLines (tagDoc sample_doc)) =
       [''see cloud-sql-connectors/cloud-sql-proxy/v2.25.3/x'', ''end'']"
proof -
  have raw: "rawLines sample_doc = [''see cloud-sql-connectors/cloud-sql-proxy/v2.25.3/x'', ''end''] @ []"
    by (simp add: sample_doc_def rawLines_def)
  have "version_line ''see cloud-sql-connectors/cloud-sql-proxy/v2.25.3/x''"
    unfolding version_line_def
    by (intro exI [of _ "''see ''"] exI [of _ "''2''"] exI [of _ "''25''"] exI [of _ "''3''"] exI [of _ "''x''"])
      (simp add: number_def is_digit_def)
  moreover have "\<not> version_line ''end''" by (simp add: re_Match_iff [symmetric] match_here_def literal_def hasPrefix_def)
  ultimately show ?thesis using tagDoc_lines [OF raw] by (simp add: maxTokenSize_def dropCR_def startTag_def endTag_def)
qed

end
