(* ===== verification/Spec2Isabelle.thy ===== *)
theory Spec2Isabelle
  imports Program Fuse_Exit Shutdown_Time Windows_Service Cmd_Tree Gcloud Stackdriver Gendocs
begin

text \<open>
  A verification library for the Cloud SQL Auth Proxy (Go).

  \<^bold>\<open>The program.\<close> The command line (cmd/) turns flags, environment, configuration file and
  instance arguments into a \<open>Config\<close>, starts a client (internal/proxy) and waits for a reason
  to stop. The client mounts one listener per instance, a TCP port or a Unix socket, or with
  FUSE a directory in which sockets appear on lookup; each accepted connection is counted
  against the limit, dialed through the Cloud SQL connector and copied in both directions. A
  health check (internal/healthcheck) reports on the client over HTTP.

  \<^bold>\<open>The theories\<close>, in the order of dependency:
  \<^item> \<open>Prelude\<close>: 64-bit integers, error values and outcomes, the locales \<open>step_invariant\<close> and
    \<open>simulation\<close> that every concurrent component interprets.
  \<^item> \<open>Go_Strings\<close>, \<open>Go_Path\<close>, \<open>Go_Net\<close>, \<open>Go_Url\<close>: what the program uses of Go's packages strings,
    strconv, fmt, path/filepath, net and net/url, executable, with their round trips.
  \<^item> \<open>Errors\<close>: error messages and the exit errors of cmd/errors.go.
  \<^item> \<open>Conn_Name\<close>: \<open>parseConnName\<close> with its regular expression; it equals splitting at colons, and
    printing and parsing are inverse.
  \<^item> \<open>Config\<close>: the configuration records, \<open>networkType\<close>, \<open>dialOptions\<close>, credentials and
    \<open>DialerOptions\<close>; what the options say about IAM authentication. \<open>Gcloud\<close>: the token source
    the credentials may use.
  \<^item> \<open>Ports\<close>: the port counters, through the locale \<open>port_counter\<close>, interpreted on the global
    counter and the counter of each database engine.
  \<^item> \<open>Mount\<close>: the operating system as explicit state, \<open>newUnixSocketMount\<close>, \<open>newSocketMount\<close>.
  \<^item> \<open>Server\<close>: \<open>serveSocketMount\<close>: accept loops and connection goroutines interleave over the
    shared 64-bit counter. The connection limit holds in every reachable state, the counter
    does not leak, and client connections are closed once.
  \<^item> \<open>Proxy_Conn\<close>: \<open>proxyConn\<close>: both copy loops and their shared cleanup, step by step. Bytes arrive in order
    and without gaps, the cleanup happens once and says what the first loop in the \<open>sync.Once\<close> saw, and
    once it is done both loops end.
  \<^item> \<open>Fuse\<close>: lookups, the socket registry (locale \<open>socket_registry\<close>) with its wait group, the steps of
    \<open>serveFuse\<close>, and the README.
  \<^item> \<open>Client\<close>: \<open>NewClient\<close>, \<open>CheckConnections\<close>, \<open>Serve\<close>, \<open>Close\<close>: no listener leaks on failure,
    \<open>Close\<close> undoes \<open>NewClient\<close>, which ports a client listens on, and what each call reports. \<open>NewClient\<close> is
    there as a function and as the sequence of its steps (\<open>NewClient_next\<close>), which give the same.
  \<^item> \<open>Health_Check\<close>: notifications and the HTTP answers, also against the server's states.
  \<^item> \<open>Cmd_Instance\<close>, \<open>Log\<close>, \<open>Cmd_Config\<close>: instance arguments, loggers, the flag table, \<open>loadConfig\<close>
    and \<open>parseConfig\<close>: what is accepted is consistent and can be expressed, how its instances are
    reached (where instance parameters win over flags and where they do not), every rejection exits with code 1, flags take precedence, reading the environment ends.
  \<^item> \<open>Cmd_Http\<close>: the handlers of the HTTP and the admin server with the dispatch of
    \<open>http.ServeMux\<close>, and the commands \<open>wait\<close> (in explicit time) and \<open>shutdown\<close>.
  \<^item> \<open>Cmd_Run\<close>, \<open>Cmd_Shutdown\<close>: \<open>runSignalWrapper\<close>: the goroutines around the channel \<open>shutdownCh\<close>,
    telemetry, the HTTP servers and the stack of deferred calls; the exit codes, the order of
    the shutdown, what the endpoints answer meanwhile, and that the process ends.
  \<^item> \<open>Process\<close>, \<open>Process_Safety\<close>, \<open>Process_Close\<close>: the running process, composed of \<open>Cmd_Run\<close>, \<open>Client\<close>,
    \<open>Server\<close> and \<open>Proxy_Conn\<close> over one operating system and one counter, with \<open>NewClient\<close> and \<open>Close\<close> as the
    sequences of their own steps among all goroutines. It refines its parts; ready means listening; a
    successful \<open>wait\<close> means serving; the process exits and gives its listeners back, unless its
    start was interrupted; what \<open>Close\<close> without error says about connections, and the two windows in
    which it says too much or is not called.
  \<^item> \<open>Fuse_Process\<close>: serving and closing with FUSE: lookups, sockets and \<open>Close\<close> interleaved; \<open>Close\<close>
    returns after an unmount and may wait for ever after a failed one.
  \<^item> \<open>Fuse_System\<close>, \<open>Fuse_System_Safety\<close>, \<open>Fuse_Runs\<close>, \<open>Fuse_Exit\<close>: the running process with FUSE: \<open>Cmd_Run\<close> around
    \<open>Fuse_Process\<close> and around the \<open>Server\<close> whose mounts are the sockets that lookups have created. It
    refines these parts; one connection limit holds over all sockets; ready means mounted; what
    \<open>Close\<close> without error says; the window in which it comes before the mount; and, with the
    directory offline, the process exits.
  \<^item> \<open>Program\<close>: main.go with the root command: from the arguments through \<open>loadConfig\<close> to the process, with
    or without FUSE, and to the exit code.
  \<^item> \<open>Shutdown_Time\<close>: the two delays of a shutdown in explicit time: when the wait loop of \<open>Close\<close> ends,
    after how many ticks, and with which result.
  \<^item> \<open>Platform\<close>: the stubs of systems without FUSE, through the locale \<open>no_fuse_platform\<close>,
    interpreted on Windows, OpenBSD and FreeBSD, and the socket addresses of Windows.
  \<^item> \<open>Windows_Service\<close>: main_windows.go: the service around the command, what it reports to the
    control manager, and that a stop request by itself brings it to its end.
  \<^item> \<open>Cmd_Tree\<close>: the commands of \<open>NewCommand\<close> with all their flags, types and defaults.
  \<^item> \<open>Stackdriver\<close>: formatting of telemetry errors. \<open>Gendocs\<close>: the documentation generator,
    with the line scanner of Go's bufio and its regular expression, which names exactly the version lines.

  This theory holds the properties that span the program: what a ready proxy serves for its
  arguments, and what its exit code means.

  \<^bold>\<open>Conventions.\<close> A Go string is a list of bytes; \<open>uint64\<close> is a 64-bit word and wraps; an \<open>int\<close> that
  may overflow is reduced with \<open>int64\<close>. A call that may fail returns an \<open>outcome\<close>, with \<open>Panic\<close>
  for a run-time panic; a call that may wait for ever returns an option, with \<open>None\<close> for not
  returning. Records carry the source's field names behind a two-letter prefix. The dialer,
  the credential, flag, configuration and FUSE libraries, the JSON decoder, the HTTP transport
  and \<open>url.Parse\<close> are parameters; so is the order in which Go visits a map. Log output is left
  out except in \<open>Log\<close>, \<open>Proxy_Conn\<close> and what \<open>parseConfig\<close> writes (\<open>parseConfig_log\<close>).

  \<^bold>\<open>Bounds.\<close> The theorems on the connection limit assume that fewer than \<open>2^64\<close> connections have
  been accepted, so that the counter has not wrapped; those on ports assume that the ports
  stay in the range of Go's int, and those on default ports at most 1873 SQL Server and 2126 MySQL instances, the
  gaps between the default ports of the engines. The wait command is bounded by its deadline, one request and one
  pause, if requests return. The line scanner stops at a line of 64 KiB, as Go's does, so the
  documentation ends there. The end of the process is bounded in steps without the ticks of the
  wait loop of \<open>Close\<close>, which \<open>Shutdown_Time\<close> bounds by the limit over 100 milliseconds; the dialer's \<open>Close\<close>
  and \<open>Unmount\<close> are taken to return. No definition uses fuel: loops are structural over the
  events they see, or a partial function with a proof that it returns.

  \<^bold>\<open>Granularity.\<close> Goroutines interleave between steps. A step is one access to shared state, one call to
  the operating system or a library, or one send, with what the goroutine does on its own
  after it. Larger on purpose is \<open>newSocketMount\<close>, one mount of \<open>NewClient\<close> or one lookup, which
  takes place at its \<open>Listen\<close>: what comes before changes no listener and no state of another goroutine, and
  after it nothing fails. A mount that is interrupted just after \<open>Listen\<close> counts as made. The
  connection test of \<open>Serve\<close> is one step too, for any order and results of its dials. The return of \<open>proxyConn\<close> is free in \<open>Server\<close> and tied to the copy loops in \<open>Process\<close>; with FUSE it stays
  free. A panic of a library in \<open>NewClient\<close> ends the start there; that it ends the process too is not
  in the model.

  \<^bold>\<open>Not modelled.\<close> The help texts, which are constants; cloudsql/cloudsql.go, interface declarations
  without code; the byte copies of connections to FUSE sockets, which are those of \<open>Proxy_Conn\<close>;
  what lies in libraries: the command library, which may end the program itself, the telemetry exporters, the profiler, the delivery of systemd notifications, the HTTP transport,
  the FUSE mount itself, the event log and log file of the Windows service.
\<close>

section \<open>From the arguments to the listeners and the exit code\<close>

text \<open>
  C4. The proxy serves what it was asked to serve: if the configuration is accepted, without FUSE and
  without skipping failed instances, then while \<open>/readiness\<close> answers 200 the client has exactly one
  mount per argument, from the command line or else from the environment or the configuration
  file, in the order given, for the instance named before the argument's first \<open>?\<close>; and the
  listeners of these mounts are open, on top of those that were open before.
\<close>

theorem ready_serves_arguments:
  assumes "rootArgs l c args = Some (Ok c')" and "cf_FUSEDir (cm_conf c') = []" and "\<not> cf_SkipFailedInstanceConfig (cm_conf c')"
    and "cf_HealthCheck (cm_conf c')" and "\<forall>x \<in> set (os_listeners os0). fst x < os_next os0"
    and "(proc_step (rootWorld l c') (cm_conf c'))\<^sup>*\<^sup>* (init_proc os0) s"
    and "http_get metrics (cm_conf c') s ''/readiness'' = Some (200, body)"
  shows "\<exists>args' cl new. chooseArgs (ln_getenv l) (ln_viper l) args = Some args' \<and> (args \<noteq> [] \<longrightarrow> args' = args)
    \<and> pr_client s = Some cl \<and> map sm_inst (cl_mnts cl) = map (takeWhile (\<lambda>x. x \<noteq> CHR ''?'')) args'
    \<and> os_listeners (pr_os s) = os_listeners os0 @ new \<and> map fst new = map sm_listener (cl_mnts cl)"
proof -
  obtain args' d where args: "chooseArgs (ln_getenv l) (ln_viper l) args = Some args'" "args \<noteq> [] \<longrightarrow> args' = args"
    "parseConfig (ln_fuse l) (ln_url l) d args' = Ok c'" using rootArgs_steps [OF assms(1)] by metis
  obtain cl new where "pr_client s = Some cl" "os_listeners (pr_os s) = os_listeners os0 @ new" "map fst new = map sm_listener (cl_mnts cl)"
    "map sm_inst (cl_mnts cl) = map ic_Name (cf_Instances (cm_conf c'))"
    using ready_listening [OF assms(6,2,5,4,7)] assms(3) by blast
  with args parseConfig_names [OF args(3)] show ?thesis by metis
qed

theorem ready_serves_arguments_witness:
  "\<exists>conf cl s1. (proc_step sample_world conf)\<^sup>*\<^sup>* (init_proc (init_os [])) (serving_proc conf cl s1)
     \<and> map sm_inst (cl_mnts cl) = [''p:r:i''] \<and> length (os_listeners s1) = 1"
proof -
  obtain c' cl s1 where s: "rootArgs sample_launch sample_flags [''p:r:i''] = Some (Ok c')" "rootWorld sample_launch c' = sample_world"
    "cf_FUSEDir (cm_conf c') = []" "\<not> cf_SkipFailedInstanceConfig (cm_conf c')" "cf_HealthCheck (cm_conf c')"
    "(proc_step sample_world (cm_conf c'))\<^sup>*\<^sup>* (init_proc (init_os [])) (serving_proc (cm_conf c') cl s1)"
    "http_get (200, []) (cm_conf c') (serving_proc (cm_conf c') cl s1) ''/readiness'' = Some (200, ''ok'')"
    by (rule sample_launch_serving)
  have os: "\<forall>x \<in> set (os_listeners (init_os [])). fst x < os_next (init_os [])" by (simp add: init_os_def)
  from ready_serves_arguments [OF s(1,3-5) os _ s(7)] s(2,6) obtain new where
    new: "map sm_inst (cl_mnts cl) = [''p:r:i'']" "os_listeners s1 = new" "map fst new = map sm_listener (cl_mnts cl)"
    by (auto simp: serving_proc_def init_os_def)
  from arg_cong [where f = length, OF new(1)] arg_cong [where f = length, OF new(3)] new(2)
  have "length (os_listeners s1) = 1" by (simp only: length_map list.size)
  with s(6) new(1) show ?thesis by (intro exI conjI)
qed



end
